(* ===== verification/Dns_Prelude.thy ===== *)
theory Dns_Prelude
  imports Main "HOL-Library.Word" "HOL-Library.Monad_Syntax"
begin

unbundle bit_operations_syntax

text \<open>
  Shared vocabulary of the development.

  \<^item> Machine integers are words of their Rust width. \<open>usize\<close> values that index or measure a
    slice are \<open>nat\<close>: they are bounded by the length of a slice in memory, so no addition on
    them can pass \<open>2 ^ 64\<close>.
  \<^item> \<open>'a run\<close> is the result of running Rust code: \<open>Some r\<close> when the call returns \<open>r\<close>,
    \<open>None\<close> when it never returns a value, because an index or a slice is out of range (a
    panic, which aborts the process in the release profile) or because a recursion has no end
    (the stack overflows). A Rust \<open>Option\<close> or \<open>Result\<close> is a value inside \<open>run\<close>.
  \<^item> Slice reads and writes are checked: \<open>rd\<close>, \<open>sub_slice\<close> and \<open>wr\<close> are \<open>None\<close> exactly where
    the Rust expression panics.
\<close>

section \<open>Types\<close>

type_synonym u8 = "8 word"
type_synonym u16 = "16 word"
type_synonym u32 = "32 word"
type_synonym u64 = "64 word"
type_synonym bytes = "u8 list"
type_synonym rstr = "u8 list" \<comment> \<open>a Rust \<open>str\<close>: its UTF-8 bytes\<close>
type_synonym ipv4 = "u8 \<times> u8 \<times> u8 \<times> u8" \<comment> \<open>the four octets of an \<open>Ipv4Addr\<close>\<close>
type_synonym 'a run = "'a option"

named_theorems run_simps \<open>unfolding of checked reads and writes that are in range\<close>

section \<open>Checked access to byte slices\<close>

definition rd :: "bytes \<Rightarrow> nat \<Rightarrow> u8 run" where
  "rd b i = (if i < length b then Some (b ! i) else None)"

definition sub_slice :: "bytes \<Rightarrow> nat \<Rightarrow> nat \<Rightarrow> bytes run" where
  "sub_slice b i j = (if i \<le> j \<and> j \<le> length b then Some (take (j - i) (drop i b)) else None)"

definition wr :: "bytes \<Rightarrow> nat \<Rightarrow> u8 \<Rightarrow> bytes run" where
  "wr b i v = (if i < length b then Some (b[i := v]) else None)"

lemma rd_in [run_simps]: "i < length b \<Longrightarrow> rd b i = Some (b ! i)"
  by (simp add: rd_def)

lemma sub_slice_in [run_simps]:
  "i \<le> j \<Longrightarrow> j \<le> length b \<Longrightarrow> sub_slice b i j = Some (take (j - i) (drop i b))"
  by (simp add: sub_slice_def)

lemma wr_in [run_simps]: "i < length b \<Longrightarrow> wr b i v = Some (b[i := v])"
  by (simp add: wr_def)

section \<open>Big-endian integers\<close>

text \<open>\<open>u16::from_be_bytes\<close>, \<open>u32::from_be_bytes\<close> and \<open>to_be_bytes\<close>.\<close>

definition be16 :: "u8 \<Rightarrow> u8 \<Rightarrow> u16" where
  "be16 a b = push_bit 8 (ucast a) OR ucast b"

definition be32 :: "u8 \<Rightarrow> u8 \<Rightarrow> u8 \<Rightarrow> u8 \<Rightarrow> u32" where
  "be32 a b c d =
     push_bit 24 (ucast a) OR push_bit 16 (ucast b) OR push_bit 8 (ucast c) OR ucast d"

definition to_be16 :: "u16 \<Rightarrow> bytes" where
  "to_be16 w = [ucast (drop_bit 8 w), ucast w]"

definition rd16 :: "bytes \<Rightarrow> nat \<Rightarrow> u16 run" where
  "rd16 b i = do { x \<leftarrow> rd b i; y \<leftarrow> rd b (i + 1); Some (be16 x y) }"

definition rd32 :: "bytes \<Rightarrow> nat \<Rightarrow> u32 run" where
  "rd32 b i = do {
     w \<leftarrow> rd b i; x \<leftarrow> rd b (i + 1); y \<leftarrow> rd b (i + 2); z \<leftarrow> rd b (i + 3);
     Some (be32 w x y z) }"

lemma rd16_in [run_simps]: "i + 1 < length b \<Longrightarrow> rd16 b i = Some (be16 (b ! i) (b ! (i + 1)))"
  by (simp add: rd16_def run_simps)

lemma rd32_in [run_simps]:
  "i + 3 < length b \<Longrightarrow>
     rd32 b i = Some (be32 (b ! i) (b ! (i + 1)) (b ! (i + 2)) (b ! (i + 3)))"
  by (simp add: rd32_def run_simps)

lemma be16_to_be16 [simp]: "be16 (ucast (drop_bit 8 w)) (ucast w) = w" for w :: u16
  unfolding be16_def by (rule bit_word_eqI) (auto simp: bit_simps)

lemma be16_hi_lo [simp]: "be16 (ucast (drop_bit 8 w)) (ucast (w AND 0xFF)) = w" for w :: u16
proof -
  have eq: "w AND 0xFF = take_bit 8 w" by (simp add: take_bit_eq_mask mask_eq_exp_minus_1)
  have "(ucast (w AND 0xFF) :: u8) = ucast w"
    unfolding eq by (rule bit_word_eqI) (auto simp: bit_simps)
  then show ?thesis by simp
qed

lemma to_be16_be16 [simp]: "to_be16 (be16 a b) = [a, b]"
proof -
  have "\<not> bit b (8 + n)" for n using bit_imp_le_length [of b "8 + n"] by auto
  then have "ucast (drop_bit 8 (be16 a b)) = a" "ucast (be16 a b) = b"
    unfolding be16_def by (auto intro!: bit_word_eqI simp: bit_simps)
  then show ?thesis by (simp add: to_be16_def)
qed

lemma length_to_be16 [simp]: "length (to_be16 w) = 2"
  by (simp add: to_be16_def)

lemma unat_of_nat_u16 [simp]: "n < 65536 \<Longrightarrow> unat (of_nat n :: u16) = n"
  by (simp add: unat_of_nat take_bit_nat_eq_self_iff)

lemma unat_u8_less [simp]: "unat b < 256" for b :: u8
proof -
  have "unat b < 2 ^ LENGTH(8)" by (rule unsigned_less)
  then show ?thesis by simp
qed

lemma unat_u16_less [simp]: "unat b < 65536" for b :: u16
proof -
  have "unat b < 2 ^ LENGTH(16)" by (rule unsigned_less)
  then show ?thesis by simp
qed

lemma unat_of_nat_u8 [simp]: "n < 256 \<Longrightarrow> unat (of_nat n :: u8) = n"
  by (simp add: unat_of_nat take_bit_nat_eq_self_iff)

section \<open>Lists and options\<close>

lemma nth_append_offset: "i = length xs + j \<Longrightarrow> (xs @ ys) ! i = ys ! j"
  by simp

lemma drop_append_exact [simp]: "i = length xs \<Longrightarrow> drop i (xs @ ys) = ys"
  by simp

lemma take_drop_mid [simp]:
  "i = length xs \<Longrightarrow> n = length ys \<Longrightarrow> take n (drop i (xs @ ys @ zs)) = ys"
  by simp

lemma bind_eq_NoneE:
  assumes "Option.bind x f = None"
  obtains "x = None" | y where "x = Some y" "f y = None"
  using assms by (cases x) auto

end
