(* ===== verification/Rust_Str.thy ===== *)
theory Rust_Str
  imports Dns_Prelude
begin

text \<open>
  The operations of Rust's \<open>str\<close> that the code uses, on UTF-8 byte lists. A \<open>str\<close> is the list
  of its bytes, so \<open>len()\<close> is \<open>length\<close> and concatenation is \<open>@\<close>.

  \<open>str::to_lowercase\<close> is exact on ASCII strings; on the others its result comes from the Unicode
  case tables, which are the parameter \<open>uni\<close> of every definition that lower-cases. \<open>White_Space\<close>
  (for \<open>trim\<close> and \<open>split_whitespace\<close>) and UTF-8 validity are modelled in full.
\<close>

section \<open>Literals, prefixes and suffixes\<close>

definition lit :: "string \<Rightarrow> rstr" where
  "lit s = map of_char s"

abbreviation dot :: u8 where "dot \<equiv> 46"
abbreviation colon :: u8 where "colon \<equiv> 58"
abbreviation comma :: u8 where "comma \<equiv> 44"
abbreviation newline :: u8 where "newline \<equiv> 10"

definition starts_with :: "rstr \<Rightarrow> rstr \<Rightarrow> bool" where
  "starts_with s pre \<longleftrightarrow> take (length pre) s = pre"

definition ends_with :: "rstr \<Rightarrow> rstr \<Rightarrow> bool" where
  "ends_with s suf \<longleftrightarrow> length suf \<le> length s \<and> drop (length s - length suf) s = suf"

definition strip_prefix :: "rstr \<Rightarrow> rstr \<Rightarrow> rstr option" where
  "strip_prefix pre s = (if starts_with s pre then Some (drop (length pre) s) else None)"

definition trim_end_dots :: "rstr \<Rightarrow> rstr" where
  "trim_end_dots s = rev (dropWhile (\<lambda>c. c = dot) (rev s))"

section \<open>Splitting\<close>

text \<open>\<open>s.split(c)\<close>, \<open>s.rsplit(c)\<close>, \<open>s.split_once(c)\<close> and \<open>s.rsplit_once(c)\<close>.\<close>

fun split_on :: "u8 \<Rightarrow> rstr \<Rightarrow> rstr list" where
  "split_on c [] = [[]]"
| "split_on c (x # xs) =
     (if x = c then [] # split_on c xs
      else (case split_on c xs of [] \<Rightarrow> [[x]] | y # ys \<Rightarrow> (x # y) # ys))"

definition rsplit_on :: "u8 \<Rightarrow> rstr \<Rightarrow> rstr list" where
  "rsplit_on c s = rev (split_on c s)"

definition split_once :: "u8 \<Rightarrow> rstr \<Rightarrow> (rstr \<times> rstr) option" where
  "split_once c s =
     (if c \<in> set s
      then Some (takeWhile (\<lambda>x. x \<noteq> c) s, tl (dropWhile (\<lambda>x. x \<noteq> c) s)) else None)"

definition rsplit_once :: "u8 \<Rightarrow> rstr \<Rightarrow> (rstr \<times> rstr) option" where
  "rsplit_once c s =
     (case split_once c (rev s) of None \<Rightarrow> None | Some (b, a) \<Rightarrow> Some (rev a, rev b))"

fun join_with :: "u8 \<Rightarrow> rstr list \<Rightarrow> rstr" where
  "join_with c [] = []"
| "join_with c [x] = x"
| "join_with c (x # y # ys) = x @ c # join_with c (y # ys)"

text \<open>\<open>str::lines\<close>: a line ends at a line feed, or a carriage return and a line feed.\<close>

definition strip_cr :: "rstr \<Rightarrow> rstr" where
  "strip_cr l = (if l \<noteq> [] \<and> last l = 13 then butlast l else l)"

definition str_lines :: "rstr \<Rightarrow> rstr list" where
  "str_lines s =
     (let ps = split_on newline s
      in map strip_cr (butlast ps) @ (if last ps = [] then [] else [last ps]))"

section \<open>White space\<close>

text \<open>
  The number of bytes of the \<open>White_Space\<close> character a string starts with, 0 when it starts
  with another: U+0009 to U+000D, U+0020, U+0085, U+00A0, U+1680, U+2000 to U+200A, U+2028,
  U+2029, U+202F, U+205F and U+3000.
\<close>

fun ws_len :: "rstr \<Rightarrow> nat" where
  "ws_len s =
     (case s of
        [] \<Rightarrow> 0
      | a # r \<Rightarrow>
          if (9 \<le> a \<and> a \<le> 13) \<or> a = 32 then 1
          else (case r of
             [] \<Rightarrow> 0
           | b # t \<Rightarrow>
               if a = 0xC2 \<and> (b = 0x85 \<or> b = 0xA0) then 2
               else (case t of
                  [] \<Rightarrow> 0
                | d # _ \<Rightarrow>
                    if (a = 0xE1 \<and> b = 0x9A \<and> d = 0x80)
                      \<or> (a = 0xE2 \<and> b = 0x80 \<and> ((0x80 \<le> d \<and> d \<le> 0x8A) \<or> d = 0xA8 \<or> d = 0xA9 \<or> d = 0xAF))
                      \<or> (a = 0xE2 \<and> b = 0x81 \<and> d = 0x9F)
                      \<or> (a = 0xE3 \<and> b = 0x80 \<and> d = 0x80)
                    then 3 else 0)))"

declare ws_len.simps [simp del]

text \<open>The same for the last character: some proper suffix of length 1 to 3 is white space.\<close>

definition ws_rlen :: "rstr \<Rightarrow> nat" where
  "ws_rlen s =
     (let n = length s in
      if 1 \<le> n \<and> ws_len (drop (n - 1) s) = 1 then 1
      else if 2 \<le> n \<and> ws_len (drop (n - 2) s) = 2 then 2
      else if 3 \<le> n \<and> ws_len (drop (n - 3) s) = 3 then 3 else 0)"

function trim_start :: "rstr \<Rightarrow> rstr" where
  "trim_start s = (if s = [] \<or> ws_len s = 0 then s else trim_start (drop (ws_len s) s))"
  by pat_completeness auto
termination by (relation "measure length") auto

function trim_end :: "rstr \<Rightarrow> rstr" where
  "trim_end s =
     (if s = [] \<or> ws_rlen s = 0 then s else trim_end (take (length s - ws_rlen s) s))"
  by pat_completeness auto
termination by (relation "measure length") auto

declare trim_start.simps [simp del] trim_end.simps [simp del]

definition trim :: "rstr \<Rightarrow> rstr" where
  "trim s = trim_end (trim_start s)"

text \<open>\<open>word_len s\<close> is the number of bytes before the first white space of \<open>s\<close>.\<close>

fun word_len :: "rstr \<Rightarrow> nat" where
  "word_len [] = 0"
| "word_len (x # xs) = (if ws_len (x # xs) \<noteq> 0 then 0 else Suc (word_len xs))"

function split_whitespace :: "rstr \<Rightarrow> rstr list" where
  "split_whitespace s =
     (if s = [] then []
      else if ws_len s \<noteq> 0 then split_whitespace (drop (ws_len s) s)
      else take (word_len s) s # split_whitespace (drop (word_len s) s))"
  by pat_completeness auto
termination
proof (relation "measure length")
  show "wf (measure length)" by simp
next
  fix s :: rstr
  assume "s \<noteq> []" "ws_len s \<noteq> 0"
  then show "(drop (ws_len s) s, s) \<in> measure length" by auto
next
  fix s :: rstr
  assume "s \<noteq> []" "\<not> ws_len s \<noteq> 0"
  then show "(drop (word_len s) s, s) \<in> measure length" by (cases s) auto
qed

declare split_whitespace.simps [simp del]

section \<open>UTF-8\<close>

definition is_cont :: "u8 \<Rightarrow> bool" where
  "is_cont b \<longleftrightarrow> 0x80 \<le> b \<and> b \<le> 0xBF"

text \<open>\<open>std::str::from_utf8\<close> succeeds: no stray continuation, no overlong form, no surrogate,
  nothing above U+10FFFF.\<close>

fun utf8_valid :: "bytes \<Rightarrow> bool" where
  "utf8_valid [] = True"
| "utf8_valid (a # r) =
     (if a < 0x80 then utf8_valid r
      else if 0xC2 \<le> a \<and> a \<le> 0xDF then
        (case r of b # t \<Rightarrow> is_cont b \<and> utf8_valid t | [] \<Rightarrow> False)
      else if 0xE0 \<le> a \<and> a \<le> 0xEF then
        (case r of b # c # t \<Rightarrow>
           is_cont b \<and> is_cont c \<and> (a = 0xE0 \<longrightarrow> 0xA0 \<le> b) \<and> (a = 0xED \<longrightarrow> b \<le> 0x9F)
           \<and> utf8_valid t
         | _ \<Rightarrow> False)
      else if 0xF0 \<le> a \<and> a \<le> 0xF4 then
        (case r of b # c # d # t \<Rightarrow>
           is_cont b \<and> is_cont c \<and> is_cont d \<and> (a = 0xF0 \<longrightarrow> 0x90 \<le> b) \<and> (a = 0xF4 \<longrightarrow> b \<le> 0x8F)
           \<and> utf8_valid t
         | _ \<Rightarrow> False)
      else False)"

definition is_ascii :: "rstr \<Rightarrow> bool" where
  "is_ascii s \<longleftrightarrow> (\<forall>c \<in> set s. c < 0x80)"

definition ascii_lower :: "u8 \<Rightarrow> u8" where
  "ascii_lower c = (if 65 \<le> c \<and> c \<le> 90 then c + 32 else c)"

definition to_lowercase :: "(rstr \<Rightarrow> rstr) \<Rightarrow> rstr \<Rightarrow> rstr" where
  "to_lowercase uni s = (if is_ascii s then map ascii_lower s else uni s)"

section \<open>Numbers and addresses\<close>

definition is_digit :: "u8 \<Rightarrow> bool" where
  "is_digit c \<longleftrightarrow> 48 \<le> c \<and> c \<le> 57"

definition dec_val :: "rstr \<Rightarrow> nat" where
  "dec_val = foldl (\<lambda>n c. 10 * n + (unat c - 48)) 0"

text \<open>\<open>str::parse::<u16>\<close>: an optional plus sign, at least one digit, no overflow.\<close>

definition parse_u16 :: "rstr \<Rightarrow> nat option" where
  "parse_u16 s =
     (let ds = (case s of c # r \<Rightarrow> if c = 43 then r else s | [] \<Rightarrow> s)
      in if ds \<noteq> [] \<and> list_all is_digit ds \<and> dec_val ds < 65536 then Some (dec_val ds) else None)"

text \<open>\<open>Ipv4Addr::from_str\<close>: four decimal octets of one to three digits without a leading zero.\<close>

definition parse_octet :: "rstr \<Rightarrow> u8 option" where
  "parse_octet s =
     (if s \<noteq> [] \<and> length s \<le> 3 \<and> list_all is_digit s \<and> (1 < length s \<longrightarrow> hd s \<noteq> 48)
         \<and> dec_val s < 256
      then Some (of_nat (dec_val s)) else None)"

definition parse_ipv4 :: "rstr \<Rightarrow> ipv4 option" where
  "parse_ipv4 s =
     (case split_on dot s of
        [a, b, c, d] \<Rightarrow> do {
          w \<leftarrow> parse_octet a; x \<leftarrow> parse_octet b; y \<leftarrow> parse_octet c; z \<leftarrow> parse_octet d;
          Some (w, x, y, z) }
      | _ \<Rightarrow> None)"

definition dec_u8 :: "u8 \<Rightarrow> rstr" where
  "dec_u8 b =
     (let n = unat b; digit = (\<lambda>k. of_nat (48 + k)) in
      if n < 10 then [digit n]
      else if n < 100 then [digit (n div 10), digit (n mod 10)]
      else [digit (n div 100), digit (n div 10 mod 10), digit (n mod 10)])"

text \<open>\<open>Ipv4Addr\<close>'s \<open>Display\<close>.\<close>

fun show_ipv4 :: "ipv4 \<Rightarrow> rstr" where
  "show_ipv4 (a, b, c, d) = join_with dot [dec_u8 a, dec_u8 b, dec_u8 c, dec_u8 d]"

section \<open>Lemmas\<close>

lemma split_on_nonempty [simp]: "split_on c s \<noteq> []"
  by (induction s) (auto split: list.splits)

lemma split_on_single [simp]: "c \<notin> set s \<Longrightarrow> split_on c s = [s]"
  by (induction s) auto

lemma split_on_append: "split_on c (a @ c # b) = split_on c a @ split_on c b"
proof (induction a)
  case Nil
  then show ?case by simp
next
  case (Cons x a)
  then show ?case by (cases "split_on c a") auto
qed

lemma split_on_parts: "p \<in> set (split_on c s) \<Longrightarrow> c \<notin> set p"
proof (induction s arbitrary: p)
  case (Cons x s)
  then show ?case by (cases "split_on c s") (auto split: if_splits)
qed simp

lemma split_on_subset: "p \<in> set (split_on c s) \<Longrightarrow> set p \<subseteq> set s"
proof (induction s arbitrary: p)
  case (Cons x s)
  then show ?case by (cases "split_on c s") (fastforce split: if_splits)+
qed simp

lemma join_split [simp]: "join_with c (split_on c s) = s"
proof (induction s)
  case (Cons x s)
  then show ?case
    by (cases "split_on c s"; cases "tl (split_on c s)") auto
qed simp

lemma split_join:
  assumes "ps \<noteq> []" "\<And>p. p \<in> set ps \<Longrightarrow> c \<notin> set p"
  shows "split_on c (join_with c ps) = ps"
  using assms
  by (induction c ps rule: join_with.induct) (auto simp: split_on_append)

lemma starts_with_append [simp]: "starts_with (a @ b) a"
  by (simp add: starts_with_def)

lemma starts_withE: "starts_with s pre \<Longrightarrow> \<exists>r. s = pre @ r"
  unfolding starts_with_def by (metis append_take_drop_id)

lemma ends_with_iff: "ends_with s suf \<longleftrightarrow> (\<exists>p. s = p @ suf)"
proof
  assume "ends_with s suf"
  then show "\<exists>p. s = p @ suf"
    unfolding ends_with_def by (metis append_take_drop_id)
next
  assume "\<exists>p. s = p @ suf"
  then show "ends_with s suf" by (auto simp: ends_with_def)
qed

lemma trim_end_dots_no_dot [simp]: "s \<noteq> [] \<Longrightarrow> last s \<noteq> dot \<Longrightarrow> trim_end_dots s = s"
  by (cases s rule: rev_cases) (auto simp: trim_end_dots_def)

lemma trim_end_dots_last: "trim_end_dots s \<noteq> [] \<Longrightarrow> last (trim_end_dots s) \<noteq> dot"
  unfolding trim_end_dots_def
  by (metis (mono_tags, lifting) hd_dropWhile last_rev rev.simps(1))

lemma trim_end_dots_idem [simp]: "trim_end_dots (trim_end_dots s) = trim_end_dots s"
  using trim_end_dots_last by (cases "trim_end_dots s = []") (auto simp: trim_end_dots_def)

lemma is_ascii_append [simp]: "is_ascii (a @ b) \<longleftrightarrow> is_ascii a \<and> is_ascii b"
  by (auto simp: is_ascii_def)

lemma is_ascii_subset: "set a \<subseteq> set b \<Longrightarrow> is_ascii b \<Longrightarrow> is_ascii a"
  by (auto simp: is_ascii_def)

lemma set_trim_end_dots: "set (trim_end_dots s) \<subseteq> set s"
  unfolding trim_end_dots_def using set_dropWhileD by fastforce

lemma is_ascii_trim: "is_ascii s \<Longrightarrow> is_ascii (trim_end_dots s)"
  by (rule is_ascii_subset [OF set_trim_end_dots])

lemma is_ascii_split: "is_ascii s \<Longrightarrow> list_all is_ascii (split_on c s)"
  unfolding list_all_iff using is_ascii_subset split_on_subset by blast

lemma utf8_ascii: "is_ascii s \<Longrightarrow> utf8_valid s"
  by (induction s) (auto simp: is_ascii_def)

lemma ascii_lower_lt: "c < 0x80 \<Longrightarrow> ascii_lower c < 0x80"
  unfolding ascii_lower_def by (auto simp: word_less_nat_alt word_le_nat_alt unat_word_ariths)

lemma ascii_lower_idem [simp]: "ascii_lower (ascii_lower c) = ascii_lower c"
  unfolding ascii_lower_def by (auto simp: word_le_nat_alt unat_word_ariths)

lemma ascii_lower_dot [simp]: "ascii_lower c = dot \<longleftrightarrow> c = dot"
  unfolding ascii_lower_def by (auto simp: word_le_nat_alt unat_word_ariths word_unat_eq_iff)

lemma to_lowercase_ascii: "is_ascii s \<Longrightarrow> to_lowercase uni s = map ascii_lower s"
  by (simp add: to_lowercase_def)

lemma is_ascii_lower: "is_ascii s \<Longrightarrow> is_ascii (map ascii_lower s)"
  by (auto simp: is_ascii_def ascii_lower_lt)

lemma to_lowercase_idem: "is_ascii s \<Longrightarrow> to_lowercase uni (to_lowercase uni s) = to_lowercase uni s"
  by (simp add: to_lowercase_ascii is_ascii_lower comp_def)

end
