(* ===== verification/Dns_Name.thy ===== *)
theory Dns_Name
  imports Rust_Str
begin

text \<open>
  Domain names on the wire: \<open>parse_domain\<close>, \<open>skip_name\<close>, \<open>build_lookup_query\<close> and
  \<open>matches_domain_pattern\<close> of \<open>shared/src/dns.rs\<close>.

  \<open>parse_domain\<close> calls itself on every compression pointer, whose target is not checked, so it
  is a \<open>partial_function\<close>: \<open>None\<close> is a call that never returns. \<open>name_walk\<close> is the sequence of
  offsets it visits; \<open>parse_name_returns_iff\<close> decides from it whether the call returns.
\<close>

section \<open>The parser\<close>

text \<open>\<open>(len & 0xC0) == 0xC0\<close>\<close>

definition is_ptr :: "u8 \<Rightarrow> bool" where
  "is_ptr b \<longleftrightarrow> b AND 0xC0 = 0xC0"

text \<open>\<open>((len & 0x3F) << 8) | payload[offset + 1]\<close>, on \<open>usize\<close>\<close>

definition ptr_target :: "u8 \<Rightarrow> u8 \<Rightarrow> nat" where
  "ptr_target a b = push_bit 8 (unat a AND 0x3F) OR unat b"

text \<open>The body of the label branch: a dot unless the name is still empty, then the label.\<close>

definition push_label :: "(rstr \<Rightarrow> rstr) \<Rightarrow> rstr \<Rightarrow> rstr \<Rightarrow> rstr" where
  "push_label uni name l = (if name = [] then [] else name @ [dot]) @ to_lowercase uni l"

text \<open>One iteration of the loop of \<open>parse_domain\<close> per call; \<open>name\<close> is the local \<open>domain\<close>.\<close>

partial_function (option) parse_name ::
  "(rstr \<Rightarrow> rstr) \<Rightarrow> bytes \<Rightarrow> nat \<Rightarrow> rstr \<Rightarrow> (rstr \<times> nat) option run" where
  "parse_name uni p off name =
     (if length p \<le> off then Some None
      else do {
        b \<leftarrow> rd p off;
        if is_ptr b then
          if length p \<le> off + 1 then Some None
          else do {
            b' \<leftarrow> rd p (off + 1);
            sub \<leftarrow> parse_name uni p (ptr_target b b') [];
            Some (Some (case sub of Some (s, _) \<Rightarrow> name @ s | None \<Rightarrow> name, off + 2)) }
        else if b = 0 then Some (Some (name, off + 1))
        else if length p < off + 1 + unat b then Some None
        else do {
          l \<leftarrow> sub_slice p (off + 1) (off + 1 + unat b);
          if utf8_valid l then parse_name uni p (off + 1 + unat b) (push_label uni name l)
          else Some None } })"

declare parse_name.simps [code]

definition parse_domain ::
  "(rstr \<Rightarrow> rstr) \<Rightarrow> bytes \<Rightarrow> nat \<Rightarrow> (rstr \<times> nat) option run" where
  "parse_domain uni p off = parse_name uni p off []"

function skip_name :: "bytes \<Rightarrow> nat \<Rightarrow> nat option run" where
  "skip_name b pos =
     (if length b \<le> pos then Some None
      else do {
        len \<leftarrow> rd b pos;
        if len = 0 then Some (Some (pos + 1))
        else if is_ptr len then Some (Some (pos + 2))
        else skip_name b (pos + 1 + unat len) })"
  by pat_completeness auto
termination
  by (relation "measure (\<lambda>(b, pos). length b - pos)") auto

declare skip_name.simps [simp del]

section \<open>The writer\<close>

definition enc_label :: "rstr \<Rightarrow> bytes" where
  "enc_label l = of_nat (length l) # l"

text \<open>\<open>txid\<close> is the random transaction ID the code draws.\<close>

definition build_lookup_query :: "u16 \<Rightarrow> rstr \<Rightarrow> bytes" where
  "build_lookup_query txid domain =
     to_be16 txid @ [0x01, 0x00] @ [0x00, 0x01] @ [0x00, 0x00] @ [0x00, 0x00] @ [0x00, 0x00]
     @ concat (map enc_label (split_on dot (trim_end_dots domain)))
     @ [0x00] @ [0x00, 0x01] @ [0x00, 0x01]"

definition matches_domain_pattern :: "(rstr \<Rightarrow> rstr) \<Rightarrow> rstr \<Rightarrow> rstr \<Rightarrow> bool" where
  "matches_domain_pattern uni domain pattern =
     (let d = to_lowercase uni (trim_end_dots domain);
          q = to_lowercase uni (trim_end_dots pattern)
      in if d = q then True
         else case strip_prefix (lit ''*.'') q of
                Some suffix \<Rightarrow> d = suffix \<or> ends_with d (lit ''.'' @ suffix)
              | None \<Rightarrow> False)"

section \<open>Label bytes\<close>

lemma and_C0: "b AND 0xC0 = push_bit 6 (drop_bit 6 b)" for b :: u8
proof -
  have mask: "(0xC0 :: u8) = NOT (mask 6)" by (simp add: mask_eq_exp_minus_1)
  show ?thesis unfolding mask by (rule bit_word_eqI) (auto simp: bit_simps)
qed

lemma top_bits_nat: "n < 256 \<Longrightarrow> n div 64 * 64 = 192 \<longleftrightarrow> 192 \<le> n" for n :: nat
  by simp arith

lemma is_ptr_iff: "is_ptr b \<longleftrightarrow> 192 \<le> b"
proof -
  have lt: "unat b < 256" by simp
  then have "unat b div 64 * 64 < 256" by arith
  then have "unat (b AND 0xC0) = unat b div 64 * 64"
    unfolding and_C0
    by (simp add: unat_drop_bit_eq drop_bit_eq_div push_bit_eq_mult unat_word_ariths)
  then have "is_ptr b \<longleftrightarrow> unat b div 64 * 64 = 192"
    by (simp add: is_ptr_def word_unat_eq_iff)
  also have "\<dots> \<longleftrightarrow> 192 \<le> unat b" using lt by (rule top_bits_nat)
  finally show ?thesis by (simp add: word_le_nat_alt)
qed

lemma not_is_ptr_len: "n < 192 \<Longrightarrow> \<not> is_ptr (of_nat n)"
  by (simp add: is_ptr_iff word_le_nat_alt)

lemma len_neq_0: "0 < n \<Longrightarrow> n < 256 \<Longrightarrow> (of_nat n :: u8) \<noteq> 0"
  by (metis unat_of_nat_u8 unat_0 less_numeral_extra(3))

section \<open>Where the parser goes\<close>

text \<open>The offset the next iteration or the recursive call starts from; \<open>None\<close> where the call
  at \<open>off\<close> returns at once.\<close>

definition name_next :: "bytes \<Rightarrow> nat \<Rightarrow> nat option" where
  "name_next p off =
     (if length p \<le> off then None
      else if is_ptr (p ! off) then
        (if length p \<le> off + 1 then None else Some (ptr_target (p ! off) (p ! (off + 1))))
      else if p ! off = 0 \<or> length p < off + 1 + unat (p ! off) then None
      else if utf8_valid (take (unat (p ! off)) (drop (off + 1) p))
        then Some (off + 1 + unat (p ! off)) else None)"

fun name_walk :: "bytes \<Rightarrow> nat \<Rightarrow> nat \<Rightarrow> nat option" where
  "name_walk p 0 off = Some off"
| "name_walk p (Suc k) off =
     (case name_next p off of None \<Rightarrow> None | Some off' \<Rightarrow> name_walk p k off')"

lemma name_next_in: "name_next p off = Some off' \<Longrightarrow> off < length p"
  by (auto simp: name_next_def split: if_splits)

lemma parse_name_stop:
  "name_next p off = None \<Longrightarrow> \<exists>r. parse_name uni p off name = Some r"
  by (subst parse_name.simps)
     (auto simp: name_next_def run_simps split: if_splits)

lemma parse_name_step:
  assumes "name_next p off = Some off'"
  shows "\<exists>name' f. parse_name uni p off name =
           Option.bind (parse_name uni p off' name') (\<lambda>r. Some (f r))"
proof -
  from assms have off: "off < length p" by (rule name_next_in)
  show ?thesis
  proof (cases "is_ptr (p ! off)")
    case True
    with assms off have "parse_name uni p off name =
      Option.bind (parse_name uni p off' []) (\<lambda>r. Some
        (Some (case r of Some (s, _) \<Rightarrow> name @ s | None \<Rightarrow> name, off + 2)))"
      by (subst parse_name.simps) (auto simp: name_next_def run_simps split: if_splits)
    then show ?thesis by - (intro exI, assumption)
  next
    case False
    with assms off have "parse_name uni p off name =
      parse_name uni p off' (push_label uni name (take (unat (p ! off)) (drop (off + 1) p)))"
      by (subst parse_name.simps) (auto simp: name_next_def run_simps split: if_splits)
    also have "\<dots> = Option.bind (parse_name uni p off'
      (push_label uni name (take (unat (p ! off)) (drop (off + 1) p)))) (\<lambda>r. Some (id r))"
      by simp
    finally show ?thesis by - (intro exI, assumption)
  qed
qed

lemma walk_stops_parse_returns:
  "name_walk p k off = None \<Longrightarrow> \<exists>r. parse_name uni p off name = Some r"
proof (induction k arbitrary: off name)
  case (Suc k)
  show ?case
  proof (cases "name_next p off")
    case None
    then show ?thesis by (rule parse_name_stop)
  next
    case (Some off')
    with Suc.prems have "name_walk p k off' = None" by simp
    with Suc.IH have "\<And>name. \<exists>r. parse_name uni p off' name = Some r" by blast
    with parse_name_step [OF Some, of uni name] show ?thesis
      by (metis bind.bind_lunit)
  qed
qed simp

lemma parse_returns_walk_stops:
  assumes "parse_name uni p off name = Some r"
  shows "\<exists>k. name_walk p k off = None"
proof (rule parse_name.raw_induct [where P = "\<lambda>uni p off name r. \<exists>k. name_walk p k off = None",
      OF _ assms])
  fix f :: "(rstr \<Rightarrow> rstr) \<Rightarrow> bytes \<Rightarrow> nat \<Rightarrow> rstr \<Rightarrow> (rstr \<times> nat) option run"
    and uni p off name r
  assume IH: "\<And>uni p off name r. f uni p off name = Some r \<Longrightarrow> \<exists>k. name_walk p k off = None"
    and eq: "(if length p \<le> off then Some None
      else do {
        b \<leftarrow> rd p off;
        if is_ptr b then
          if length p \<le> off + 1 then Some None
          else do {
            b' \<leftarrow> rd p (off + 1);
            sub \<leftarrow> f uni p (ptr_target b b') [];
            Some (Some (case sub of Some (s, _) \<Rightarrow> name @ s | None \<Rightarrow> name, off + 2)) }
        else if b = 0 then Some (Some (name, off + 1))
        else if length p < off + 1 + unat b then Some None
        else do {
          l \<leftarrow> sub_slice p (off + 1) (off + 1 + unat b);
          if utf8_valid l then f uni p (off + 1 + unat b) (push_label uni name l)
          else Some None } }) = Some r"
  show "\<exists>k. name_walk p k off = None"
  proof (cases "name_next p off")
    case None
    then have "name_walk p (Suc 0) off = None" by simp
    then show ?thesis by blast
  next
    case (Some off')
    then have "off < length p" by (rule name_next_in)
    with Some eq have "\<exists>name' r'. f uni p off' name' = Some r'"
      by (auto simp: name_next_def run_simps bind_eq_Some_conv split: if_splits)
    with IH obtain k where "name_walk p k off' = None" by blast
    with Some have "name_walk p (Suc k) off = None" by simp
    then show ?thesis by blast
  qed
qed

text \<open>A walk that is still going after \<open>length p\<close> steps has come back to an offset it had
  already visited, so it never ends: the bound is a decision procedure.\<close>

lemma name_walk_add:
  "name_walk p (m + n) off = Option.bind (name_walk p m off) (name_walk p n)"
  by (induction m arbitrary: off) (auto split: option.splits)

lemma name_walk_Suc: "name_walk p (Suc k) off = Option.bind (name_walk p k off) (name_next p)"
proof -
  have "name_walk p (Suc 0) = name_next p"
    by (rule ext) (simp split: option.splits)
  with name_walk_add [of p k "Suc 0" off] show ?thesis by simp
qed

lemma name_walk_None_mono: "name_walk p k off = None \<Longrightarrow> k \<le> n \<Longrightarrow> name_walk p n off = None"
  using name_walk_add [of p k "n - k" off] by simp

lemma name_walk_cycle:
  assumes "name_walk p i off = Some x" "name_walk p j off = Some x" "i < j"
  shows "name_walk p n off \<noteq> None"
proof (induction n rule: less_induct)
  case (less n)
  show ?case
  proof (cases "j \<le> n")
    case True
    have "name_walk p n off = Option.bind (name_walk p j off) (name_walk p (n - j))"
      using True name_walk_add [of p j "n - j" off] by simp
    also have "\<dots> = Option.bind (name_walk p i off) (name_walk p (n - j))"
      using assms by simp
    also have "\<dots> = name_walk p (i + (n - j)) off"
      by (simp add: name_walk_add)
    finally show ?thesis using less.IH [of "i + (n - j)"] True assms(3) by simp
  next
    case False
    with assms(2) name_walk_None_mono [of p n off j] show ?thesis by auto
  qed
qed

lemma name_walk_long_cycle:
  assumes "name_walk p (Suc (length p)) off \<noteq> None"
  shows "name_walk p n off \<noteq> None"
proof -
  have visited: "\<exists>x. name_walk p i off = Some x \<and> x < length p" if "i \<le> length p" for i
  proof -
    from assms that have "name_walk p (Suc i) off \<noteq> None"
      using name_walk_None_mono [of p "Suc i" off "Suc (length p)"] by (metis Suc_le_mono)
    then have "Option.bind (name_walk p i off) (name_next p) \<noteq> None"
      unfolding name_walk_Suc by assumption
    then obtain x y where "name_walk p i off = Some x" "name_next p x = Some y"
      by (auto simp: bind_eq_None_conv)
    then show ?thesis using name_next_in by blast
  qed
  let ?at = "\<lambda>i. the (name_walk p i off)"
  have "?at ` {..length p} \<subseteq> {..<length p}"
    using visited by fastforce
  then have "card (?at ` {..length p}) \<le> length p"
    using card_mono [of "{..<length p}"] by fastforce
  then have "\<not> inj_on ?at {..length p}"
    using card_image by fastforce
  then obtain i j where "i \<le> length p" "j \<le> length p" "i < j" "?at i = ?at j"
    by (auto simp: inj_on_def) (metis linorder_neqE_nat)
  then show ?thesis
    using visited [of i] visited [of j] name_walk_cycle [of p i off _ j n] by auto
qed

lemma parse_name_returns_iff:
  "(\<exists>r. parse_name uni p off name = Some r) \<longleftrightarrow> name_walk p (Suc (length p)) off = None"
  using parse_returns_walk_stops walk_stops_parse_returns name_walk_long_cycle by metis

section \<open>Skipping a name\<close>

lemma skip_name_eqs:
  "length b \<le> pos \<Longrightarrow> skip_name b pos = Some None"
  "pos < length b \<Longrightarrow> b ! pos = 0 \<Longrightarrow> skip_name b pos = Some (Some (pos + 1))"
  "pos < length b \<Longrightarrow> b ! pos \<noteq> 0 \<Longrightarrow> is_ptr (b ! pos) \<Longrightarrow> skip_name b pos = Some (Some (pos + 2))"
  "pos < length b \<Longrightarrow> b ! pos \<noteq> 0 \<Longrightarrow> \<not> is_ptr (b ! pos) \<Longrightarrow>
     skip_name b pos = skip_name b (pos + 1 + unat (b ! pos))"
  by (subst skip_name.simps, simp add: run_simps)+

lemma skip_induct [case_names out zero ptr label]:
  assumes "\<And>pos. length b \<le> pos \<Longrightarrow> P pos"
    and "\<And>pos. pos < length b \<Longrightarrow> b ! pos = 0 \<Longrightarrow> P pos"
    and "\<And>pos. pos < length b \<Longrightarrow> b ! pos \<noteq> 0 \<Longrightarrow> is_ptr (b ! pos) \<Longrightarrow> P pos"
    and "\<And>pos. pos < length b \<Longrightarrow> b ! pos \<noteq> 0 \<Longrightarrow> \<not> is_ptr (b ! pos) \<Longrightarrow>
           P (pos + 1 + unat (b ! pos)) \<Longrightarrow> P pos"
  shows "P (pos :: nat)"
proof (induction "length b - pos" arbitrary: pos rule: less_induct)
  case less
  show ?case
  proof (cases "length b \<le> pos")
    case True
    then show ?thesis by (rule assms(1))
  next
    case False
    then have "P (pos + 1 + unat (b ! pos))" by (intro less) simp
    with False assms(2-4) show ?thesis by (metis linorder_not_le)
  qed
qed

lemma skip_name_returns: "\<exists>r. skip_name b pos = Some r"
  by (induction pos rule: skip_induct [of b]) (simp_all add: skip_name_eqs)

lemma skip_name_bounds:
  "skip_name b pos = Some (Some e) \<Longrightarrow> pos < e \<and> pos < length b \<and> e \<le> length b + 1"
proof (induction pos rule: skip_induct [of b])
  case (label pos)
  then have "skip_name b (pos + 1 + unat (b ! pos)) = Some (Some e)"
    by (metis skip_name_eqs(4))
  with label.IH label.hyps show ?case by linarith
qed (simp_all add: skip_name_eqs)

text \<open>The result depends only on the bytes of the name itself.\<close>

lemma skip_name_local:
  assumes "skip_name b pos = Some (Some e)" "e \<le> n" "n \<le> length b" "n \<le> length b'"
    "\<And>i. pos \<le> i \<Longrightarrow> i < n \<Longrightarrow> b' ! i = b ! i"
  shows "skip_name b' pos = Some (Some e)"
  using assms
proof (induction pos rule: skip_induct [of b])
  case (label pos)
  then have "pos < e" "pos < n"
    using skip_name_bounds [of b pos e] by auto
  with label.prems(5) have "b' ! pos = b ! pos" by simp
  with label \<open>pos < n\<close> show ?case by (simp add: skip_name_eqs)
next
  case (zero pos)
  then have "pos < n" by (simp add: skip_name_eqs)
  with zero show ?case by (simp add: skip_name_eqs)
next
  case (ptr pos)
  then have "pos < n" by (simp add: skip_name_eqs)
  with ptr show ?case by (simp add: skip_name_eqs)
qed (simp add: skip_name_eqs)

lemma parse_name_skip_name:
  assumes "parse_name uni p off name = Some r"
  shows "\<forall>s e. r = Some (s, e) \<longrightarrow> skip_name p off = Some (Some e)"
proof (rule parse_name.raw_induct
    [where P = "\<lambda>uni p off name r. \<forall>s e. r = Some (s, e) \<longrightarrow> skip_name p off = Some (Some e)",
      OF _ assms], goal_cases)
  case (1 f uni p off name r)
  show ?case
  proof (cases "off < length p")
    case True
    note IH = 1(1) and eq = 1(2)
    show ?thesis
    proof (intro allI impI)
      fix s e
      assume r: "r = Some (s, e)"
      consider "is_ptr (p ! off)" | "p ! off = 0" | "\<not> is_ptr (p ! off)" "p ! off \<noteq> 0" by blast
      then show "skip_name p off = Some (Some e)"
      proof cases
        case 1
        then have "p ! off \<noteq> 0" by (auto simp: is_ptr_def)
        with 1 eq r True show ?thesis
          by (auto simp: skip_name_eqs run_simps bind_eq_Some_conv split: if_splits)
      next
        case 2
        with eq r True show ?thesis
          by (auto simp: skip_name_eqs run_simps is_ptr_def split: if_splits)
      next
        case 3
        with eq r True obtain l
          where "f uni p (off + 1 + unat (p ! off)) (push_label uni name l) = Some (Some (s, e))"
          by (auto simp: run_simps bind_eq_Some_conv split: if_splits)
        with IH 3 True show ?thesis by (auto simp: skip_name_eqs)
      qed
    qed
  next
    case False
    with 1(2) show ?thesis by simp
  qed
qed

section \<open>Parsing what the writer wrote\<close>

definition enc_name :: "rstr list \<Rightarrow> bytes" where
  "enc_name ls = concat (map enc_label ls)"

text \<open>A label the parser reads as a label: not empty, not so long that its length byte looks
  like a pointer, and UTF-8.\<close>

definition good_label :: "rstr \<Rightarrow> bool" where
  "good_label l \<longleftrightarrow> l \<noteq> [] \<and> length l < 192 \<and> utf8_valid l"

definition name_text :: "(rstr \<Rightarrow> rstr) \<Rightarrow> rstr \<Rightarrow> rstr list \<Rightarrow> rstr" where
  "name_text uni name ls = foldl (push_label uni) name ls"

lemma enc_name_simps [simp]:
  "enc_name [] = []" "enc_name (l # ls) = of_nat (length l) # l @ enc_name ls"
  by (simp_all add: enc_name_def enc_label_def)

lemma drop_plus: "drop (m + n) xs = drop n (drop m xs)"
  by (simp add: add.commute)

lemma drop_Suc_tail: "drop n xs = y # ys \<Longrightarrow> drop (Suc n) xs = ys"
  by (metis drop_Suc list.sel(3) tl_drop)

lemma parse_name_label:
  assumes "good_label l" "drop off p = of_nat (length l) # l @ rest"
  shows "parse_name uni p off name = parse_name uni p (off + 1 + length l) (push_label uni name l)"
proof -
  have len: "unat (of_nat (length l) :: u8) = length l" "\<not> is_ptr (of_nat (length l))"
    "(of_nat (length l) :: u8) \<noteq> 0"
    using assms(1) by (simp_all add: good_label_def not_is_ptr_len len_neq_0)
  have off: "off < length p" "p ! off = of_nat (length l)"
    using assms(2) by (metis drop_eq_Nil2 linorder_not_le list.distinct(1))
      (metis assms(2) drop_eq_Nil2 linorder_not_le list.distinct(1) nth_via_drop)
  have tail: "drop (off + 1) p = l @ rest"
    using assms(2) by (simp add: drop_Suc_tail)
  then have "length p - (off + 1) = length l + length rest" by (metis length_append length_drop)
  with off have "off + 1 + length l \<le> length p" by linarith
  with off tail len assms(1) show ?thesis
    by (subst parse_name.simps) (simp add: run_simps good_label_def)
qed

lemma parse_name_labels:
  assumes "list_all good_label ls" "drop off p = enc_name ls @ rest"
  shows "parse_name uni p off name =
    parse_name uni p (off + length (enc_name ls)) (name_text uni name ls)"
  using assms
proof (induction ls arbitrary: off name)
  case (Cons l ls)
  have "drop (off + 1 + length l) p = enc_name ls @ rest"
  proof -
    have "drop (off + 1 + length l) p = drop (1 + length l) (drop off p)"
      by (simp add: add.commute)
    with Cons.prems(2) show ?thesis by simp
  qed
  with Cons parse_name_label [of l off p "enc_name ls @ rest" uni name] show ?case
    by (simp add: name_text_def add.assoc)
qed (simp add: name_text_def)

lemma parse_name_end:
  "drop off p = 0 # rest \<Longrightarrow> parse_name uni p off name = Some (Some (name, off + 1))"
proof -
  assume "drop off p = 0 # rest"
  then have "off < length p" "p ! off = 0"
    by (metis drop_eq_Nil2 linorder_not_le list.distinct(1), metis nth_via_drop)
  then show ?thesis by (subst parse_name.simps) (simp add: run_simps is_ptr_def)
qed

lemma parse_name_ptr:
  assumes "drop off p = a # b # rest" "is_ptr a"
  shows "parse_name uni p off name = (case parse_name uni p (ptr_target a b) [] of
      None \<Rightarrow> None
    | Some None \<Rightarrow> Some (Some (name, off + 2))
    | Some (Some (s, _)) \<Rightarrow> Some (Some (name @ s, off + 2)))"
proof -
  have "off < length p" "p ! off = a"
    using assms(1) by (metis drop_eq_Nil2 linorder_not_le list.distinct(1), metis assms(1) nth_via_drop)
  moreover have "drop (Suc off) p = b # rest" using assms(1) by (rule drop_Suc_tail)
  then have "off + 1 < length p" "p ! (off + 1) = b"
    by (metis Suc_eq_plus1 drop_eq_Nil2 linorder_not_le list.distinct(1), metis Suc_eq_plus1 nth_via_drop)
  ultimately show ?thesis using assms(2)
    by (subst parse_name.simps) (simp add: run_simps split: option.splits prod.splits)
qed

text \<open>The text of ASCII labels is their lower-case form, joined by dots.\<close>

lemma push_label_ascii:
  "is_ascii l \<Longrightarrow> push_label uni name l = (if name = [] then [] else name @ [dot]) @ map ascii_lower l"
  by (simp add: push_label_def to_lowercase_ascii)

lemma name_text_ascii_acc:
  assumes "name \<noteq> []" "list_all is_ascii ls"
  shows "name_text uni name ls = name @ concat (map (\<lambda>l. dot # map ascii_lower l) ls)"
  using assms
  by (induction ls arbitrary: name) (auto simp: name_text_def push_label_ascii)

lemma join_with_Cons: "join_with c (x # xs) = x @ concat (map (\<lambda>l. c # l) xs)"
  by (induction c "x # xs" arbitrary: x xs rule: join_with.induct) auto

lemma name_text_ascii:
  assumes "list_all is_ascii ls" "[] \<notin> set ls"
  shows "name_text uni [] ls = join_with dot (map (map ascii_lower) ls)"
proof (cases ls)
  case (Cons l ls')
  with assms have "name_text uni [] ls = name_text uni (map ascii_lower l) ls'"
    by (simp add: name_text_def push_label_ascii)
  moreover have "map ascii_lower l \<noteq> []" using Cons assms(2) by auto
  ultimately show ?thesis using Cons assms(1)
    by (simp add: name_text_ascii_acc join_with_Cons comp_def)
qed (simp add: name_text_def)

lemma map_lower_join:
  "map ascii_lower (join_with dot ls) = join_with dot (map (map ascii_lower) ls)"
  by (induction dot ls rule: join_with.induct) (auto simp: ascii_lower_def)

lemma length_enc_name: "ls \<noteq> [] \<Longrightarrow> length (enc_name ls) = length (join_with dot ls) + 1"
  by (induction dot ls rule: join_with.induct) auto

text \<open>A host name as a caller writes it: ASCII, every label 1 to 191 bytes long.\<close>

definition host_name :: "rstr \<Rightarrow> bool" where
  "host_name d \<longleftrightarrow> is_ascii d \<and> list_all (\<lambda>l. l \<noteq> [] \<and> length l < 192) (split_on dot (trim_end_dots d))"

lemma host_name_labels:
  assumes "host_name d"
  shows "list_all good_label (split_on dot (trim_end_dots d))"
    "list_all is_ascii (split_on dot (trim_end_dots d))" "[] \<notin> set (split_on dot (trim_end_dots d))"
proof -
  have parts: "l \<noteq> [] \<and> length l < 192" if "l \<in> set (split_on dot (trim_end_dots d))" for l
    using assms that unfolding host_name_def list_all_iff by blast
  show ascii: "list_all is_ascii (split_on dot (trim_end_dots d))"
    using assms unfolding host_name_def by (simp add: is_ascii_trim is_ascii_split)
  then show "list_all good_label (split_on dot (trim_end_dots d))"
    using parts utf8_ascii unfolding good_label_def list_all_iff by blast
  show "[] \<notin> set (split_on dot (trim_end_dots d))"
    using parts by blast
qed

lemma parse_build_lookup_query:
  assumes "host_name d"
  shows "parse_domain uni (build_lookup_query txid d) 12 =
    Some (Some (map ascii_lower (trim_end_dots d), 12 + length (trim_end_dots d) + 2))"
proof -
  let ?ls = "split_on dot (trim_end_dots d)" and ?p = "build_lookup_query txid d"
  have p: "drop 12 ?p = enc_name ?ls @ 0 # [0, 1, 0, 1]"
    by (simp add: build_lookup_query_def to_be16_def enc_name_def)
  have "parse_domain uni ?p 12 = parse_name uni ?p (12 + length (enc_name ?ls)) (name_text uni [] ?ls)"
    unfolding parse_domain_def using host_name_labels(1) [OF assms] p by (rule parse_name_labels)
  also have "drop (12 + length (enc_name ?ls)) ?p = 0 # [0, 1, 0, 1]"
    using p drop_drop [of "length (enc_name ?ls)" 12 ?p, symmetric] by (simp add: add.commute)
  then have "parse_name uni ?p (12 + length (enc_name ?ls)) (name_text uni [] ?ls) =
      Some (Some (name_text uni [] ?ls, 12 + length (enc_name ?ls) + 1))"
    by (rule parse_name_end)
  finally show ?thesis
    using host_name_labels(2,3) [OF assms]
    by (simp add: name_text_ascii map_lower_join [symmetric] length_enc_name)
qed

section \<open>Properties\<close>

text \<open>C8: Parsing a name returns exactly when the sequence of offsets it visits (labels and pointer
  targets) ends within one step per byte of the message; then no index is out of range. When it
  does not end, the parser never returns: its recursion on pointers has no bound.\<close>

theorem parse_domain_returns_iff:
  "(\<exists>r. parse_domain uni p off = Some r) \<longleftrightarrow> name_walk p (Suc (length p)) off = None"
  unfolding parse_domain_def by (rule parse_name_returns_iff)

text \<open>A compression pointer that points at itself is never refused: the parser recurses for
  ever on it, so one short datagram ends the process.\<close>

theorem pointer_loop_never_returns:
  assumes "off + 1 < length p" "is_ptr (p ! off)" "ptr_target (p ! off) (p ! (off + 1)) = off"
  shows "parse_domain uni p off = None"
proof -
  have "name_next p off = Some off" using assms by (simp add: name_next_def)
  then have "name_walk p k off = Some off" for k by (induction k) auto
  then have "name_walk p (Suc (length p)) off \<noteq> None" by (simp only: option.distinct not_False_eq_True)
  then have "\<not> (\<exists>r. parse_domain uni p off = Some r)"
    unfolding parse_domain_def parse_name_returns_iff .
  then show ?thesis by (cases "parse_domain uni p off") auto
qed

theorem pointer_loop_never_returns_witness:
  "parse_domain (\<lambda>s. s) [0, 1, 1, 0, 0, 1, 0, 0, 0, 0, 0, 0, 0xC0, 12] 12 = None"
proof (rule pointer_loop_never_returns)
  let ?p = "[0, 1, 1, 0, 0, 1, 0, 0, 0, 0, 0, 0, 0xC0, 12] :: bytes"
  show "12 + 1 < length ?p" by simp
  show "is_ptr (?p ! 12)" by code_simp
  show "ptr_target (?p ! 12) (?p ! (12 + 1)) = 12" by code_simp
qed

text \<open>C22: A question built for a host name is parsed back to that name in lower case, without its
  final dots, and the parser stops right before the question type.\<close>

theorem lookup_query_roundtrip:
  assumes "host_name d"
  shows "parse_domain uni (build_lookup_query txid d) 12 =
      Some (Some (map ascii_lower (trim_end_dots d), length (build_lookup_query txid d) - 4))"
proof -
  have "length (enc_name (split_on dot (trim_end_dots d))) = length (trim_end_dots d) + 1"
    by (simp add: length_enc_name)
  then have "length (build_lookup_query txid d) - 4 = 12 + length (trim_end_dots d) + 2"
    by (simp add: build_lookup_query_def enc_name_def)
  then show ?thesis using parse_build_lookup_query [OF assms, of uni txid] by simp
qed

theorem lookup_query_roundtrip_witness:
  "parse_domain (\<lambda>s. s) (build_lookup_query 1 (lit ''WWW.Example.com.'')) 12 =
     Some (Some (lit ''www.example.com'', 29))"
proof -
  have "host_name (lit ''WWW.Example.com.'')" by code_simp
  note lookup_query_roundtrip [OF this, of "\<lambda>s. s" 1]
  moreover have "map ascii_lower (trim_end_dots (lit ''WWW.Example.com.'')) = lit ''www.example.com''"
    by code_simp
  moreover have "length (build_lookup_query 1 (lit ''WWW.Example.com.'')) - 4 = 29" by code_simp
  ultimately show ?thesis by simp
qed

text \<open>Whenever the name parser accepts a name, the skipper that the reply readers use steps
  over it to the same offset.\<close>

theorem parse_domain_end_is_skip_name:
  assumes "parse_domain uni p off = Some (Some (s, e))"
  shows "skip_name p off = Some (Some e) \<and> off < e \<and> e \<le> length p + 1"
proof -
  have "skip_name p off = Some (Some e)"
    using parse_name_skip_name assms unfolding parse_domain_def by blast
  then show ?thesis using skip_name_bounds by blast
qed

theorem parse_domain_end_is_skip_name_witness:
  "skip_name [1, 97, 0] 0 = Some (Some 3)"
proof -
  have "parse_domain (\<lambda>s. s) [1, 97, 0] 0 = Some (Some ([97], 3))" by code_simp
  from parse_domain_end_is_skip_name [OF this] show ?thesis by simp
qed

text \<open>A label followed by a compression pointer is read without the dot between them: a
  question for \<open>www\<close> and a pointer to \<open>example.com\<close> is seen as \<open>wwwexample.com\<close>, which no rule
  for \<open>example.com\<close> covers.\<close>

theorem pointer_after_label_loses_dot:
  assumes "good_label l" "is_ascii l" "drop off p = of_nat (length l) # l @ a # b # rest" "is_ptr a"
    and "parse_domain uni p (ptr_target a b) = Some (Some (s, e))"
  shows "parse_domain uni p off = Some (Some (map ascii_lower l @ s, off + length l + 3))"
proof -
  have "drop (off + 1 + length l) p = a # b # rest"
    unfolding drop_plus [of "off + 1"] drop_plus [of off 1] assms(3) by simp
  then show ?thesis
    using parse_name_label [OF assms(1), of off p "a # b # rest" uni "[]"] assms
      parse_name_ptr [of "off + 1 + length l" p a b rest uni "map ascii_lower l"]
    by (simp add: parse_domain_def push_label_ascii)
qed

theorem pointer_after_label_loses_dot_witness:
  "parse_domain (\<lambda>s. s) (7 # lit ''example'' @ 3 # lit ''com'' @ [0] @ 3 # lit ''www'' @ [0xC0, 0]) 13 =
     Some (Some (lit ''wwwexample.com'', 19))"
proof -
  let ?p = "7 # lit ''example'' @ 3 # lit ''com'' @ [0] @ 3 # lit ''www'' @ [0xC0, 0]"
  have "good_label (lit ''www'')" "is_ascii (lit ''www'')" "is_ptr 0xC0" by code_simp+
  moreover have "drop 13 ?p = of_nat (length (lit ''www'')) # lit ''www'' @ 0xC0 # 0 # []" by code_simp
  moreover have "parse_domain (\<lambda>s. s) ?p (ptr_target 0xC0 0) = Some (Some (lit ''example.com'', 13))"
    by code_simp
  moreover have "map ascii_lower (lit ''www'') @ lit ''example.com'' = lit ''wwwexample.com''"
    "(13 :: nat) + length (lit ''www'') + 3 = 19" by code_simp+
  ultimately show ?thesis
    using pointer_after_label_loses_dot
      [where l = "lit ''www''" and off = 13 and p = ?p and a = "0xC0" and b = 0 and rest = "[]"
        and uni = "\<lambda>s. s" and s = "lit ''example.com''" and e = 13]
    by simp
qed

end
