(* ===== verification/Domain_Trie.thy ===== *)
theory Domain_Trie
  imports Dns_Name "HOL-Library.Sublist"
begin

text \<open>
  The rule table (\<open>shared/src/domain_trie.rs\<close>) and the redirect entries of the configuration
  (\<open>deserialize_redirect_list\<close> in \<open>shared/src/lib.rs\<close>). The trie refines an ordered list of rules:
  the most general rule that covers a name decides, and of two rules for one name the later one.

  A \<open>HashMap\<close> of children is a map; \<open>std::fs::read_to_string\<close> is the parameter \<open>fs\<close>, from a path to
  the content of the file, \<open>None\<close> when it cannot be read. Log lines are left out.
\<close>

section \<open>The trie\<close>

datatype trie_policy = PNone | PDrop | PRedirect "rstr list"

datatype domain_trie = Node (children: "rstr \<Rightarrow> domain_trie option") (node_policy: trie_policy)

definition empty_trie :: domain_trie where
  "empty_trie = Node (\<lambda>_. None) PNone"

text \<open>The loop of \<open>insert_with_policy\<close>: \<open>children.entry(label).or_default()\<close> on the way down, then
  the policy of the node reached.\<close>

fun insert_path :: "rstr list \<Rightarrow> trie_policy \<Rightarrow> domain_trie \<Rightarrow> domain_trie" where
  "insert_path [] p (Node c q) = Node c p"
| "insert_path (l # ls) p (Node c q) =
     Node (c(l \<mapsto> insert_path ls p (case c l of None \<Rightarrow> empty_trie | Some t \<Rightarrow> t))) q"

text \<open>The labels of a pattern, top-level domain first.\<close>

definition rule_key :: "(rstr \<Rightarrow> rstr) \<Rightarrow> rstr \<Rightarrow> rstr list" where
  "rule_key uni pattern =
     (let pattern = to_lowercase uni (trim_end_dots pattern);
          pattern = (case strip_prefix (lit ''*.'') pattern of Some s \<Rightarrow> s | None \<Rightarrow> pattern)
      in rsplit_on dot pattern)"

definition insert_with_policy ::
  "(rstr \<Rightarrow> rstr) \<Rightarrow> rstr \<Rightarrow> trie_policy \<Rightarrow> domain_trie \<Rightarrow> domain_trie" where
  "insert_with_policy uni pattern p t = insert_path (rule_key uni pattern) p t"

definition insert_drop :: "(rstr \<Rightarrow> rstr) \<Rightarrow> rstr \<Rightarrow> domain_trie \<Rightarrow> domain_trie" where
  "insert_drop uni pattern t = insert_with_policy uni pattern PDrop t"

definition redirect_ips :: "rstr \<Rightarrow> rstr list" where
  "redirect_ips ip_with_port = map (\<lambda>entry. hd (split_on colon entry)) (split_on comma ip_with_port)"

definition insert_redirect :: "(rstr \<Rightarrow> rstr) \<Rightarrow> rstr \<Rightarrow> rstr \<Rightarrow> domain_trie \<Rightarrow> domain_trie" where
  "insert_redirect uni pattern ip_with_port t =
     insert_with_policy uni pattern (PRedirect (redirect_ips ip_with_port)) t"

text \<open>The loop of \<open>lookup\<close>.\<close>

fun lookup_path :: "domain_trie \<Rightarrow> rstr list \<Rightarrow> trie_policy" where
  "lookup_path t [] = PNone"
| "lookup_path t (l # ls) =
     (case children t l of
        None \<Rightarrow> PNone
      | Some next \<Rightarrow> if node_policy next \<noteq> PNone then node_policy next else lookup_path next ls)"

definition lookup :: "(rstr \<Rightarrow> rstr) \<Rightarrow> domain_trie \<Rightarrow> rstr \<Rightarrow> trie_policy" where
  "lookup uni t domain = lookup_path t (rsplit_on dot (to_lowercase uni (trim_end_dots domain)))"

datatype rule_match = RuleDrop | RuleRedirect "rstr list" | RuleNone

definition check_rules :: "(rstr \<Rightarrow> rstr) \<Rightarrow> rstr \<Rightarrow> domain_trie \<Rightarrow> rule_match" where
  "check_rules uni domain t =
     (case lookup uni t domain of
        PDrop \<Rightarrow> RuleDrop | PRedirect ips \<Rightarrow> RuleRedirect ips | PNone \<Rightarrow> RuleNone)"

section \<open>Building it from the configuration\<close>

definition is_file_reference :: "rstr \<Rightarrow> bool" where
  "is_file_reference pattern \<longleftrightarrow> starts_with pattern (lit ''/'') \<or> starts_with pattern (lit ''./'')
     \<or> starts_with pattern (lit ''../'')"

definition skipped_entry :: "rstr \<Rightarrow> bool" where
  "skipped_entry line \<longleftrightarrow> line = [] \<or> starts_with line (lit ''#'')"

definition read_list_file :: "(rstr \<Rightarrow> rstr option) \<Rightarrow> rstr \<Rightarrow> rstr list" where
  "read_list_file fs path =
     (case fs path of
        None \<Rightarrow> []
      | Some content \<Rightarrow>
          List.map_filter (\<lambda>raw_line.
            let line = trim raw_line in
            if skipped_entry line then None
            else (case split_whitespace line of [] \<Rightarrow> None | w # _ \<Rightarrow> Some w)) (str_lines content))"

definition build_drop_entry ::
  "(rstr \<Rightarrow> rstr) \<Rightarrow> (rstr \<Rightarrow> rstr option) \<Rightarrow> rstr \<Rightarrow> domain_trie \<Rightarrow> domain_trie" where
  "build_drop_entry uni fs entry t =
     (let pattern = trim entry in
      if skipped_entry pattern then t
      else if is_file_reference pattern then fold (insert_drop uni) (read_list_file fs pattern) t
      else insert_drop uni pattern t)"

definition build_redirect_line :: "(rstr \<Rightarrow> rstr) \<Rightarrow> rstr \<Rightarrow> domain_trie \<Rightarrow> domain_trie" where
  "build_redirect_line uni line t =
     (case split_once colon line of
        Some (from, to) \<Rightarrow>
          if trim from \<noteq> [] \<and> trim to \<noteq> [] then insert_redirect uni (trim from) (trim to) t else t
      | None \<Rightarrow> t)"

definition build_redirect_entry ::
  "(rstr \<Rightarrow> rstr) \<Rightarrow> (rstr \<Rightarrow> rstr option) \<Rightarrow> rstr \<times> rstr \<Rightarrow> domain_trie \<Rightarrow> domain_trie" where
  "build_redirect_entry uni fs entry t =
     (case entry of (pattern, target) \<Rightarrow>
      let pattern = trim pattern in
      if skipped_entry pattern then t
      else if is_file_reference pattern
        then fold (build_redirect_line uni) (read_list_file fs pattern) t
      else insert_redirect uni pattern target t)"

definition build ::
  "(rstr \<Rightarrow> rstr) \<Rightarrow> (rstr \<Rightarrow> rstr option) \<Rightarrow> rstr list \<Rightarrow> (rstr \<times> rstr) list \<Rightarrow> domain_trie" where
  "build uni fs drop_list redirect_list =
     fold (build_redirect_entry uni fs) redirect_list
       (fold (build_drop_entry uni fs) drop_list empty_trie)"

text \<open>The custom error of the deserializer names the entry.\<close>

datatype redirect_error = InvalidRedirectEntry rstr

fun deserialize_redirect_list :: "rstr list \<Rightarrow> redirect_error + (rstr \<times> rstr) list" where
  "deserialize_redirect_list [] = Inr []"
| "deserialize_redirect_list (entry # entries) =
     (case split_once colon entry of
        None \<Rightarrow> Inl (InvalidRedirectEntry entry)
      | Some p \<Rightarrow>
          (case deserialize_redirect_list entries of Inl e \<Rightarrow> Inl e | Inr ps \<Rightarrow> Inr (p # ps)))"

section \<open>Tables of rules\<close>

text \<open>What the clients of a rule table rely on: \<open>at t ls\<close> is the policy set for exactly the labels
  \<open>ls\<close>, and a lookup takes the first policy on the way from the top-level domain down.\<close>

fun first_policy :: "(rstr list \<Rightarrow> trie_policy) \<Rightarrow> rstr list list \<Rightarrow> trie_policy" where
  "first_policy f [] = PNone"
| "first_policy f (x # xs) = (if f x \<noteq> PNone then f x else first_policy f xs)"

locale rule_table =
  fixes empty :: 't
    and ins :: "rstr list \<Rightarrow> trie_policy \<Rightarrow> 't \<Rightarrow> 't"
    and look :: "'t \<Rightarrow> rstr list \<Rightarrow> trie_policy"
    and at :: "'t \<Rightarrow> rstr list \<Rightarrow> trie_policy"
  assumes at_empty: "at empty = (\<lambda>_. PNone)"
    and at_ins: "at (ins ls p t) = (at t)(ls := p)"
    and look_at: "look t path = first_policy (at t) (tl (prefixes path))"
begin

definition load :: "(rstr list \<times> trie_policy) list \<Rightarrow> 't \<Rightarrow> 't" where
  "load rules = fold (\<lambda>(ls, p). ins ls p) rules"

lemma load_simps [simp]:
  "load [] t = t" "load ((ls, p) # rules) t = load rules (ins ls p t)"
  "load (r1 @ r2) t = load r2 (load r1 t)"
  by (simp_all add: load_def)

lemma at_load: "at (load rules t) ls = (case map_of (rev rules) ls of None \<Rightarrow> at t ls | Some p \<Rightarrow> p)"
proof (induction rules arbitrary: t)
  case (Cons r rules)
  then show ?case
    by (cases r) (auto simp: at_ins map_add_def split: option.splits)
qed simp

lemma first_policy_None: "first_policy f xs = PNone \<longleftrightarrow> (\<forall>x \<in> set xs. f x = PNone)"
  by (induction xs) auto

lemma look_None: "look t path = PNone \<longleftrightarrow> (\<forall>ls. ls \<noteq> [] \<longrightarrow> prefix ls path \<longrightarrow> at t ls = PNone)"
proof -
  have "set (tl (prefixes path)) = {ls. ls \<noteq> [] \<and> prefix ls path}"
    by (induction path) (auto simp: prefix_Cons)
  then show ?thesis by (auto simp: look_at first_policy_None)
qed

lemma look_empty: "look empty path = PNone"
  by (simp add: look_None at_empty)

lemma tl_prefixes: "tl (prefixes (l # ls)) = map ((#) l) (prefixes ls)"
  by simp

lemma first_policy_prefixes:
  assumes "prefix ls path" "\<And>k. k < length ls \<Longrightarrow> k \<noteq> 0 \<Longrightarrow> f (take k ls) = PNone" "f ls \<noteq> PNone" "ls \<noteq> []"
  shows "first_policy f (tl (prefixes path)) = f ls"
proof -
  have "first_policy g (prefixes path) = g ls"
    if "prefix ls path" "\<And>k. k < length ls \<Longrightarrow> g (take k ls) = PNone" "g ls \<noteq> PNone" for g ls path
    using that
  proof (induction path arbitrary: ls g)
    case (Cons l path)
    show ?case
    proof (cases ls)
      case Nil
      with Cons.prems show ?thesis by simp
    next
      case (Cons m ms)
      with Cons.prems have m: "m = l" "prefix ms path" by auto
      have "first_policy (\<lambda>x. g (l # x)) (prefixes path) = g (l # ms)"
        using Cons.prems(2) [of "Suc _"] Cons.prems(3) m Cons
        by (intro Cons.IH [OF m(2)]) simp_all
      moreover have "first_policy g (map ((#) l) xs) = first_policy (\<lambda>x. g (l # x)) xs" for xs
        by (induction xs) auto
      moreover have "g [] = PNone" using Cons.prems(2) [of 0] Cons by simp
      ultimately show ?thesis using m(1) Cons by simp
    qed
  qed simp
  note * = this
  obtain l ls' where ls: "ls = l # ls'" using assms(4) by (cases ls) auto
  with assms(1) obtain path' where path: "path = l # path'" "prefix ls' path'"
    by (cases path) auto
  have "first_policy (\<lambda>x. f (l # x)) (prefixes path') = f (l # ls')"
    using assms(2) [of "Suc _"] assms(3) ls by (intro * [OF path(2)]) simp_all
  moreover have "first_policy f (map ((#) l) xs) = first_policy (\<lambda>x. f (l # x)) xs" for xs
    by (induction xs) auto
  ultimately show ?thesis using path ls by simp
qed

text \<open>The most general rule wins, whatever is said of the names below it.\<close>

lemma look_general:
  assumes "prefix ls path" "\<And>k. k < length ls \<Longrightarrow> k \<noteq> 0 \<Longrightarrow> at t (take k ls) = PNone"
    "at t ls \<noteq> PNone" "ls \<noteq> []"
  shows "look t path = at t ls"
  unfolding look_at using assms by (rule first_policy_prefixes)

lemma look_ins_fresh:
  assumes "look t path = PNone" "ls \<noteq> []"
  shows "look (ins ls p t) path = (if prefix ls path then p else PNone)"
proof (cases "prefix ls path \<and> p \<noteq> PNone")
  case True
  have "at (ins ls p t) (take k ls) = PNone" if "k < length ls" "k \<noteq> 0" for k
  proof -
    have "prefix (take k ls) path" "take k ls \<noteq> []" "take k ls \<noteq> ls"
      using True that assms(2) take_is_prefix [of k ls] by (auto intro: prefix_order.trans)
    with assms(1) show ?thesis unfolding look_None by (simp add: at_ins)
  qed
  moreover have "at (ins ls p t) ls = p" by (simp add: at_ins)
  ultimately show ?thesis using True assms(2) look_general [of ls path "ins ls p t"] by simp
next
  case False
  then have "look (ins ls p t) path = PNone"
    using assms by (auto simp: look_None at_ins)
  with False show ?thesis by auto
qed

lemma look_same: "at t = at t' \<Longrightarrow> look t path = look t' path"
  by (simp add: look_at)

end

section \<open>The trie is a rule table\<close>

fun policy_at :: "domain_trie \<Rightarrow> rstr list \<Rightarrow> trie_policy" where
  "policy_at t [] = node_policy t"
| "policy_at t (l # ls) = (case children t l of None \<Rightarrow> PNone | Some next \<Rightarrow> policy_at next ls)"

lemma policy_at_empty [simp]: "policy_at empty_trie ls = PNone"
  by (cases ls) (simp_all add: empty_trie_def)

lemma policy_at_insert: "policy_at (insert_path ls p t) ms = (if ms = ls then p else policy_at t ms)"
proof (induction ls p t arbitrary: ms rule: insert_path.induct)
  case (1 p c q)
  then show ?case by (cases ms) auto
next
  case (2 l ls p c q)
  then show ?case by (cases ms) (auto split: option.splits)
qed

lemma first_policy_map: "first_policy f (map g xs) = first_policy (\<lambda>x. f (g x)) xs"
  by (induction xs) auto

lemma first_policy_never: "first_policy (\<lambda>_. PNone) xs = PNone"
  by (induction xs) auto

lemma lookup_path_first: "lookup_path t path = first_policy (policy_at t) (tl (prefixes path))"
proof (induction path arbitrary: t)
  case (Cons l path)
  have pre: "prefixes path = [] # tl (prefixes path)" by (cases path) auto
  show ?case
  proof (cases "children t l")
    case None
    then show ?thesis by (simp add: first_policy_map first_policy_never)
  next
    case (Some n)
    then have "first_policy (policy_at t) (tl (prefixes (l # path))) =
      first_policy (policy_at n) (prefixes path)"
      by (simp add: first_policy_map)
    with Some Cons.IH [of n] show ?thesis by (subst (asm) pre) simp
  qed
qed simp

interpretation trie: rule_table empty_trie insert_path lookup_path policy_at
  by unfold_locales (auto simp: fun_eq_iff policy_at_insert lookup_path_first)

section \<open>Labels and suffixes\<close>

lemma rsplit_on_nonempty [simp]: "rsplit_on c s \<noteq> []"
  by (simp add: rsplit_on_def)

lemma split_on_suffix:
  "suffix (split_on c a) (split_on c b) \<longleftrightarrow> b = a \<or> (\<exists>d. b = d @ c # a)"
proof
  assume "suffix (split_on c a) (split_on c b)"
  then obtain ps where ps: "split_on c b = ps @ split_on c a" by (auto simp: suffix_def)
  have join: "join_with c (ps @ qs) = (if ps = [] then join_with c qs else join_with c ps @ c # join_with c qs)"
    if "qs \<noteq> []" for ps qs
    using that by (induction c ps rule: join_with.induct) (auto simp: neq_Nil_conv)
  have "b = join_with c (ps @ split_on c a)" using ps by (metis join_split)
  then show "b = a \<or> (\<exists>d. b = d @ c # a)"
    by (auto simp: join split: if_splits)
qed (auto simp: split_on_append suffix_def)

lemma rsplit_on_prefix:
  "prefix (rsplit_on dot a) (rsplit_on dot b) \<longleftrightarrow> b = a \<or> ends_with b (lit ''.'' @ a)"
proof -
  have dot: "lit ''.'' = [dot]" by code_simp
  show ?thesis
    unfolding rsplit_on_def suffix_to_prefix [symmetric] split_on_suffix ends_with_iff dot by simp
qed

text \<open>A rule \<open>pattern\<close> covers a name: the name is that of the rule, or is below it.\<close>

definition covers :: "(rstr \<Rightarrow> rstr) \<Rightarrow> rstr \<Rightarrow> rstr \<Rightarrow> bool" where
  "covers uni pattern domain \<longleftrightarrow>
     prefix (rule_key uni pattern) (rsplit_on dot (to_lowercase uni (trim_end_dots domain)))"

lemma covers_wildcard:
  assumes "strip_prefix (lit ''*.'') (to_lowercase uni (trim_end_dots pattern)) = Some base"
  shows "matches_domain_pattern uni domain pattern \<longleftrightarrow> covers uni pattern domain
    \<or> to_lowercase uni (trim_end_dots domain) = to_lowercase uni (trim_end_dots pattern)"
  using assms
  by (auto simp: matches_domain_pattern_def covers_def rule_key_def Let_def rsplit_on_prefix)

lemma rule_key_nonempty [simp]: "rule_key uni pattern \<noteq> []"
  by (simp add: rule_key_def Let_def)

section \<open>The rules of a configuration\<close>

definition drop_rule :: "(rstr \<Rightarrow> rstr) \<Rightarrow> rstr \<Rightarrow> rstr list \<times> trie_policy" where
  "drop_rule uni pattern = (rule_key uni pattern, PDrop)"

definition redirect_rule :: "(rstr \<Rightarrow> rstr) \<Rightarrow> rstr \<Rightarrow> rstr \<Rightarrow> rstr list \<times> trie_policy" where
  "redirect_rule uni pattern target = (rule_key uni pattern, PRedirect (redirect_ips target))"

definition drop_entry_rules ::
  "(rstr \<Rightarrow> rstr) \<Rightarrow> (rstr \<Rightarrow> rstr option) \<Rightarrow> rstr \<Rightarrow> (rstr list \<times> trie_policy) list" where
  "drop_entry_rules uni fs entry =
     (if skipped_entry (trim entry) then []
      else map (drop_rule uni)
        (if is_file_reference (trim entry) then read_list_file fs (trim entry) else [trim entry]))"

definition redirect_line_rules ::
  "(rstr \<Rightarrow> rstr) \<Rightarrow> rstr \<Rightarrow> (rstr list \<times> trie_policy) list" where
  "redirect_line_rules uni line =
     (case split_once colon line of
        Some (from, to) \<Rightarrow>
          if trim from \<noteq> [] \<and> trim to \<noteq> [] then [redirect_rule uni (trim from) (trim to)] else []
      | None \<Rightarrow> [])"

definition redirect_entry_rules ::
  "(rstr \<Rightarrow> rstr) \<Rightarrow> (rstr \<Rightarrow> rstr option) \<Rightarrow> rstr \<times> rstr \<Rightarrow> (rstr list \<times> trie_policy) list" where
  "redirect_entry_rules uni fs entry =
     (let pattern = trim (fst entry) in
      if skipped_entry pattern then []
      else if is_file_reference pattern
        then concat (map (redirect_line_rules uni) (read_list_file fs pattern))
      else [redirect_rule uni pattern (snd entry)])"

definition config_rules ::
  "(rstr \<Rightarrow> rstr) \<Rightarrow> (rstr \<Rightarrow> rstr option) \<Rightarrow> rstr list \<Rightarrow> (rstr \<times> rstr) list \<Rightarrow>
     (rstr list \<times> trie_policy) list" where
  "config_rules uni fs drop_list redirect_list =
     concat (map (drop_entry_rules uni fs) drop_list)
     @ concat (map (redirect_entry_rules uni fs) redirect_list)"

lemma load_fold:
  assumes "\<And>x t. f x t = trie.load (g x) t"
  shows "fold f xs t = trie.load (concat (map g xs)) t"
  by (induction xs arbitrary: t) (simp_all add: assms)

lemma insert_drop_load: "insert_drop uni d t = trie.load [drop_rule uni d] t"
  by (simp add: insert_drop_def insert_with_policy_def drop_rule_def)

lemma insert_redirect_load: "insert_redirect uni d ips t = trie.load [redirect_rule uni d ips] t"
  by (simp add: insert_redirect_def insert_with_policy_def redirect_rule_def)

lemma concat_singletons: "concat (map (\<lambda>x. [f x]) xs) = map f xs"
  by (induction xs) auto

lemma build_drop_entry_load: "build_drop_entry uni fs e t = trie.load (drop_entry_rules uni fs e) t"
  using load_fold [of "insert_drop uni" "\<lambda>x. [drop_rule uni x]"]
  by (simp add: build_drop_entry_def drop_entry_rules_def insert_drop_load concat_singletons Let_def)

lemma build_redirect_line_load: "build_redirect_line uni l t = trie.load (redirect_line_rules uni l) t"
  by (simp add: build_redirect_line_def redirect_line_rules_def insert_redirect_load
      split: option.splits)

lemma build_redirect_entry_load:
  "build_redirect_entry uni fs e t = trie.load (redirect_entry_rules uni fs e) t"
  by (cases e) (simp add: build_redirect_entry_def redirect_entry_rules_def insert_redirect_load
      Let_def load_fold [OF build_redirect_line_load])

lemma build_load: "build uni fs drops redirects = trie.load (config_rules uni fs drops redirects) empty_trie"
  by (simp add: build_def config_rules_def load_fold [OF build_drop_entry_load]
      load_fold [OF build_redirect_entry_load])

text \<open>The abstract specification: on the way from the top-level domain down, the first name that
  has a rule decides, with the last rule given for it.\<close>

definition decide :: "(rstr list \<times> trie_policy) list \<Rightarrow> rstr list \<Rightarrow> trie_policy" where
  "decide rules path =
     (case find (\<lambda>ls. map_of (rev rules) ls \<noteq> None) (tl (prefixes path)) of
        None \<Rightarrow> PNone
      | Some ls \<Rightarrow> the (map_of (rev rules) ls))"

lemma config_rules_not_None: "(ls, p) \<in> set (config_rules uni fs drops redirects) \<Longrightarrow> p \<noteq> PNone"
  by (auto simp: config_rules_def drop_entry_rules_def redirect_entry_rules_def redirect_line_rules_def
      drop_rule_def redirect_rule_def Let_def split: if_splits option.splits prod.splits)

lemma first_policy_decide:
  assumes "\<And>ls p. (ls, p) \<in> set rules \<Longrightarrow> p \<noteq> PNone"
  shows "lookup_path (trie.load rules empty_trie) path = decide rules path"
proof -
  let ?m = "map_of (rev rules)"
  have m: "?m ls \<noteq> Some PNone" for ls using assms map_of_SomeD [of "rev rules" ls PNone] by auto
  have "first_policy (\<lambda>ls. case ?m ls of None \<Rightarrow> PNone | Some p \<Rightarrow> p) xs =
      (case find (\<lambda>ls. ?m ls \<noteq> None) xs of None \<Rightarrow> PNone | Some ls \<Rightarrow> the (?m ls))" for xs
    using m by (induction xs) (auto split: option.splits)
  moreover have "policy_at (trie.load rules empty_trie) = (\<lambda>ls. case ?m ls of None \<Rightarrow> PNone | Some p \<Rightarrow> p)"
    by (rule ext) (simp add: trie.at_load split: option.split)
  ultimately show ?thesis by (simp only: trie.look_at decide_def)
qed

section \<open>Properties\<close>


text \<open>Adding a drop rule to a table that says nothing of a name makes it say "drop" exactly when
  the name is the rule's or lies below it, at a label boundary.\<close>

theorem insert_drop_covers:
  assumes "lookup uni t domain = PNone"
  shows "check_rules uni domain (insert_drop uni pattern t) =
    (if covers uni pattern domain then RuleDrop else RuleNone)"
  using assms trie.look_ins_fresh [of t _ "rule_key uni pattern" PDrop]
  by (simp add: check_rules_def lookup_def insert_drop_def insert_with_policy_def covers_def)

theorem insert_drop_covers_witness:
  "check_rules (\<lambda>s. s) (lit ''ads.Example.com.'') (insert_drop (\<lambda>s. s) (lit ''*.example.COM'') empty_trie) = RuleDrop
   \<and> check_rules (\<lambda>s. s) (lit ''badexample.com'') (insert_drop (\<lambda>s. s) (lit ''*.example.COM'') empty_trie) = RuleNone"
proof -
  have "lookup (\<lambda>s. s) empty_trie d = PNone" for d by (simp add: lookup_def trie.look_empty)
  note insert_drop_covers [OF this, of _ "lit ''*.example.COM''"]
  moreover have "covers (\<lambda>s. s) (lit ''*.example.COM'') (lit ''ads.Example.com.'')" by code_simp
  moreover have "\<not> covers (\<lambda>s. s) (lit ''*.example.COM'') (lit ''badexample.com'')" by code_simp
  ultimately show ?thesis by simp
qed

text \<open>The trie and the pattern matcher of the forwarding lists agree on wildcard patterns: a name
  that is not the pattern itself matches \<open>*.base\<close> exactly when a drop rule for it covers the
  name.\<close>

theorem trie_agrees_with_matcher:
  assumes "strip_prefix (lit ''*.'') (to_lowercase uni (trim_end_dots pattern)) = Some base"
    and "to_lowercase uni (trim_end_dots domain) \<noteq> to_lowercase uni (trim_end_dots pattern)"
  shows "check_rules uni domain (insert_drop uni pattern empty_trie) = RuleDrop \<longleftrightarrow>
    matches_domain_pattern uni domain pattern"
  using assms covers_wildcard [OF assms(1), of domain]
    trie.look_ins_fresh [OF trie.look_empty, of "rule_key uni pattern" PDrop]
  by (simp add: check_rules_def lookup_def insert_drop_def insert_with_policy_def covers_def)

theorem trie_agrees_with_matcher_witness:
  "check_rules (\<lambda>s. s) (lit ''a.b.net'') (insert_drop (\<lambda>s. s) (lit ''*.b.net'') empty_trie) = RuleDrop \<longleftrightarrow>
     matches_domain_pattern (\<lambda>s. s) (lit ''a.b.net'') (lit ''*.b.net'')"
proof (rule trie_agrees_with_matcher)
  show "strip_prefix (lit ''*.'') (to_lowercase (\<lambda>s. s) (trim_end_dots (lit ''*.b.net''))) = Some (lit ''b.net'')"
    by code_simp
  show "to_lowercase (\<lambda>s. s) (trim_end_dots (lit ''a.b.net'')) \<noteq>
    to_lowercase (\<lambda>s. s) (trim_end_dots (lit ''*.b.net''))" by code_simp
qed

text \<open>A drop rule shadows every redirect for a name below it, although the redirect is the closer
  rule and is inserted later.\<close>

theorem drop_shadows_redirects_below:
  assumes "strict_prefix (rule_key uni pattern) (rule_key uni sub)" "covers uni pattern domain"
  shows "check_rules uni domain (insert_redirect uni sub target (insert_drop uni pattern empty_trie)) = RuleDrop"
proof -
  let ?t = "insert_redirect uni sub target (insert_drop uni pattern empty_trie)"
  have at: "policy_at ?t ls = (if ls = rule_key uni sub then PRedirect (redirect_ips target)
      else if ls = rule_key uni pattern then PDrop else PNone)" for ls
    by (simp add: insert_redirect_def insert_drop_def insert_with_policy_def policy_at_insert)
  have "policy_at ?t (take k (rule_key uni pattern)) = PNone" if "k < length (rule_key uni pattern)" for k
  proof -
    have "length (rule_key uni pattern) < length (rule_key uni sub)"
      using assms(1) by (rule prefix_length_less)
    with that show ?thesis by (auto simp: at dest: arg_cong [where f = length])
  qed
  then show ?thesis
    using trie.look_general [of "rule_key uni pattern" _ ?t] assms
    by (auto simp: check_rules_def lookup_def covers_def at)
qed

theorem drop_shadows_redirects_below_witness:
  "check_rules (\<lambda>s. s) (lit ''www.a.com'')
     (insert_redirect (\<lambda>s. s) (lit ''www.a.com'') (lit ''10.0.0.5'') (insert_drop (\<lambda>s. s) (lit ''a.com'') empty_trie))
   = RuleDrop"
proof (rule drop_shadows_redirects_below)
  show "strict_prefix (rule_key (\<lambda>s. s) (lit ''a.com'')) (rule_key (\<lambda>s. s) (lit ''www.a.com''))" by code_simp
  show "covers (\<lambda>s. s) (lit ''a.com'') (lit ''www.a.com'')" by code_simp
qed

lemma dropWhile_replicate: "dropWhile (\<lambda>c. c = d) (replicate n d @ xs) = dropWhile (\<lambda>c. c = d) xs"
  by (induction n) auto

lemma trim_end_dots_replicate: "trim_end_dots (s @ replicate n dot) = trim_end_dots s"
  by (simp add: trim_end_dots_def dropWhile_replicate)

lemma trim_end_dots_lower: "trim_end_dots (map ascii_lower s) = map ascii_lower (trim_end_dots s)"
  by (simp add: trim_end_dots_def rev_map dropWhile_map comp_def)

text \<open>Rules see an ASCII name regardless of its case and of dots at its end.\<close>

theorem check_rules_case_insensitive:
  assumes "is_ascii domain"
  shows "check_rules uni (map ascii_lower domain @ replicate n dot) t = check_rules uni domain t"
proof -
  have "to_lowercase uni (map ascii_lower (trim_end_dots domain)) = to_lowercase uni (trim_end_dots domain)"
    using is_ascii_trim [OF assms] to_lowercase_idem [of "trim_end_dots domain" uni]
    by (simp add: to_lowercase_ascii)
  then show ?thesis
    by (simp add: check_rules_def lookup_def trim_end_dots_replicate trim_end_dots_lower)
qed

theorem check_rules_case_insensitive_witness:
  "check_rules (\<lambda>s. s) (map ascii_lower (lit ''A.Com'') @ replicate 1 dot) (insert_drop (\<lambda>s. s) (lit ''a.com'') empty_trie)
     = check_rules (\<lambda>s. s) (lit ''A.Com'') (insert_drop (\<lambda>s. s) (lit ''a.com'') empty_trie)"
proof (rule check_rules_case_insensitive)
  show "is_ascii (lit ''A.Com'')" by code_simp
qed

lemma split_once_Some:
  "split_once c s = Some (a, b) \<longleftrightarrow> s = a @ c # b \<and> c \<notin> set a"
proof
  assume some: "split_once c s = Some (a, b)"
  then have c: "c \<in> set s" and a: "a = takeWhile (\<lambda>x. x \<noteq> c) s"
    and b: "b = tl (dropWhile (\<lambda>x. x \<noteq> c) s)"
    by (auto simp: split_once_def split: if_splits)
  have "dropWhile (\<lambda>x. x \<noteq> c) s = c # b"
    using c b hd_dropWhile [of "\<lambda>x. x \<noteq> c" s] dropWhile_eq_Nil_conv [of "\<lambda>x. x \<noteq> c" s]
    by (cases "dropWhile (\<lambda>x. x \<noteq> c) s") auto
  then show "s = a @ c # b \<and> c \<notin> set a"
    using a takeWhile_dropWhile_id [of "\<lambda>x. x \<noteq> c" s] set_takeWhileD by metis
next
  assume "s = a @ c # b \<and> c \<notin> set a"
  moreover from this have "takeWhile (\<lambda>x. x \<noteq> c) (a @ c # b) = a"
    "dropWhile (\<lambda>x. x \<noteq> c) (a @ c # b) = c # b"
    by (auto simp: takeWhile_append2 dropWhile_append2 takeWhile_append dropWhile_append)
  ultimately show "split_once c s = Some (a, b)" by (simp add: split_once_def)
qed

lemma split_once_None: "split_once c s = None \<longleftrightarrow> c \<notin> set s"
  by (simp add: split_once_def)

lemma separator_unique:
  fixes c :: u8
  shows "a @ c # b = a' @ c # b' \<Longrightarrow> c \<notin> set a \<Longrightarrow> c \<notin> set a' \<Longrightarrow> a = a' \<and> b = b'"
  using split_once_Some [of c "a @ c # b" a b] split_once_Some [of c "a @ c # b" a' b'] by auto

lemma split_once_pair: "e = fst p @ c # snd p \<and> c \<notin> set (fst p) \<longleftrightarrow> split_once c e = Some p"
  by (cases p) (simp add: split_once_Some)

lemma deserialize_Inr:
  "deserialize_redirect_list es = Inr ps \<longleftrightarrow> list_all2 (\<lambda>e p. split_once colon e = Some p) es ps"
proof (induction es arbitrary: ps)
  case (Cons x es)
  show ?case
    by (cases ps; cases "split_once colon x") (auto simp: Cons.IH [symmetric] split: sum.splits)
qed auto

lemma deserialize_Inl:
  "deserialize_redirect_list es = Inl (InvalidRedirectEntry e) \<longleftrightarrow>
     find (\<lambda>e. split_once colon e = None) es = Some e"
  by (induction es) (auto split: option.splits sum.splits)

text \<open>The redirect list of the configuration is read exactly when every entry has a colon, and
  then it pairs the text before the first colon of each entry with the text after it; a bad list
  is refused with its first entry that has none.\<close>

theorem deserialize_redirects_exact:
  "(deserialize_redirect_list es = Inr ps \<longleftrightarrow>
      list_all2 (\<lambda>e p. e = fst p @ colon # snd p \<and> colon \<notin> set (fst p)) es ps)
   \<and> (deserialize_redirect_list es = Inl (InvalidRedirectEntry e) \<longleftrightarrow>
      find (\<lambda>e. colon \<notin> set e) es = Some e)"
  by (simp only: deserialize_Inr deserialize_Inl split_once_pair split_once_None)

end
