(* ===== verification/Dns_Msg.thy ===== *)
theory Dns_Msg
  imports Dns_Name
begin

text \<open>
  Whole messages: the crafted replies (\<open>craft_redirect_response\<close>, \<open>craft_nxdomain_response\<close>,
  \<open>craft_servfail_response\<close>), \<open>parse_a_records\<close>, \<open>with_txid\<close> and \<open>min_answer_ttl\<close> of
  \<open>shared/src/dns.rs\<close>. No crafted reply and no reader of addresses panics on any input.
\<close>

section \<open>Crafted replies\<close>

text \<open>One answer record of the loop of \<open>craft_redirect_response\<close>.\<close>

fun redirect_record :: "bytes \<Rightarrow> bytes \<Rightarrow> ipv4 \<Rightarrow> bytes" where
  "redirect_record qtype qclass (a, b, c, d) =
     [0xC0, 0x0C] @ qtype @ qclass @ [0x00, 0x00, 0x00, 0x3C] @ [0x00, 0x04] @ [a, b, c, d]"

definition craft_redirect_response :: "bytes \<Rightarrow> nat \<Rightarrow> rstr list \<Rightarrow> bytes option run" where
  "craft_redirect_response payload qname_end ips_str =
     (if length payload < 12 then Some None
      else do {
        resp \<leftarrow> wr payload 2 0x81;
        resp \<leftarrow> wr resp 3 0x80;
        if length resp < qname_end + 4 then Some None
        else do {
          qtype \<leftarrow> sub_slice resp qname_end (qname_end + 2);
          qclass \<leftarrow> sub_slice resp (qname_end + 2) (qname_end + 4);
          let ips = List.map_filter parse_ipv4 ips_str;
          if ips = [] then Some None
          else do {
            let ancount = (of_nat (length ips) :: u16);
            resp \<leftarrow> wr resp 6 (ucast (drop_bit 8 ancount));
            resp \<leftarrow> wr resp 7 (ucast (ancount AND 0xFF));
            Some (Some (resp @ concat (map (redirect_record qtype qclass) ips))) } } })"

definition craft_nxdomain_response :: "bytes \<Rightarrow> bytes option run" where
  "craft_nxdomain_response payload =
     (if length payload < 12 then Some None
      else do {
        resp \<leftarrow> wr payload 2 0x81;
        resp \<leftarrow> wr resp 3 0x83;
        Some (Some resp) })"

definition craft_servfail_response :: "bytes \<Rightarrow> bytes option run" where
  "craft_servfail_response payload =
     (if length payload < 12 then Some None
      else do {
        resp \<leftarrow> wr payload 2 0x81;
        resp \<leftarrow> wr resp 3 0x82;
        Some (Some resp) })"

text \<open>What \<open>send_servfail\<close> sends.\<close>

definition send_servfail :: "bytes \<Rightarrow> bytes list run" where
  "send_servfail payload = map_option (\<lambda>r. case r of None \<Rightarrow> [] | Some resp \<Rightarrow> [resp]) (craft_servfail_response payload)"

definition with_txid :: "bytes \<Rightarrow> u8 \<Rightarrow> u8 \<Rightarrow> bytes" where
  "with_txid packet t0 t1 = (if 2 \<le> length packet then packet[0 := t0, 1 := t1] else packet)"

section \<open>Reading a reply\<close>

text \<open>\<open>for _ in 0..qdcount\<close>: skip the name, then the type and the class.\<close>

fun skip_questions :: "nat \<Rightarrow> bytes \<Rightarrow> nat \<Rightarrow> nat option run" where
  "skip_questions 0 b pos = Some (Some pos)"
| "skip_questions (Suc n) b pos = do {
     r \<leftarrow> skip_name b pos;
     case r of None \<Rightarrow> Some None | Some p \<Rightarrow> skip_questions n b (p + 4) }"

text \<open>\<open>for _ in 0..ancount\<close>: every early \<open>return ips\<close> returns what was read so far.\<close>

fun read_answers :: "nat \<Rightarrow> bytes \<Rightarrow> nat \<Rightarrow> ipv4 list \<Rightarrow> ipv4 list run" where
  "read_answers 0 b pos ips = Some ips"
| "read_answers (Suc n) b pos ips = do {
     r \<leftarrow> skip_name b pos;
     case r of
       None \<Rightarrow> Some ips
     | Some p \<Rightarrow>
         if length b < p + 10 then Some ips
         else do {
           rtype \<leftarrow> rd16 b p;
           rdlength \<leftarrow> rd16 b (p + 8);
           let start = p + 10;
           let rdlen = unat rdlength;
           if length b < start + rdlen then Some ips
           else do {
             ips' \<leftarrow> (if rtype = 1 \<and> rdlen = 4
                      then do {
                        w \<leftarrow> rd b start; x \<leftarrow> rd b (start + 1);
                        y \<leftarrow> rd b (start + 2); z \<leftarrow> rd b (start + 3);
                        Some (ips @ [(w, x, y, z)]) }
                      else Some ips);
             read_answers n b (start + rdlen) ips' } } }"

definition parse_a_records :: "bytes \<Rightarrow> ipv4 list run" where
  "parse_a_records b =
     (if length b < 12 then Some []
      else do {
        qd \<leftarrow> rd16 b 4;
        an \<leftarrow> rd16 b 6;
        r \<leftarrow> skip_questions (unat qd) b 12;
        case r of None \<Rightarrow> Some [] | Some pos \<Rightarrow> read_answers (unat an) b pos [] })"

text \<open>\<open>min_answer_ttl\<close> uses \<open>parse_domain\<close> to step over names.\<close>

fun ttl_loop :: "(rstr \<Rightarrow> rstr) \<Rightarrow> nat \<Rightarrow> bytes \<Rightarrow> nat \<Rightarrow> u32 \<Rightarrow> u32 option run" where
  "ttl_loop uni 0 p off m = Some (Some m)"
| "ttl_loop uni (Suc n) p off m = do {
     r \<leftarrow> parse_domain uni p off;
     case r of
       None \<Rightarrow> Some None
     | Some (_, name_end) \<Rightarrow>
         if length p < name_end + 10 then Some None
         else do {
           ttl \<leftarrow> rd32 p (name_end + 4);
           rdlen \<leftarrow> rd16 p (name_end + 8);
           let off' = name_end + (10 + unat rdlen);
           if length p < off' then Some None
           else ttl_loop uni n p off' (if 0 < ttl then min m ttl else m) } }"

definition min_answer_ttl :: "(rstr \<Rightarrow> rstr) \<Rightarrow> bytes \<Rightarrow> u32 option run" where
  "min_answer_ttl uni packet =
     (if length packet < 12 then Some None
      else do {
        ancount \<leftarrow> rd16 packet 6;
        if ancount = 0 then Some None
        else do {
          r \<leftarrow> parse_domain uni packet 12;
          case r of
            None \<Rightarrow> Some None
          | Some (_, off) \<Rightarrow> do {
              m \<leftarrow> ttl_loop uni (unat ancount) packet (off + 4) (-1);
              Some (case m of None \<Rightarrow> None | Some t \<Rightarrow> if t = -1 then None else Some t) } } })"

section \<open>No panic\<close>

lemma skip_questions_returns: "\<exists>r. skip_questions n b pos = Some r"
proof (induction n arbitrary: pos)
  case (Suc n)
  obtain r where "skip_name b pos = Some r" using skip_name_returns by blast
  with Suc show ?case by (auto split: option.splits)
qed simp

lemma read_answers_returns: "\<exists>r. read_answers n b pos ips = Some r"
proof (induction n arbitrary: pos ips)
  case (Suc n)
  obtain r where "skip_name b pos = Some r" using skip_name_returns by blast
  with Suc show ?case by (auto simp: run_simps Let_def split: option.splits)
qed simp

lemma craft_nxdomain_eq:
  "craft_nxdomain_response p = Some (if length p < 12 then None else Some (p[2 := 0x81, 3 := 0x83]))"
  by (simp add: craft_nxdomain_response_def run_simps)

lemma craft_servfail_eq:
  "craft_servfail_response p = Some (if length p < 12 then None else Some (p[2 := 0x81, 3 := 0x82]))"
  by (simp add: craft_servfail_response_def run_simps)

definition redirect_header :: "bytes \<Rightarrow> nat \<Rightarrow> bytes" where
  "redirect_header p n = p[2 := 0x81, 3 := 0x80, 6 := ucast (drop_bit 8 (of_nat n :: u16)),
     7 := ucast ((of_nat n :: u16) AND 0xFF)]"

lemma length_redirect_header [simp]: "length (redirect_header p n) = length p"
  by (simp add: redirect_header_def)

text \<open>In closed form: with a question that is really there and some valid address, the reply is
  the query with a new header, then one record per address.\<close>

lemma craft_redirect_eq:
  assumes "12 \<le> length p" "12 \<le> qe"
  shows "craft_redirect_response p qe ips_str =
    Some (let ips = List.map_filter parse_ipv4 ips_str in
      if length p < qe + 4 \<or> ips = [] then None
      else Some (redirect_header p (length ips) @
        concat (map (redirect_record (take 2 (drop qe p)) (take 2 (drop (qe + 2) p))) ips)))"
  using assms
  by (simp add: craft_redirect_response_def run_simps redirect_header_def Let_def drop_update_cancel)

lemma craft_redirect_returns: "\<exists>r. craft_redirect_response p qe ips_str = Some r"
  by (simp add: craft_redirect_response_def run_simps Let_def)

section \<open>Reading back the crafted answers\<close>

lemma nth_of_drop: "drop n xs = ys @ zs \<Longrightarrow> i < length ys \<Longrightarrow> n \<le> length xs \<Longrightarrow> xs ! (n + i) = ys ! i"
  by (metis nth_append nth_drop)

text \<open>One record, whatever its name, once its fixed part and its data are there.\<close>

lemma read_answers_step:
  assumes "skip_name b pos = Some (Some q)"
    and "drop q b = [t0, t1, c0, c1, x0, x1, x2, x3, r0, r1] @ rdata @ rest"
    and "length rdata = unat (be16 r0 r1)"
  shows "read_answers (Suc n) b pos ips = read_answers n b (q + 10 + length rdata)
    (if be16 t0 t1 = 1 \<and> length rdata = 4
     then ips @ [(rdata ! 0, rdata ! 1, rdata ! 2, rdata ! 3)] else ips)"
proof -
  have "length (drop q b) = 10 + length rdata + length rest"
    unfolding assms(2) by simp
  then have len: "length b = q + 10 + length rdata + length rest" by simp
  have at: "b ! (q + i) = ([t0, t1, c0, c1, x0, x1, x2, x3, r0, r1] @ rdata) ! i"
    if "i < 10 + length rdata" for i
    using nth_of_drop [of q b "[t0, t1, c0, c1, x0, x1, x2, x3, r0, r1] @ rdata" rest i]
      assms(2) that len by simp
  have fixed: "b ! q = t0" "b ! Suc q = t1" "b ! (q + 8) = r0" "b ! (q + 9) = r1"
    using at [of 0] at [of 1] at [of 8] at [of 9] by simp_all
  have data: "b ! (q + 10 + j) = rdata ! j" if "j < length rdata" for j
    using at [of "10 + j"] that by (simp add: add.assoc)
  have data4: "b ! (q + 10) = rdata ! 0 \<and> b ! (q + 11) = rdata ! 1 \<and> b ! (q + 12) = rdata ! 2
      \<and> b ! (q + 13) = rdata ! 3" if "length rdata = 4"
    using data [of 0] data [of 1] data [of 2] data [of 3] that by (simp add: ac_simps)
  show ?thesis
    using assms(1,3) len fixed data4
    by (auto simp: run_simps Let_def ac_simps)
qed

lemma skip_name_c00c:
  assumes "drop pos b = 0xC0 # 0x0C # rest"
  shows "skip_name b pos = Some (Some (pos + 2))"
proof -
  have "pos < length b" "b ! pos = 0xC0"
    using assms by (metis drop_eq_Nil2 linorder_not_le list.distinct(1), metis assms nth_via_drop)
  then show ?thesis by (simp add: skip_name_eqs is_ptr_def)
qed

lemma skip_name_root:
  assumes "drop pos b = 0 # rest"
  shows "skip_name b pos = Some (Some (pos + 1))"
proof -
  have "pos < length b" "b ! pos = 0"
    using assms by (metis drop_eq_Nil2 linorder_not_le list.distinct(1), metis assms nth_via_drop)
  then show ?thesis by (simp add: skip_name_eqs)
qed

lemma length_redirect_record [simp]:
  "length qt = 2 \<Longrightarrow> length qc = 2 \<Longrightarrow> length (redirect_record qt qc ip) = 16"
  by (cases ip) simp

lemma read_redirect_record:
  assumes "drop pos b = redirect_record [t0, t1] [c0, c1] ip @ rest"
  shows "read_answers (Suc n) b pos ips =
    read_answers n b (pos + 16) (if be16 t0 t1 = 1 then ips @ [ip] else ips)"
proof -
  obtain w x y z where ip: "ip = (w, x, y, z)" by (cases ip)
  have "drop (pos + 2) b = drop 2 (drop pos b)" by (simp add: add.commute)
  with assms ip have rec:
    "drop (pos + 2) b = [t0, t1, c0, c1, 0, 0, 0, 0x3C, 0, 4] @ [w, x, y, z] @ rest" by simp
  have skip: "skip_name b pos = Some (Some (pos + 2))"
    using assms ip by (intro skip_name_c00c [where rest = "drop 2 (drop pos b)"]) simp
  have four: "length [w, x, y, z] = unat (be16 0 4)" by (simp add: be16_def)
  show ?thesis
    using read_answers_step [OF skip rec four, of n ips]
    by (simp add: ip add.commute del: read_answers.simps)
qed

lemma read_redirect_records:
  assumes "drop pos b = concat (map (redirect_record [t0, t1] [c0, c1]) ips)" "n \<le> length ips"
  shows "read_answers n b pos acc = Some (acc @ (if be16 t0 t1 = 1 then take n ips else []))"
  using assms
proof (induction n arbitrary: pos acc ips)
  case (Suc n)
  then obtain ip ips' where ips: "ips = ip # ips'" by (cases ips) auto
  have "drop (pos + 16) b = drop 16 (drop pos b)" by (simp add: add.commute)
  with Suc.prems ips have "drop (pos + 16) b = concat (map (redirect_record [t0, t1] [c0, c1]) ips')"
    by simp
  with Suc read_redirect_record [of pos b t0 t1 c0 c1 ip] ips show ?case
    by simp
qed simp

text \<open>A message that announces one question and has it: its name ends at \<open>qe\<close>.\<close>

definition one_question :: "bytes \<Rightarrow> nat \<Rightarrow> bool" where
  "one_question p qe \<longleftrightarrow> 12 \<le> length p \<and> p ! 4 = 0 \<and> p ! 5 = 1
     \<and> skip_name p 12 = Some (Some qe) \<and> qe + 4 \<le> length p"

lemma one_question_pos: "one_question p qe \<Longrightarrow> 12 < qe"
  by (auto simp: one_question_def dest: skip_name_bounds)

lemma redirect_header_same: "12 \<le> i \<Longrightarrow> redirect_header p n ! i = p ! i"
  by (simp add: redirect_header_def)

lemma drop_redirect_header [simp]: "12 \<le> i \<Longrightarrow> drop i (redirect_header p n) = drop i p"
  by (simp add: redirect_header_def drop_update_cancel)

lemma parse_redirect_start:
  assumes q: "one_question p qe" and n: "n < 65536"
  shows "parse_a_records (redirect_header p n @ recs) =
    read_answers n (redirect_header p n @ recs) (qe + 4) []"
proof -
  let ?r = "redirect_header p n @ recs"
  have p: "12 \<le> length p" "p ! 4 = 0" "p ! 5 = 1" "skip_name p 12 = Some (Some qe)" "qe + 4 \<le> length p"
    using q by (simp_all add: one_question_def)
  have head: "?r ! 4 = 0" "?r ! 5 = 1" "?r ! 6 = ucast (drop_bit 8 (of_nat n :: u16))"
    "?r ! 7 = ucast ((of_nat n :: u16) AND 0xFF)"
    using p(1-3) by (simp_all add: nth_append redirect_header_def)
  have qd: "unat (be16 0 1) = Suc 0" by (simp add: be16_def)
  have "skip_name ?r 12 = Some (Some qe)"
    by (rule skip_name_local [OF p(4), where n = "length p"])
      (use p in \<open>auto simp: nth_append redirect_header_same\<close>)
  with p(1) head qd n show ?thesis
    by (simp add: parse_a_records_def run_simps del: read_answers.simps)
qed

lemma take2: "i + 2 \<le> length xs \<Longrightarrow> take 2 (drop i xs) = [xs ! i, xs ! (i + 1)]"
  by (simp add: take_Suc_conv_app_nth numeral_2_eq_2 take_Suc drop_Suc hd_drop_conv_nth
      tl_drop nth_tl [symmetric])

lemma parse_redirect_plain:
  assumes q: "one_question p qe" "length p = qe + 4" and n: "length ips < 65536"
  shows "parse_a_records (redirect_header p (length ips) @
      concat (map (redirect_record (take 2 (drop qe p)) (take 2 (drop (qe + 2) p))) ips)) =
    Some (if be16 (p ! qe) (p ! (qe + 1)) = 1 then ips else [])"
proof -
  have pos: "12 \<le> qe + 4" using one_question_pos [OF q(1)] by simp
  have two: "take 2 (drop qe p) = [p ! qe, p ! (qe + 1)]"
    "take 2 (drop (qe + 2) p) = [p ! (qe + 2), p ! (qe + 3)]"
    using q(2) take2 [of qe p] take2 [of "qe + 2" p] by (simp_all add: numeral_3_eq_3)
  let ?recs = "concat (map (redirect_record [p ! qe, p ! (qe + 1)] [p ! (qe + 2), p ! (qe + 3)]) ips)"
  have "drop (qe + 4) (redirect_header p (length ips) @ ?recs) = ?recs"
    using q(2) pos by simp
  from read_redirect_records [OF this order_refl, of "[]"] show ?thesis
    unfolding two parse_redirect_start [OF q(1) n] by simp
qed

text \<open>An OPT record (root name, type 41) as an EDNS client puts it after the question.\<close>

definition opt_rr :: "bytes \<Rightarrow> bytes \<Rightarrow> bytes \<Rightarrow> bytes" where
  "opt_rr class ttl rdata =
     [0] @ [0, 41] @ class @ ttl @ to_be16 (of_nat (length rdata)) @ rdata"

lemma parse_redirect_opt:
  assumes q: "one_question p qe" "drop (qe + 4) p = opt_rr [c0, c1] [x0, x1, x2, x3] rdata"
    and n: "length ips < 65536" "ips \<noteq> []" and rdata: "length rdata < 65536"
  shows "parse_a_records (redirect_header p (length ips) @
      concat (map (redirect_record (take 2 (drop qe p)) (take 2 (drop (qe + 2) p))) ips)) =
    Some (if be16 (p ! qe) (p ! (qe + 1)) = 1 then butlast ips else [])"
proof -
  obtain n where n': "length ips = Suc n" using n(2) by (cases ips) auto
  let ?w = "of_nat (length rdata) :: u16"
  have pos: "12 \<le> qe + 4" "qe + 4 \<le> length p"
    using one_question_pos [OF q(1)] q(1) by (simp_all add: one_question_def)
  have two: "take 2 (drop qe p) = [p ! qe, p ! (qe + 1)]"
    "take 2 (drop (qe + 2) p) = [p ! (qe + 2), p ! (qe + 3)]"
    using pos take2 [of qe p] take2 [of "qe + 2" p] by (simp_all add: numeral_3_eq_3)
  let ?recs = "concat (map (redirect_record [p ! qe, p ! (qe + 1)] [p ! (qe + 2), p ! (qe + 3)]) ips)"
  let ?r = "redirect_header p (length ips) @ ?recs"
  have at: "drop (qe + 4) ?r = 0 # [0, 41, c0, c1, x0, x1, x2, x3, ucast (drop_bit 8 ?w), ucast ?w]
      @ rdata @ ?recs"
    using pos q(2) by (simp add: opt_rr_def to_be16_def)
  then have skip: "skip_name ?r (qe + 4) = Some (Some (qe + 4 + 1))"
    unfolding append_Cons append_Nil by (rule skip_name_root)
  from at have rec: "drop (qe + 4 + 1) ?r =
    [0, 41, c0, c1, x0, x1, x2, x3, ucast (drop_bit 8 ?w), ucast ?w] @ rdata @ ?recs"
    unfolding drop_plus [of "qe + 4" 1] by simp
  have len: "length rdata = unat (be16 (ucast (drop_bit 8 ?w)) (ucast ?w))"
    using rdata by simp
  from rec have rest: "drop (qe + 4 + 1 + 10 + length rdata) ?r = ?recs"
    unfolding drop_plus [of "qe + 4 + 1 + 10"] drop_plus [of "qe + 4 + 1" 10] by simp
  have opt: "be16 0 41 \<noteq> 1" by (simp add: be16_def)
  have "parse_a_records ?r = read_answers (Suc n) ?r (qe + 4) []"
    using parse_redirect_start [OF q(1) n(1)] n' by metis
  also have "\<dots> = read_answers n ?r (qe + 4 + 1 + 10 + length rdata) []"
    using read_answers_step [OF skip rec len, of n "[]"] opt by simp
  also have "\<dots> = Some (if be16 (p ! qe) (p ! (qe + 1)) = 1 then take n ips else [])"
    using read_redirect_records [OF rest, of n "[]"] n' by simp
  finally show ?thesis unfolding two using n' by (simp add: butlast_conv_take)
qed

section \<open>Transaction IDs\<close>

lemma length_with_txid [simp]: "length (with_txid p t0 t1) = length p"
  by (simp add: with_txid_def)

lemma take2_with_txid: "2 \<le> length p \<Longrightarrow> take 2 (with_txid p t0 t1) = [t0, t1]"
  by (cases p; cases "tl p") (auto simp: with_txid_def)

lemma drop2_with_txid: "drop 2 (with_txid p t0 t1) = drop 2 p"
  by (simp add: with_txid_def drop_update_cancel)

section \<open>The smallest TTL\<close>

text \<open>The TTLs of the records that \<open>ttl_loop\<close> visits; \<open>Some None\<close> when one is malformed.\<close>

fun answer_ttls :: "(rstr \<Rightarrow> rstr) \<Rightarrow> nat \<Rightarrow> bytes \<Rightarrow> nat \<Rightarrow> u32 list option run" where
  "answer_ttls uni 0 p off = Some (Some [])"
| "answer_ttls uni (Suc n) p off =
     (case parse_domain uni p off of
        None \<Rightarrow> None
      | Some None \<Rightarrow> Some None
      | Some (Some (_, e)) \<Rightarrow>
          if length p < e + 10 \<or> length p < e + 10 + unat (be16 (p ! (e + 8)) (p ! (e + 9))) then Some None
          else map_option (map_option (\<lambda>ts. be32 (p ! (e + 4)) (p ! (e + 5)) (p ! (e + 6)) (p ! (e + 7)) # ts))
            (answer_ttls uni n p (e + 10 + unat (be16 (p ! (e + 8)) (p ! (e + 9))))))"

lemma ttl_loop_min:
  "ttl_loop uni n p off m = map_option (map_option (\<lambda>ts. fold min (filter (\<lambda>t. 0 < t) ts) m))
     (answer_ttls uni n p off)"
proof (induction n arbitrary: off m)
  case (Suc n)
  show ?case
  proof (cases "\<exists>s e. parse_domain uni p off = Some (Some (s, e))")
    case True
    then obtain s e where r: "parse_domain uni p off = Some (Some (s, e))" by blast
    let ?o = "e + 10 + unat (be16 (p ! (e + 8)) (p ! (e + 9)))"
    have "min m t = min t m" for t :: u32 by (rule min.commute)
    then show ?thesis
      using r Suc.IH [of ?o] by (cases "answer_ttls uni n p ?o") (auto simp: run_simps Let_def ac_simps
          option.map_comp comp_def intro!: option.map_cong0)
  next
    case False
    then show ?thesis by (auto split: option.splits)
  qed
qed simp

lemma fold_min_bounds:
  "fold min ts m \<le> m \<and> (\<forall>t \<in> set ts. fold min ts m \<le> t) \<and> (fold min ts m = m \<or> fold min ts m \<in> set ts)"
  for m :: u32
proof (induction ts arbitrary: m)
  case (Cons t ts)
  from Cons.IH [of "min t m"] show ?case by (auto simp: min_def split: if_splits)
qed simp

section \<open>Properties\<close>

text \<open>No crafted reply and no reader of addresses aborts the process on any message; NXDOMAIN and
  SERVFAIL replies are the query with two header bytes changed.\<close>

theorem crafted_replies_total:
  "(\<exists>r. craft_redirect_response p qe ips_str = Some r) \<and> (\<exists>ips. parse_a_records p = Some ips)
   \<and> craft_nxdomain_response p = Some (if length p < 12 then None else Some (p[2 := 0x81, 3 := 0x83]))
   \<and> craft_servfail_response p = Some (if length p < 12 then None else Some (p[2 := 0x81, 3 := 0x82]))"
proof -
  obtain r where r: "skip_questions (unat (be16 (p ! 4) (p ! 5))) p 12 = Some r"
    using skip_questions_returns by blast
  have "\<exists>ips. read_answers n p pos [] = Some ips" for n pos using read_answers_returns by blast
  with r have "\<exists>ips. parse_a_records p = Some ips"
    by (auto simp: parse_a_records_def run_simps split: option.splits)
  then show ?thesis
    using craft_redirect_returns craft_nxdomain_eq craft_servfail_eq by blast
qed

text \<open>C28: A redirect reply to an A query that ends with its question echoes the query's ID and
  question, and a client that reads its answers gets exactly the valid addresses of the rule, in
  order.\<close>

theorem redirect_reply_reads_back:
  assumes "one_question p qe" "length p = qe + 4" "be16 (p ! qe) (p ! (qe + 1)) = 1"
    and "List.map_filter parse_ipv4 ips_str = ips" "ips \<noteq> []" "length ips < 65536"
  shows "\<exists>r. craft_redirect_response p qe ips_str = Some (Some r) \<and> parse_a_records r = Some ips
    \<and> take 2 r = take 2 p \<and> take (length p - 12) (drop 12 r) = drop 12 p
    \<and> r ! 2 = 0x81 \<and> r ! 3 = 0x80"
proof -
  have len: "12 \<le> length p" "12 \<le> qe"
    using assms(1) one_question_pos [OF assms(1)] by (simp_all add: one_question_def)
  have "take 2 (redirect_header p n) = take 2 p" for n by (simp add: redirect_header_def)
  moreover have "redirect_header p n ! 2 = 0x81" "redirect_header p n ! 3 = 0x80" for n
    using len by (simp_all add: redirect_header_def)
  ultimately show ?thesis
    using craft_redirect_eq [OF len, of ips_str] parse_redirect_plain [OF assms(1,2,6)] assms len
    by (simp add: Let_def nth_append)
qed

theorem redirect_reply_reads_back_witness:
  "\<exists>r. craft_redirect_response (build_lookup_query 9 (lit ''a.b'')) 17 [lit ''10.0.0.5'', lit ''x'', lit ''10.0.0.6'']
      = Some (Some r) \<and> parse_a_records r = Some [(10, 0, 0, 5), (10, 0, 0, 6)]"
proof -
  let ?p = "build_lookup_query 9 (lit ''a.b'')"
  have q: "one_question ?p 17" "length ?p = 17 + 4" "be16 (?p ! 17) (?p ! (17 + 1)) = 1" by code_simp+
  have ips: "List.map_filter parse_ipv4 [lit ''10.0.0.5'', lit ''x'', lit ''10.0.0.6''] =
    [(10, 0, 0, 5), (10, 0, 0, 6)]" by code_simp
  obtain r where "craft_redirect_response ?p 17 [lit ''10.0.0.5'', lit ''x'', lit ''10.0.0.6''] = Some (Some r)"
    "parse_a_records r = Some [(10, 0, 0, 5), (10, 0, 0, 6)]"
    using redirect_reply_reads_back [OF q ips list.discI] by auto
  then show ?thesis by blast
qed

text \<open>When the query carries an EDNS record, as every modern client's does, the answers are
  appended after it while the counts say they come first: a client that reads the answers in
  order misses the last address, and with one address gets none.\<close>

theorem redirect_reply_after_edns_loses_last:
  assumes "one_question p qe" "drop (qe + 4) p = opt_rr [c0, c1] [x0, x1, x2, x3] rdata"
    and "be16 (p ! qe) (p ! (qe + 1)) = 1" "length rdata < 65536"
    and "List.map_filter parse_ipv4 ips_str = ips" "ips \<noteq> []" "length ips < 65536"
  shows "\<exists>r. craft_redirect_response p qe ips_str = Some (Some r) \<and> parse_a_records r = Some (butlast ips)"
proof -
  have len: "12 \<le> length p" "12 \<le> qe" "qe + 4 \<le> length p"
    using assms(1) one_question_pos [OF assms(1)] by (simp_all add: one_question_def)
  then show ?thesis
    using craft_redirect_eq [OF len(1,2), of ips_str]
      parse_redirect_opt [OF assms(1,2,7,6,4)] assms(3,5,6)
    by (simp add: Let_def)
qed

theorem redirect_reply_after_edns_loses_last_witness:
  "\<exists>r. craft_redirect_response (build_lookup_query 9 (lit ''a.b'') @ opt_rr [4, 208] [0, 0, 0, 0] []) 17
        [lit ''10.0.0.5''] = Some (Some r) \<and> parse_a_records r = Some []"
proof -
  let ?p = "build_lookup_query 9 (lit ''a.b'') @ opt_rr [4, 208] [0, 0, 0, 0] []"
  have q: "one_question ?p 17" "drop (17 + 4) ?p = opt_rr [4, 208] [0, 0, 0, 0] []"
    "be16 (?p ! 17) (?p ! (17 + 1)) = 1" by code_simp+
  have short: "length ([] :: bytes) < 65536" by simp
  have ips: "List.map_filter parse_ipv4 [lit ''10.0.0.5''] = [(10, 0, 0, 5)]" by code_simp
  obtain r where "craft_redirect_response ?p 17 [lit ''10.0.0.5''] = Some (Some r)" "parse_a_records r = Some []"
    using redirect_reply_after_edns_loses_last [OF q short ips list.discI] by auto
  then show ?thesis by blast
qed

text \<open>When a smallest TTL is reported, the answers were all well-formed, and it is the least of
  their positive TTLs; so a cache lifetime taken from it is never zero and never longer than
  that of a record in the packet.\<close>

theorem min_answer_ttl_least:
  assumes "min_answer_ttl uni p = Some (Some t)"
  shows "\<exists>s e ts. parse_domain uni p 12 = Some (Some (s, e))
    \<and> answer_ttls uni (unat (be16 (p ! 6) (p ! 7))) p (e + 4) = Some (Some ts)
    \<and> 0 < t \<and> t \<in> set ts \<and> (\<forall>t' \<in> set ts. 0 < t' \<longrightarrow> t \<le> t')"
proof -
  let ?n = "unat (be16 (p ! 6) (p ! 7))"
  obtain s e m where e: "parse_domain uni p 12 = Some (Some (s, e))"
    and m: "ttl_loop uni ?n p (e + 4) (-1) = Some (Some m)" and t: "m \<noteq> -1" "t = m"
    using assms by (auto simp: min_answer_ttl_def run_simps bind_eq_Some_conv
        split: if_splits option.splits prod.splits)
  then obtain ts where ts: "answer_ttls uni ?n p (e + 4) = Some (Some ts)"
    "m = fold min (filter (\<lambda>t. 0 < t) ts) (-1)"
    by (auto simp: ttl_loop_min)
  then have "m \<in> set (filter (\<lambda>t. 0 < t) ts)" "\<forall>t \<in> set (filter (\<lambda>t. 0 < t) ts). m \<le> t"
    using fold_min_bounds [of "filter (\<lambda>t. 0 < t) ts" "-1"] t(1) by auto
  with e ts(1) t(2) show ?thesis by auto
qed

theorem min_answer_ttl_least_witness:
  "\<exists>ts. answer_ttls (\<lambda>s. s) 2 ([0, 0, 0x81, 0x80, 0, 1, 0, 2, 0, 0, 0, 0, 0, 0, 1, 0, 1]
        @ [0, 0, 1, 0, 1, 0, 0, 1, 44, 0, 0] @ [0, 0, 1, 0, 1, 0, 0, 0, 60, 0, 0]) 17 = Some (Some ts)
     \<and> (60 :: u32) \<in> set ts \<and> (\<forall>t' \<in> set ts. 0 < t' \<longrightarrow> (60 :: u32) \<le> t')"
proof -
  let ?p = "[0, 0, 0x81, 0x80, 0, 1, 0, 2, 0, 0, 0, 0, 0, 0, 1, 0, 1]
        @ [0, 0, 1, 0, 1, 0, 0, 1, 44, 0, 0] @ [0, 0, 1, 0, 1, 0, 0, 0, 60, 0, 0] :: bytes"
  have "min_answer_ttl (\<lambda>s. s) ?p = Some (Some 60)" by code_simp
  note min_answer_ttl_least [OF this]
  moreover have "parse_domain (\<lambda>s. s) ?p 12 = Some (Some ([], 13))" by code_simp
  moreover have "unat (be16 (?p ! 6) (?p ! 7)) = 2" by code_simp
  ultimately show ?thesis by simp
qed

end
