(* ===== verification/Response_Cache.thy ===== *)
theory Response_Cache
  imports Dns_Msg
begin

text \<open>
  The response cache (\<open>shared/src/cache.rs\<close>). The crate \<open>lru\<close> is not part of the repository: its
  operations are the record \<open>lru\<close> that every definition takes, and the locale \<open>lru_contract\<close>
  states what they do, as its documentation does, in terms of the list of entries from the most
  to the least recently used. The client lemmas give \<open>response_cache\<close>, the contract the query
  handler relies on.

  Instants and durations are nanoseconds (\<open>nat\<close>). A mutex is locked for one operation at a time
  and cannot be poisoned (a panic aborts the process), so an operation is a state transition.
\<close>

section \<open>Data\<close>

record cache_key =
  key_name :: rstr
  key_qtype :: u16

record cache_entry =
  packet :: bytes
  expires_at :: nat

record ('c, 'k, 'v) lru =
  lru_new :: "nat \<Rightarrow> 'c"
  lru_get :: "'k \<Rightarrow> 'c \<Rightarrow> 'v option \<times> 'c"
  lru_put :: "'k \<Rightarrow> 'v \<Rightarrow> 'c \<Rightarrow> 'c"
  lru_pop :: "'k \<Rightarrow> 'c \<Rightarrow> 'c"
  lru_iter :: "'c \<Rightarrow> ('k \<times> 'v) list"

type_synonym 'c cache_ops = "('c, cache_key, cache_entry) lru"
type_synonym 'c domain_ops = "('c, rstr, ipv4 list) lru"

abbreviation from_secs :: "nat \<Rightarrow> nat" where "from_secs s \<equiv> s * 1000000000"

definition CACHE_CAPACITY :: nat where "CACHE_CAPACITY = 4096"
definition CACHE_TTL_MIN :: nat where "CACHE_TTL_MIN = from_secs 5"
definition CACHE_TTL_MAX :: nat where "CACHE_TTL_MAX = from_secs 300"
definition CACHE_TTL_FALLBACK :: nat where "CACHE_TTL_FALLBACK = from_secs 60"

lemmas cache_constants = CACHE_CAPACITY_def CACHE_TTL_MIN_def CACHE_TTL_MAX_def CACHE_TTL_FALLBACK_def

section \<open>Operations\<close>

definition new_cache :: "'c cache_ops \<Rightarrow> 'c" where
  "new_cache L = lru_new L CACHE_CAPACITY"

text \<open>The small cache of \<open>shared/src/lib.rs\<close>.\<close>

definition empty_response_cache :: "'c cache_ops \<Rightarrow> 'c" where
  "empty_response_cache L = lru_new L 16"

definition cache_key_from_query :: "(rstr \<Rightarrow> rstr) \<Rightarrow> bytes \<Rightarrow> cache_key option run" where
  "cache_key_from_query uni payload = do {
     r \<leftarrow> parse_domain uni payload 12;
     case r of
       None \<Rightarrow> Some None
     | Some (name, qname_end) \<Rightarrow>
         if length payload < qname_end + 2 then Some None
         else do {
           qtype \<leftarrow> rd16 payload qname_end;
           Some (Some \<lparr>key_name = name, key_qtype = qtype\<rparr>) } }"

definition remove_domains_from_cache ::
  "'c cache_ops \<Rightarrow> (rstr \<Rightarrow> rstr) \<Rightarrow> rstr list \<Rightarrow> 'c \<Rightarrow> 'c" where
  "remove_domains_from_cache L uni patterns cache =
     (let keys = map fst (filter (\<lambda>(key, _).
            list_ex (\<lambda>pattern. matches_domain_pattern uni (key_name key) pattern) patterns) (lru_iter L cache))
      in fold (lru_pop L) keys cache)"

definition clamp_cache_ttl :: "u32 \<Rightarrow> nat" where
  "clamp_cache_ttl ttl_secs =
     (let ttl = from_secs (unat ttl_secs) in
      if ttl < CACHE_TTL_MIN then CACHE_TTL_MIN
      else if CACHE_TTL_MAX < ttl then CACHE_TTL_MAX
      else ttl)"

definition cache_lookup ::
  "'c cache_ops \<Rightarrow> nat \<Rightarrow> cache_key \<Rightarrow> 'c \<Rightarrow> bytes option \<times> 'c" where
  "cache_lookup L now key cache =
     (case lru_get L key cache of
        (None, cache) \<Rightarrow> (None, cache)
      | (Some entry, cache) \<Rightarrow>
          if expires_at entry \<le> now then (None, lru_pop L key cache)
          else (Some (packet entry), cache))"

definition stored_packet :: "bytes \<Rightarrow> bytes" where
  "stored_packet p = (if 2 \<le> length p then p[0 := 0, 1 := 0] else p)"

definition cache_ttl :: "(rstr \<Rightarrow> rstr) \<Rightarrow> bytes \<Rightarrow> nat run" where
  "cache_ttl uni p =
     map_option (\<lambda>t. case map_option clamp_cache_ttl t of Some d \<Rightarrow> d | None \<Rightarrow> CACHE_TTL_FALLBACK)
       (min_answer_ttl uni p)"

definition cache_store ::
  "'c cache_ops \<Rightarrow> (rstr \<Rightarrow> rstr) \<Rightarrow> nat \<Rightarrow> cache_key \<Rightarrow> bytes \<Rightarrow> 'c \<Rightarrow> 'c run" where
  "cache_store L uni now key p cache = do {
     ttl \<leftarrow> cache_ttl uni p;
     Some (lru_put L key \<lparr>packet = stored_packet p, expires_at = now + ttl\<rparr> cache) }"

text \<open>The cache of resolved host names.\<close>

definition new_domain_cache :: "'c domain_ops \<Rightarrow> 'c" where
  "new_domain_cache L = lru_new L CACHE_CAPACITY"

definition cache_url_ip :: "'c domain_ops \<Rightarrow> rstr \<Rightarrow> ipv4 list \<Rightarrow> 'c \<Rightarrow> 'c" where
  "cache_url_ip L domain ipv4 cache = lru_put L domain ipv4 cache"

definition get_cached_domain :: "'c domain_ops \<Rightarrow> rstr \<Rightarrow> 'c \<Rightarrow> ipv4 list option \<times> 'c" where
  "get_cached_domain L domain cache = lru_get L domain cache"

section \<open>What the crate promises\<close>

abbreviation without :: "'k \<Rightarrow> ('k \<times> 'v) list \<Rightarrow> ('k \<times> 'v) list" where
  "without k xs \<equiv> filter (\<lambda>e. fst e \<noteq> k) xs"

text \<open>\<open>recents c\<close> are the entries from the most to the least recently used, \<open>cap c\<close> the capacity.\<close>

locale lru_contract =
  fixes L :: "('c, 'k, 'v) lru"
    and recents :: "'c \<Rightarrow> ('k \<times> 'v) list"
    and cap :: "'c \<Rightarrow> nat"
  assumes recents_new: "0 < n \<Longrightarrow> recents (lru_new L n) = []"
    and get_value: "fst (lru_get L k c) = map_of (recents c) k"
    and recents_get: "recents (snd (lru_get L k c)) =
      (case map_of (recents c) k of None \<Rightarrow> recents c | Some v \<Rightarrow> (k, v) # without k (recents c))"
    and recents_put: "recents (lru_put L k v c) = take (cap c) ((k, v) # without k (recents c))"
    and recents_pop: "recents (lru_pop L k c) = without k (recents c)"
    and iter_recents: "lru_iter L c = recents c"
    and cap_new: "0 < n \<Longrightarrow> cap (lru_new L n) = n"
    and cap_get: "cap (snd (lru_get L k c)) = cap c"
    and cap_put: "cap (lru_put L k v c) = cap c"
    and cap_pop: "cap (lru_pop L k c) = cap c"
    and cap_pos: "0 < cap c"
begin

lemmas recents_simps = recents_new recents_get recents_put recents_pop
lemmas cap_simps = cap_new cap_get cap_put cap_pop

definition bounded :: "'c \<Rightarrow> bool" where
  "bounded c \<longleftrightarrow> distinct (map fst (recents c)) \<and> length (recents c) \<le> cap c"

lemma distinct_without: "distinct (map fst xs) \<Longrightarrow> distinct (map fst (without k xs))"
  by (induction xs) auto

lemma length_without:
  "distinct (map fst xs) \<Longrightarrow> map_of xs k = Some v \<Longrightarrow> Suc (length (without k xs)) = length xs"
proof (induction xs)
  case (Cons x xs)
  show ?case
  proof (cases "fst x = k")
    case True
    with Cons.prems(1) have "k \<notin> fst ` set xs" by auto
    then have "without k xs = xs" by (intro filter_True) force
    with True show ?thesis by simp
  qed (use Cons in auto)
qed simp

lemma bounded_new: "0 < n \<Longrightarrow> bounded (lru_new L n)"
  by (simp add: bounded_def recents_simps)

lemma bounded_get: "bounded c \<Longrightarrow> bounded (snd (lru_get L k c))"
  by (auto simp: bounded_def recents_simps cap_simps distinct_without length_without [symmetric]
      split: option.splits)

lemma bounded_pop: "bounded c \<Longrightarrow> bounded (lru_pop L k c)"
  by (auto simp: bounded_def recents_simps cap_simps distinct_without intro: le_trans length_filter_le)

lemma bounded_put: "bounded c \<Longrightarrow> bounded (lru_put L k v c)"
proof -
  assume "bounded c"
  then have "distinct (map fst ((k, v) # without k (recents c)))"
    by (auto simp: bounded_def distinct_without)
  then have "distinct (map fst (take (cap c) ((k, v) # without k (recents c))))"
    unfolding take_map [symmetric] by (rule distinct_take)
  then show ?thesis by (simp add: bounded_def recents_simps cap_simps)
qed

lemma map_of_without: "map_of (without k xs) k' = (if k' = k then None else map_of xs k')"
  by (induction xs) auto

lemma map_of_get: "map_of (recents (snd (lru_get L k c))) k' = map_of (recents c) k'"
  by (auto simp: recents_simps map_of_without split: option.splits)

lemma map_of_pop: "map_of (recents (lru_pop L k c)) k' = (if k' = k then None else map_of (recents c) k')"
  by (simp add: recents_simps map_of_without)

lemma map_of_put_same: "map_of (recents (lru_put L k v c)) k = Some v"
  using cap_pos [of c] by (cases "cap c") (auto simp: recents_simps)

lemma map_of_take: "map_of (take n xs) k = Some v \<Longrightarrow> map_of xs k = Some v"
  by (induction xs arbitrary: n) (auto simp: take_Cons split: nat.splits if_splits)

lemma map_of_put_other:
  "k' \<noteq> k \<Longrightarrow> map_of (recents (lru_put L k v c)) k' = Some v' \<Longrightarrow> map_of (recents c) k' = Some v'"
  unfolding recents_put by (drule map_of_take) (simp add: map_of_without)

lemma map_of_put_room:
  assumes "length (recents c) < cap c" "k' \<noteq> k"
  shows "map_of (recents (lru_put L k v c)) k' = map_of (recents c) k'"
proof -
  have "length (without k (recents c)) < cap c"
    using assms(1) by (meson le_less_trans length_filter_le)
  with assms(2) show ?thesis by (simp add: recents_simps map_of_without)
qed

lemma map_of_pops: "map_of (recents (fold (lru_pop L) ks c)) k =
    (if k \<in> set ks then None else map_of (recents c) k)"
  by (induction ks arbitrary: c) (auto simp: map_of_pop)

lemma bounded_pops: "bounded c \<Longrightarrow> bounded (fold (lru_pop L) ks c)"
  by (induction ks arbitrary: c) (auto simp: bounded_pop)

end

section \<open>What the handler relies on\<close>

text \<open>\<open>view c now k\<close> is the packet that a lookup of \<open>k\<close> at \<open>now\<close> would give. A store may drop
  other entries (the capacity), never change them.\<close>

locale response_cache =
  fixes view :: "'c \<Rightarrow> nat \<Rightarrow> cache_key \<Rightarrow> bytes option"
    and look :: "nat \<Rightarrow> cache_key \<Rightarrow> 'c \<Rightarrow> bytes option \<times> 'c"
    and store :: "nat \<Rightarrow> cache_key \<Rightarrow> bytes \<Rightarrow> 'c \<Rightarrow> 'c run"
    and lifetime :: "bytes \<Rightarrow> nat run"
  assumes look_view: "fst (look now k c) = view c now k"
    and view_look: "now \<le> now' \<Longrightarrow> view (snd (look now k c)) now' k' = view c now' k'"
    and store_None: "store now k p c = None \<longleftrightarrow> lifetime p = None"
    and view_store: "store now k p c = Some c' \<Longrightarrow> lifetime p = Some d \<Longrightarrow>
      view c' now' k = (if now' < now + d then Some (stored_packet p) else None)"
    and view_store_other: "store now k p c = Some c' \<Longrightarrow> k' \<noteq> k \<Longrightarrow> view c' now' k' = Some q \<Longrightarrow>
      view c now' k' = Some q"
begin

lemma hit_after_store:
  assumes "store now k p c = Some c'" "lifetime p = Some d" "now' < now + d"
  shows "fst (look now' k c') = Some (stored_packet p)"
  using assms by (simp add: look_view view_store)

lemma miss_after_expiry:
  assumes "store now k p c = Some c'" "lifetime p = Some d" "now + d \<le> now'"
  shows "fst (look now' k c') = None"
  using assms by (simp add: look_view view_store)

lemma repeated_look:
  "now \<le> now' \<Longrightarrow> fst (look now' k' (snd (look now k c))) = fst (look now' k' c)"
  by (simp add: look_view view_look)

text \<open>Whatever a lookup returns was stored for that very key and has not expired: an entry is
  traced back through any history of lookups and stores.\<close>

lemma view_source:
  assumes "store now k p c = Some c'" "view c' now' k' = Some q"
  shows "(k' = k \<and> q = stored_packet p) \<or> view c now' k' = Some q"
proof (cases "k' = k")
  case True
  obtain d where "lifetime p = Some d" using assms(1) store_None [of now k p c] by auto
  with True assms view_store [of now k p c c' d now'] show ?thesis by (auto split: if_splits)
qed (use assms view_store_other in blast)

end

section \<open>The cache of packets keeps that contract\<close>

definition cached :: "('c \<Rightarrow> (cache_key \<times> cache_entry) list) \<Rightarrow> 'c \<Rightarrow> nat \<Rightarrow> cache_key \<Rightarrow> bytes option" where
  "cached recents c now k =
     (case map_of (recents c) k of
        None \<Rightarrow> None
      | Some e \<Rightarrow> if expires_at e \<le> now then None else Some (packet e))"

lemma cache_store_Some:
  "cache_store L uni now k p c = Some c' \<longleftrightarrow>
     (\<exists>d. cache_ttl uni p = Some d \<and> c' = lru_put L k \<lparr>packet = stored_packet p, expires_at = now + d\<rparr> c)"
  by (cases "cache_ttl uni p") (auto simp: cache_store_def)

locale cache_backend = lru_contract L recents cap
  for L :: "'c cache_ops" and recents :: "'c \<Rightarrow> (cache_key \<times> cache_entry) list" and cap :: "'c \<Rightarrow> nat"
begin

lemma cache_lookup_cached: "fst (cache_lookup L now k c) = cached recents c now k"
  using get_value [of k c]
  by (auto simp: cache_lookup_def cached_def split: prod.splits option.splits)

lemma map_of_lookup:
  "map_of (recents (snd (cache_lookup L now k c))) k' =
     (case map_of (recents c) k' of
        None \<Rightarrow> None | Some e \<Rightarrow> if k' = k \<and> expires_at e \<le> now then None else Some e)"
  using get_value [of k c] map_of_get [of k c k'] map_of_pop [of k "snd (lru_get L k c)" k']
  by (auto simp: cache_lookup_def split: prod.splits option.splits)

lemma map_of_remove_domains:
  "map_of (recents (remove_domains_from_cache L uni patterns c)) k =
     (if list_ex (\<lambda>pattern. matches_domain_pattern uni (key_name k) pattern) patterns then None
      else map_of (recents c) k)"
proof -
  let ?P = "\<lambda>k. list_ex (\<lambda>pattern. matches_domain_pattern uni (key_name k) pattern) patterns"
  have "k \<in> set (map fst (filter (\<lambda>(k, _). ?P k) (recents c))) \<longleftrightarrow> ?P k \<and> map_of (recents c) k \<noteq> None"
    unfolding map_of_eq_None_iff by force
  then show ?thesis
    by (simp add: remove_domains_from_cache_def Let_def map_of_pops iter_recents)
qed

lemma bounded_lookup: "bounded c \<Longrightarrow> bounded (snd (cache_lookup L now k c))"
  using bounded_get [of c k] by (auto simp: cache_lookup_def bounded_pop split: prod.splits option.splits)

end

sublocale cache_backend \<subseteq> rc: response_cache "cached recents" "cache_lookup L" "cache_store L uni" "cache_ttl uni"
proof
  show "fst (cache_lookup L now k c) = cached recents c now k" for now k c
    by (rule cache_lookup_cached)
  show "now \<le> now' \<Longrightarrow> cached recents (snd (cache_lookup L now k c)) now' k' = cached recents c now' k'"
    for now now' k k' c
    by (auto simp: cached_def map_of_lookup split: option.splits)
  show "cache_store L uni now k p c = None \<longleftrightarrow> cache_ttl uni p = None" for now k p c
    by (cases "cache_ttl uni p") (auto simp: cache_store_def)
  show "cached recents c' now' k = (if now' < now + d then Some (stored_packet p) else None)"
    if "cache_store L uni now k p c = Some c'" "cache_ttl uni p = Some d" for now k p c c' d now'
    using that by (auto simp: cache_store_Some cached_def map_of_put_same)
  show "cached recents c now' k' = Some q"
    if st: "cache_store L uni now k p c = Some c'" and ne: "k' \<noteq> k"
      and hit: "cached recents c' now' k' = Some q"
    for now k p c c' k' now' q
  proof -
    obtain e where e: "map_of (recents c') k' = Some e" "\<not> expires_at e \<le> now'" "q = packet e"
      using hit by (auto simp: cached_def split: option.splits if_splits)
    have "map_of (recents c) k' = Some e"
      using st e(1) map_of_put_other [OF ne] unfolding cache_store_Some by blast
    with e show ?thesis by (simp add: cached_def)
  qed
qed

section \<open>A recency list keeps the crate's promises\<close>

type_synonym ('k, 'v) recency = "nat \<times> ('k \<times> 'v) list"

definition list_lru :: "(('k, 'v) recency, 'k, 'v) lru" where
  "list_lru = \<lparr>
     lru_new = (\<lambda>n. (n - 1, [])),
     lru_get = (\<lambda>k (n, xs). (map_of xs k, n,
       case map_of xs k of None \<Rightarrow> xs | Some v \<Rightarrow> (k, v) # without k xs)),
     lru_put = (\<lambda>k v (n, xs). (n, take (Suc n) ((k, v) # without k xs))),
     lru_pop = (\<lambda>k (n, xs). (n, without k xs)),
     lru_iter = snd\<rparr>"

lemma list_lru_sel [simp]:
  "lru_new list_lru n = (n - 1, [])"
  "lru_get list_lru k (n, xs) = (map_of xs k, n,
     case map_of xs k of None \<Rightarrow> xs | Some v \<Rightarrow> (k, v) # without k xs)"
  "lru_put list_lru k v (n, xs) = (n, take (Suc n) ((k, v) # without k xs))"
  "lru_pop list_lru k (n, xs) = (n, without k xs)"
  "lru_iter list_lru = snd"
  by (simp_all add: list_lru_def)

interpretation list_lru: lru_contract list_lru snd "\<lambda>c. Suc (fst c)"
  by unfold_locales (auto split: prod.splits option.splits)

interpretation list_cache: cache_backend list_lru snd "\<lambda>c. Suc (fst c)"
  by unfold_locales

section \<open>Histories of the cache\<close>

text \<open>The states a cache goes through, with the packets stored in it, the latest first.\<close>

inductive cache_trace ::
  "'c cache_ops \<Rightarrow> (rstr \<Rightarrow> rstr) \<Rightarrow> (cache_key \<times> bytes \<times> nat) list \<Rightarrow> 'c \<Rightarrow> bool"
  for L :: "'c cache_ops" and uni :: "rstr \<Rightarrow> rstr" where
  start: "cache_trace L uni [] (new_cache L)"
| look: "cache_trace L uni log c \<Longrightarrow> cache_trace L uni log (snd (cache_lookup L now k c))"
| store: "cache_trace L uni log c \<Longrightarrow> cache_store L uni now k p c = Some c' \<Longrightarrow>
    cache_trace L uni ((k, p, now) # log) c'"
| purge: "cache_trace L uni log c \<Longrightarrow> cache_trace L uni log (remove_domains_from_cache L uni patterns c)"

inductive_cases cache_trace_emptyE: "cache_trace L uni [] c"

context cache_backend
begin

lemma hit_until_expiry:
  assumes "cache_store L uni now k p c = Some c'" "cache_ttl uni p = Some d"
  shows "fst (cache_lookup L now' k c') = (if now' < now + d then Some (stored_packet p) else None)"
  using rc.hit_after_store [OF assms] rc.miss_after_expiry [OF assms] by (simp add: not_less)

lemma trace_bounded: "cache_trace L uni log c \<Longrightarrow> bounded c \<and> cap c = CACHE_CAPACITY"
proof (induction rule: cache_trace.induct)
  case start
  then show ?case
    using bounded_new [of CACHE_CAPACITY] cap_new [of CACHE_CAPACITY]
    by (simp add: new_cache_def CACHE_CAPACITY_def)
next
  case (look log c now k)
  then show ?case
    using bounded_lookup [of c now k]
    by (auto simp: cache_lookup_def cap_simps split: prod.splits option.splits)
      (metis cap_get cap_pop snd_conv)+
next
  case (store log c now k p c')
  then show ?case by (auto simp: cache_store_Some bounded_put cap_simps)
next
  case (purge log c patterns)
  have "cap (fold (lru_pop L) ks c) = cap c" for ks c
    by (induction ks arbitrary: c) (auto simp: cap_simps)
  with purge show ?case by (simp add: remove_domains_from_cache_def Let_def bounded_pops)
qed

lemma trace_entry:
  "cache_trace L uni log c \<Longrightarrow> map_of (recents c) k = Some e \<Longrightarrow>
     \<exists>p t d. map_of log k = Some (p, t) \<and> cache_ttl uni p = Some d
       \<and> e = \<lparr>packet = stored_packet p, expires_at = t + d\<rparr>"
proof (induction arbitrary: k e rule: cache_trace.induct)
  case start
  then show ?case using recents_new [of CACHE_CAPACITY] by (simp add: new_cache_def CACHE_CAPACITY_def)
next
  case (look log c now k')
  then show ?case by (auto simp: map_of_lookup split: option.splits if_splits)
next
  case (store log c now k' p c')
  then obtain d where d: "cache_ttl uni p = Some d"
    "c' = lru_put L k' \<lparr>packet = stored_packet p, expires_at = now + d\<rparr> c"
    by (auto simp: cache_store_Some)
  show ?case
  proof (cases "k = k'")
    case True
    with d store.prems show ?thesis by (simp add: map_of_put_same)
  next
    case False
    with d store.prems have "map_of (recents c) k = Some e" using map_of_put_other by blast
    with store.IH False show ?thesis by simp
  qed
next
  case (purge log c patterns)
  then show ?case by (auto simp: map_of_remove_domains split: if_splits)
qed

end

section \<open>Properties\<close>

lemma clamp_bounds: "CACHE_TTL_MIN \<le> clamp_cache_ttl t \<and> clamp_cache_ttl t \<le> CACHE_TTL_MAX"
  by (simp add: clamp_cache_ttl_def cache_constants Let_def)

lemma cache_ttl_bounds: "cache_ttl uni p = Some d \<Longrightarrow> CACHE_TTL_MIN \<le> d \<and> d \<le> CACHE_TTL_MAX"
  using clamp_bounds by (auto simp: cache_ttl_def cache_constants split: option.splits)

text \<open>A reply is kept for its smallest answer TTL, held between 5 and 300 seconds, and for 60
  seconds when it has none; storing it fails to return only when reading that TTL does.\<close>

theorem cache_lifetime:
  "(case cache_ttl uni p of
      None \<Rightarrow> min_answer_ttl uni p = None
    | Some d \<Rightarrow> from_secs 5 \<le> d \<and> d \<le> from_secs 300 \<and>
        (case min_answer_ttl uni p of
           None \<Rightarrow> False
         | Some None \<Rightarrow> d = from_secs 60
         | Some (Some t) \<Rightarrow> d = max (from_secs 5) (min (from_secs 300) (from_secs (unat t)))))"
  by (auto simp: cache_ttl_def clamp_cache_ttl_def cache_constants Let_def split: option.splits)

text \<open>After a store, a lookup of the same question gives the stored packet with a cleared
  transaction ID until its lifetime has passed, and nothing from then on.\<close>

theorem cache_hit_until_expiry:
  assumes "cache_backend L recents cap"
    and "cache_store L uni now k p c = Some c'" "cache_ttl uni p = Some d"
  shows "fst (cache_lookup L now' k c') = (if now' < now + d then Some (stored_packet p) else None)"
  by (rule cache_backend.hit_until_expiry [OF assms])

theorem cache_hit_until_expiry_witness:
  "fst (cache_lookup list_lru 5 \<lparr>key_name = lit ''a'', key_qtype = 1\<rparr>
     (3, [(\<lparr>key_name = lit ''a'', key_qtype = 1\<rparr>, \<lparr>packet = [0, 0, 7], expires_at = 60000000000\<rparr>)])) = Some [0, 0, 7]"
proof -
  let ?k = "\<lparr>key_name = lit ''a'', key_qtype = 1\<rparr>"
  have ttl: "cache_ttl (\<lambda>s. s) [9, 9, 7] = Some 60000000000"
    by (simp add: cache_ttl_def min_answer_ttl_def CACHE_TTL_FALLBACK_def)
  have "cache_store list_lru (\<lambda>s. s) 0 ?k [9, 9, 7] (3, []) =
    Some (3, [(?k, \<lparr>packet = [0, 0, 7], expires_at = 60000000000\<rparr>)])"
    using ttl by (simp add: cache_store_def stored_packet_def)
  from cache_hit_until_expiry [OF list_cache.cache_backend_axioms this ttl, of 5]
  show ?thesis by (simp add: stored_packet_def)
qed

text \<open>C14: Through any history of lookups, stores and purges the cache holds at most 4096 entries,
  and whatever a lookup gives is the last packet stored for that very name and type, not older
  than its lifetime.\<close>

theorem cache_serves_last_stored:
  assumes "cache_backend L recents cap" "cache_trace L uni log c"
    and "fst (cache_lookup L now k c) = Some q"
  shows "length (recents c) \<le> 4096 \<and> (\<exists>p t d. map_of log k = Some (p, t) \<and> q = stored_packet p
    \<and> cache_ttl uni p = Some d \<and> now < t + d \<and> d \<le> from_secs 300)"
proof -
  obtain e where e: "map_of (recents c) k = Some e" "q = packet e" "now < expires_at e"
    using assms(3)
    by (auto simp: cache_backend.cache_lookup_cached [OF assms(1)] cached_def split: option.splits if_splits)
  obtain p t d where "map_of log k = Some (p, t)" "cache_ttl uni p = Some d"
    "e = \<lparr>packet = stored_packet p, expires_at = t + d\<rparr>"
    using cache_backend.trace_entry [OF assms(1,2) e(1)] by blast
  moreover have "length (recents c) \<le> 4096"
    using cache_backend.trace_bounded [OF assms(1,2)]
    by (simp add: CACHE_CAPACITY_def lru_contract.bounded_def [OF cache_backend.axioms [OF assms(1)]])
  ultimately show ?thesis using e cache_ttl_bounds [of uni p d] by (simp add: cache_constants)
qed

theorem cache_serves_last_stored_witness:
  "\<exists>p t d. map_of [(\<lparr>key_name = lit ''a'', key_qtype = 1\<rparr>, [9, 9, 7], 0)]
      \<lparr>key_name = lit ''a'', key_qtype = 1\<rparr> = Some (p, t) \<and> [0, 0, 7] = stored_packet p
    \<and> cache_ttl (\<lambda>s. s) p = Some d \<and> 5 < t + d"
proof -
  let ?k = "\<lparr>key_name = lit ''a'', key_qtype = 1\<rparr>"
  have ttl: "cache_ttl (\<lambda>s. s) [9, 9, 7] = Some 60000000000"
    by (simp add: cache_ttl_def min_answer_ttl_def CACHE_TTL_FALLBACK_def)
  have st: "cache_store list_lru (\<lambda>s. s) 0 ?k [9, 9, 7] (new_cache list_lru) =
    Some (4095, [(?k, \<lparr>packet = [0, 0, 7], expires_at = 60000000000\<rparr>)])"
    using ttl by (simp add: cache_store_def stored_packet_def new_cache_def CACHE_CAPACITY_def)
  have hit: "fst (cache_lookup list_lru 5 ?k (4095, [(?k, \<lparr>packet = [0, 0, 7], expires_at = 60000000000\<rparr>)])) =
    Some [0, 0, 7]"
    by (simp add: cache_lookup_def)
  show ?thesis
    using cache_serves_last_stored [OF list_cache.cache_backend_axioms
        cache_trace.store [OF cache_trace.start st] hit] by blast
qed

text \<open>Purging a list of patterns removes exactly the questions whose name matches one of them;
  every other entry is served as before.\<close>

theorem purge_exact:
  assumes "cache_backend L recents cap"
  shows "fst (cache_lookup L now k (remove_domains_from_cache L uni patterns c)) =
    (if list_ex (\<lambda>pattern. matches_domain_pattern uni (key_name k) pattern) patterns then None
     else fst (cache_lookup L now k c))"
  by (simp add: cache_backend.cache_lookup_cached [OF assms] cached_def
      cache_backend.map_of_remove_domains [OF assms])

theorem purge_exact_witness:
  "fst (cache_lookup list_lru 5 \<lparr>key_name = lit ''x.a'', key_qtype = 1\<rparr>
     (remove_domains_from_cache list_lru (\<lambda>s. s) [lit ''*.a'']
       (3, [(\<lparr>key_name = lit ''x.a'', key_qtype = 1\<rparr>, \<lparr>packet = [7], expires_at = 9\<rparr>)]))) = None"
proof -
  have "list_ex (\<lambda>pattern. matches_domain_pattern (\<lambda>s. s) (lit ''x.a'') pattern) [lit ''*.a'']" by code_simp
  then show ?thesis
    unfolding purge_exact [OF list_cache.cache_backend_axioms] by (simp only: cache_key.select_convs if_True)
qed

text \<open>A host name's resolved addresses are found again right after they were stored, and the
  store for one name never changes the addresses of another.\<close>

theorem domain_cache_roundtrip:
  assumes "lru_contract L recents cap"
  shows "fst (get_cached_domain L d (cache_url_ip L d ips c)) = Some ips
    \<and> (d' \<noteq> d \<longrightarrow> fst (get_cached_domain L d' (cache_url_ip L d ips c)) = Some ips' \<longrightarrow>
        fst (get_cached_domain L d' c) = Some ips')"
  unfolding get_cached_domain_def cache_url_ip_def lru_contract.get_value [OF assms]
  using lru_contract.map_of_put_same [OF assms] lru_contract.map_of_put_other [OF assms] by blast

theorem domain_cache_roundtrip_witness:
  "fst (get_cached_domain list_lru (lit ''a'') (cache_url_ip list_lru (lit ''a'') [(1, 2, 3, 4)] (3, []))) =
     Some [(1, 2, 3, 4)]"
  using domain_cache_roundtrip [OF list_lru.lru_contract_axioms] by blast

end
