(* ===== verification/Dns_Edns.thy ===== *)
theory Dns_Edns
  imports Dns_Msg
begin

text \<open>
  EDNS0 (the second half of \<open>shared/src/dns.rs\<close>): \<open>find_opt_record\<close>, \<open>skip_rr\<close>,
  \<open>parse_options\<close>, \<open>set_ecs_option\<close> and \<open>rebuild_with_new_opt\<close>. The theorems say that none of
  them panics, and that what \<open>set_ecs_option\<close> writes is what \<open>find_opt_record\<close> and
  \<open>parse_options\<close> read back, with every other option and every other byte kept.
\<close>

record edns_opt =
  rr_start :: nat
  rr_end :: nat
  udp_payload_size :: u16
  extended_rcode :: u8
  opt_version :: u8
  opt_flags :: u16
  opt_options :: bytes

record edns_option =
  opt_code :: u16
  opt_data :: bytes

datatype ip_addr = V4 ipv4 | V6 bytes

section \<open>Finding the OPT record\<close>

definition skip_rr :: "bytes \<Rightarrow> nat \<Rightarrow> nat option run" where
  "skip_rr b offset = do {
     r \<leftarrow> skip_name b offset;
     case r of
       None \<Rightarrow> Some None
     | Some name_end \<Rightarrow>
         if length b < name_end + 10 then Some None
         else do {
           rdlength \<leftarrow> rd16 b (name_end + 8);
           let end = name_end + 10 + unat rdlength;
           if length b < end then Some None else Some (Some end) } }"

text \<open>\<open>for _ in 0..(ancount + nscount)\<close>\<close>

fun skip_rrs :: "nat \<Rightarrow> bytes \<Rightarrow> nat \<Rightarrow> nat option run" where
  "skip_rrs 0 b pos = Some (Some pos)"
| "skip_rrs (Suc n) b pos = do {
     r \<leftarrow> skip_rr b pos;
     case r of None \<Rightarrow> Some None | Some p \<Rightarrow> skip_rrs n b p }"

text \<open>\<open>for _ in 0..arcount\<close>\<close>

fun find_opt :: "nat \<Rightarrow> bytes \<Rightarrow> nat \<Rightarrow> edns_opt option run" where
  "find_opt 0 b pos = Some None"
| "find_opt (Suc n) b pos = do {
     r \<leftarrow> skip_name b pos;
     case r of
       None \<Rightarrow> Some None
     | Some name_end \<Rightarrow>
         if length b < name_end + 10 then Some None
         else do {
           rtype \<leftarrow> rd16 b name_end;
           class \<leftarrow> rd16 b (name_end + 2);
           ttl_bytes \<leftarrow> sub_slice b (name_end + 4) (name_end + 8);
           rdlength \<leftarrow> rd16 b (name_end + 8);
           let rdata_start = name_end + 10;
           let rdlen = unat rdlength;
           if length b < rdata_start + rdlen then Some None
           else if rtype = 41 then do {
             t0 \<leftarrow> rd ttl_bytes 0; t1 \<leftarrow> rd ttl_bytes 1; fl \<leftarrow> rd16 ttl_bytes 2;
             opts \<leftarrow> sub_slice b rdata_start (rdata_start + rdlen);
             Some (Some \<lparr>rr_start = pos, rr_end = rdata_start + rdlen, udp_payload_size = class,
               extended_rcode = t0, opt_version = t1, opt_flags = fl, opt_options = opts\<rparr>) }
           else find_opt n b (rdata_start + rdlen) } }"

definition find_opt_record :: "bytes \<Rightarrow> edns_opt option run" where
  "find_opt_record b =
     (if length b < 12 then Some None
      else do {
        qdcount \<leftarrow> rd16 b 4; ancount \<leftarrow> rd16 b 6; nscount \<leftarrow> rd16 b 8; arcount \<leftarrow> rd16 b 10;
        r \<leftarrow> skip_questions (unat qdcount) b 12;
        case r of
          None \<Rightarrow> Some None
        | Some pos \<Rightarrow> do {
            r \<leftarrow> skip_rrs (unat ancount + unat nscount) b pos;
            case r of None \<Rightarrow> Some None | Some pos \<Rightarrow> find_opt (unat arcount) b pos } })"

section \<open>Options\<close>

function parse_options_from :: "bytes \<Rightarrow> nat \<Rightarrow> edns_option list run" where
  "parse_options_from b pos =
     (if pos + 4 \<le> length b then do {
        code \<leftarrow> rd16 b pos;
        len \<leftarrow> rd16 b (pos + 2);
        if length b < pos + 4 + unat len then Some []
        else do {
          data \<leftarrow> sub_slice b (pos + 4) (pos + 4 + unat len);
          rest \<leftarrow> parse_options_from b (pos + 4 + unat len);
          Some (\<lparr>opt_code = code, opt_data = data\<rparr> # rest) } }
      else Some [])"
  by pat_completeness auto
termination by (relation "measure (\<lambda>(b, pos). length b - pos)") auto

declare parse_options_from.simps [simp del]

definition parse_options :: "bytes \<Rightarrow> edns_option list run" where
  "parse_options b = parse_options_from b 0"

text \<open>\<open>OPT_CODE_ECS\<close>\<close>

abbreviation ecs_code :: u16 where "ecs_code \<equiv> 8"

text \<open>The body of the loop that writes the kept options, and the new ECS option.\<close>

definition option_bytes :: "edns_option \<Rightarrow> bytes" where
  "option_bytes opt = to_be16 (opt_code opt) @ to_be16 (of_nat (length (opt_data opt))) @ opt_data opt"

text \<open>\<open>ecs_data\<close>: family 1, prefix length 24, scope 0, and the first three octets.\<close>

fun ecs_data :: "ipv4 \<Rightarrow> bytes" where
  "ecs_data (a, b, c, d) = [0x00, 0x01] @ [24] @ [0] @ [a, b, c]"

definition rebuild_with_new_opt :: "bytes \<Rightarrow> edns_opt \<Rightarrow> bytes \<Rightarrow> bytes option run" where
  "rebuild_with_new_opt payload existing new_options = do {
     before \<leftarrow> sub_slice payload 0 (rr_start existing);
     after \<leftarrow> sub_slice payload (rr_end existing) (length payload);
     let out = before @ [0x00] @ to_be16 41 @ to_be16 (udp_payload_size existing)
       @ [extended_rcode existing] @ [opt_version existing] @ to_be16 (opt_flags existing)
       @ to_be16 (of_nat (length new_options)) @ new_options @ after;
     if rr_start existing = rr_end existing \<and> rr_start existing = length payload then
       if length out < 12 then Some None
       else do {
         arcount \<leftarrow> rd16 out 10;
         let new_arcount = arcount + 1;
         out \<leftarrow> wr out 10 (ucast (drop_bit 8 new_arcount));
         out \<leftarrow> wr out 11 (ucast (new_arcount AND 0xFF));
         Some (Some out) }
     else Some (Some out) }"

definition set_ecs_option :: "bytes \<Rightarrow> ip_addr \<Rightarrow> ipv4 option \<Rightarrow> bytes option run" where
  "set_ecs_option payload client_ip fabricate =
     (case client_ip of
        V6 _ \<Rightarrow> Some None
      | V4 octets \<Rightarrow>
          (case (if fst octets = 127 then fabricate else Some octets) of
             None \<Rightarrow> Some (Some payload)
           | Some ip \<Rightarrow> do {
               found \<leftarrow> find_opt_record payload;
               case found of
                 Some existing \<Rightarrow> do {
                   opts \<leftarrow> parse_options (opt_options existing);
                   let kept = filter (\<lambda>opt. opt_code opt \<noteq> ecs_code) opts;
                   rebuild_with_new_opt payload existing
                     (concat (map option_bytes kept)
                       @ option_bytes \<lparr>opt_code = ecs_code, opt_data = ecs_data ip\<rparr>) }
               | None \<Rightarrow>
                   rebuild_with_new_opt payload
                     \<lparr>rr_start = length payload, rr_end = length payload, udp_payload_size = 4096,
                      extended_rcode = 0, opt_version = 0, opt_flags = 0, opt_options = []\<rparr>
                     (option_bytes \<lparr>opt_code = ecs_code, opt_data = ecs_data ip\<rparr>) }))"

section \<open>No panic, and where the record lies\<close>

lemma skip_rr_returns: "\<exists>r. skip_rr b pos = Some r"
proof -
  obtain r where "skip_name b pos = Some r" using skip_name_returns by blast
  then show ?thesis by (auto simp: skip_rr_def run_simps Let_def split: option.splits)
qed

lemma skip_rr_eq:
  "skip_name b pos = Some (Some q) \<Longrightarrow> skip_rr b pos =
     Some (if length b < q + 10 + unat (be16 (b ! (q + 8)) (b ! (q + 9))) then None
           else Some (q + 10 + unat (be16 (b ! (q + 8)) (b ! (q + 9)))))"
  by (simp add: skip_rr_def run_simps Let_def ac_simps)

lemma skip_rr_nameE:
  assumes "skip_rr b pos = Some (Some e)"
  obtains q where "skip_name b pos = Some (Some q)"
    "e = q + 10 + unat (be16 (b ! (q + 8)) (b ! (q + 9)))" "e \<le> length b" "pos < q"
proof -
  from assms obtain q where q: "skip_name b pos = Some (Some q)"
    by (auto simp: skip_rr_def bind_eq_Some_conv split: option.splits)
  with assms that skip_name_bounds [OF q] show thesis
    by (simp add: skip_rr_eq split: if_splits)
qed

lemma skip_rr_bounds: "skip_rr b pos = Some (Some e) \<Longrightarrow> pos + 10 < e \<and> e \<le> length b"
  by (erule skip_rr_nameE) simp

lemma skip_rrs_returns: "\<exists>r. skip_rrs n b pos = Some r"
proof (induction n arbitrary: pos)
  case (Suc n)
  obtain r where "skip_rr b pos = Some r" using skip_rr_returns by blast
  with Suc show ?case by (auto split: option.splits)
qed simp

lemma skip_rrs_mono: "skip_rrs n b pos = Some (Some e) \<Longrightarrow> pos \<le> e"
proof (induction n arbitrary: pos)
  case (Suc n)
  then obtain p where "skip_rr b pos = Some (Some p)" "skip_rrs n b p = Some (Some e)"
    by (auto simp: bind_eq_Some_conv split: option.splits)
  with Suc.IH [of p] skip_rr_bounds [of b pos p] show ?case by simp
qed simp

lemma skip_questions_mono: "skip_questions n b pos = Some (Some e) \<Longrightarrow> pos \<le> e"
proof (induction n arbitrary: pos)
  case (Suc n)
  then obtain p where "skip_name b pos = Some (Some p)" "skip_questions n b (p + 4) = Some (Some e)"
    by (auto simp: bind_eq_Some_conv split: option.splits)
  with Suc.IH [of "p + 4"] skip_name_bounds [of b pos p] show ?case by simp
qed simp

text \<open>The OPT record that starts at \<open>pos\<close>, its name ending at \<open>q\<close> and itself at \<open>e\<close>.\<close>

definition opt_at :: "bytes \<Rightarrow> nat \<Rightarrow> nat \<Rightarrow> nat \<Rightarrow> edns_opt" where
  "opt_at b pos q e = \<lparr>rr_start = pos, rr_end = e, udp_payload_size = be16 (b ! (q + 2)) (b ! (q + 3)),
     extended_rcode = b ! (q + 4), opt_version = b ! (q + 5),
     opt_flags = be16 (b ! (q + 6)) (b ! (q + 7)), opt_options = take (e - (q + 10)) (drop (q + 10) b)\<rparr>"

lemma find_opt_Suc:
  assumes "skip_name b pos = Some (Some q)" "skip_rr b pos = Some (Some e)"
  shows "find_opt (Suc n) b pos =
    (if be16 (b ! q) (b ! (q + 1)) = 41 then Some (Some (opt_at b pos q e)) else find_opt n b e)"
proof -
  have e: "e = q + 10 + unat (be16 (b ! (q + 8)) (b ! (q + 9)))" "e \<le> length b"
    using assms by (auto elim: skip_rr_nameE)
  then have len: "q + 10 \<le> length b" by simp
  have ttl: "sub_slice b (q + 4) (q + 8) = Some [b ! (q + 4), b ! (q + 5), b ! (q + 6), b ! (q + 7)]"
    using len take2 [of "q + 4" b] take2 [of "q + 6" b]
      take_add [of 2 2 "drop (q + 4) b"]
    by (simp add: run_simps ac_simps)
  show ?thesis
    using assms(1) e len ttl by (simp add: run_simps Let_def ac_simps opt_at_def numeral_3_eq_3)
qed

lemma find_opt_Suc_None: "skip_rr b pos = Some None \<Longrightarrow> find_opt (Suc n) b pos = Some None"
proof -
  assume skip: "skip_rr b pos = Some None"
  show ?thesis
  proof (cases "skip_name b pos")
    case None
    then show ?thesis using skip_name_returns [of b pos] by simp
  next
    case (Some r)
    with skip show ?thesis
      by (cases r) (auto simp: skip_rr_eq run_simps Let_def ac_simps split: if_splits)
  qed
qed

lemma find_opt_cases:
  obtains "skip_rr b pos = Some None" "find_opt (Suc n) b pos = Some None"
  | q e where "skip_name b pos = Some (Some q)" "skip_rr b pos = Some (Some e)"
      "find_opt (Suc n) b pos =
        (if be16 (b ! q) (b ! (q + 1)) = 41 then Some (Some (opt_at b pos q e)) else find_opt n b e)"
proof -
  obtain r where "skip_rr b pos = Some r" using skip_rr_returns by blast
  with that find_opt_Suc find_opt_Suc_None show thesis
    by (cases r) (blast elim: skip_rr_nameE)+
qed

lemma find_opt_returns: "\<exists>r. find_opt n b pos = Some r"
proof (induction n arbitrary: pos)
  case (Suc n)
  show ?case by (rule find_opt_cases [of b pos n]) (use Suc in auto)
qed simp

lemma find_opt_record_returns: "\<exists>r. find_opt_record b = Some r"
proof -
  obtain r where r: "skip_questions (unat (be16 (b ! 4) (b ! 5))) b 12 = Some r"
    using skip_questions_returns by blast
  show ?thesis
  proof (cases "length b < 12 \<or> r = None")
    case True
    with r show ?thesis by (auto simp: find_opt_record_def run_simps)
  next
    case False
    then obtain pos where "r = Some pos" by auto
    moreover obtain r' where
      "skip_rrs (unat (be16 (b ! 6) (b ! 7)) + unat (be16 (b ! 8) (b ! 9))) b pos = Some r'"
      using skip_rrs_returns by blast
    moreover have "\<exists>r. find_opt (unat (be16 (b ! 10) (b ! 11))) b p = Some r" for p
      using find_opt_returns by blast
    ultimately show ?thesis using False r
      by (auto simp: find_opt_record_def run_simps split: option.splits)
  qed
qed

lemma find_opt_bounds:
  "find_opt n b pos = Some (Some opt) \<Longrightarrow>
     pos \<le> rr_start opt \<and> rr_start opt + 11 \<le> rr_end opt \<and> rr_end opt \<le> length b"
proof (induction n arbitrary: pos)
  case (Suc n)
  show ?case
  proof (rule find_opt_cases [of b pos n])
    fix q e
    assume "skip_rr b pos = Some (Some e)" and eq: "find_opt (Suc n) b pos =
      (if be16 (b ! q) (b ! (q + 1)) = 41 then Some (Some (opt_at b pos q e)) else find_opt n b e)"
    with Suc show ?thesis
      using skip_rr_bounds [of b pos e] by (fastforce simp: opt_at_def split: if_splits)
  qed (use Suc in auto)
qed simp

lemma parse_options_from_returns: "\<exists>r. parse_options_from b pos = Some r"
proof (induction b pos rule: parse_options_from.induct)
  case (1 b pos)
  then show ?case
    by (subst parse_options_from.simps) (force simp: run_simps)
qed

lemma rebuild_returns:
  "rr_start o1 \<le> rr_end o1 \<Longrightarrow> rr_end o1 \<le> length p \<Longrightarrow> \<exists>r. rebuild_with_new_opt p o1 new = Some r"
  by (auto simp: rebuild_with_new_opt_def run_simps Let_def)

section \<open>Walking depends only on the bytes walked over\<close>

definition agree :: "bytes \<Rightarrow> bytes \<Rightarrow> nat \<Rightarrow> nat \<Rightarrow> bool" where
  "agree b b' i j \<longleftrightarrow> j \<le> length b \<and> j \<le> length b' \<and> (\<forall>k. i \<le> k \<and> k < j \<longrightarrow> b' ! k = b ! k)"

lemma agree_sub: "agree b b' i j \<Longrightarrow> i \<le> i' \<Longrightarrow> j' \<le> j \<Longrightarrow> agree b b' i' j'"
  by (auto simp: agree_def)

lemma agree_nth: "agree b b' i j \<Longrightarrow> i \<le> k \<Longrightarrow> k < j \<Longrightarrow> b' ! k = b ! k"
  by (simp add: agree_def)

lemma skip_name_agree:
  "skip_name b pos = Some (Some e) \<Longrightarrow> agree b b' pos j \<Longrightarrow> e \<le> j \<Longrightarrow> skip_name b' pos = Some (Some e)"
  by (rule skip_name_local [of b pos e j]) (auto simp: agree_def)

lemma skip_rr_agree:
  assumes rr: "skip_rr b pos = Some (Some e)" and ag: "agree b b' pos j" and e: "e \<le> j"
  shows "skip_rr b' pos = Some (Some e)"
proof -
  from rr obtain q where q: "skip_name b pos = Some (Some q)" "pos < q"
    and end_eq: "e = q + 10 + unat (be16 (b ! (q + 8)) (b ! (q + 9)))"
    by (rule skip_rr_nameE)
  have name: "skip_name b' pos = Some (Some q)"
    by (rule skip_name_agree [OF q(1) ag]) (use e end_eq in simp)
  have same: "b' ! (q + 8) = b ! (q + 8)" "b' ! (q + 9) = b ! (q + 9)"
    using e end_eq q(2) by (auto intro!: agree_nth [OF ag])
  have "e \<le> length b'" using ag e by (simp add: agree_def)
  with end_eq same show ?thesis by (simp add: skip_rr_eq [OF name])
qed

lemma skip_rrs_agree:
  "skip_rrs n b pos = Some (Some e) \<Longrightarrow> agree b b' pos j \<Longrightarrow> e \<le> j \<Longrightarrow> skip_rrs n b' pos = Some (Some e)"
proof (induction n arbitrary: pos)
  case (Suc n)
  then obtain p where p: "skip_rr b pos = Some (Some p)" "skip_rrs n b p = Some (Some e)"
    by (auto simp: bind_eq_Some_conv split: option.splits)
  have "p \<le> e" "pos \<le> p" using skip_rrs_mono [OF p(2)] skip_rr_bounds [OF p(1)] by simp_all
  then have "skip_rr b' pos = Some (Some p)" "agree b b' p j"
    using Suc.prems(2,3) by (auto intro: skip_rr_agree [OF p(1)] agree_sub)
  with Suc.IH [OF p(2)] Suc.prems(3) show ?case by simp
qed simp

lemma skip_questions_agree:
  "skip_questions n b pos = Some (Some e) \<Longrightarrow> agree b b' pos j \<Longrightarrow> e \<le> j \<Longrightarrow>
     skip_questions n b' pos = Some (Some e)"
proof (induction n arbitrary: pos)
  case (Suc n)
  then obtain p where p: "skip_name b pos = Some (Some p)" "skip_questions n b (p + 4) = Some (Some e)"
    by (auto simp: bind_eq_Some_conv split: option.splits)
  have "p + 4 \<le> e" "pos \<le> p + 4"
    using skip_questions_mono [OF p(2)] skip_name_bounds [OF p(1)] by simp_all
  then have "skip_name b' pos = Some (Some p)" "agree b b' (p + 4) j"
    using Suc.prems(2,3) by (auto intro: skip_name_agree [OF p(1)] agree_sub)
  with Suc.IH [OF p(2)] Suc.prems(3) show ?case by simp
qed simp

section \<open>The record that is written\<close>

definition opt_bytes :: "edns_opt \<Rightarrow> bytes \<Rightarrow> bytes" where
  "opt_bytes opt new = [0] @ to_be16 41 @ to_be16 (udp_payload_size opt) @ [extended_rcode opt]
     @ [opt_version opt] @ to_be16 (opt_flags opt) @ to_be16 (of_nat (length new)) @ new"

definition with_options :: "edns_opt \<Rightarrow> nat \<Rightarrow> bytes \<Rightarrow> edns_opt" where
  "with_options opt pos new =
     opt\<lparr>rr_start := pos, rr_end := pos + 11 + length new, opt_options := new\<rparr>"

lemma find_opt_here:
  assumes at: "drop pos b = opt_bytes opt new @ rest" and new: "length new < 65536"
  shows "find_opt (Suc n) b pos = Some (Some (with_options opt pos new))"
proof -
  let ?len = "of_nat (length new) :: u16"
  have name: "skip_name b pos = Some (Some (pos + 1))"
    by (rule skip_name_root [where rest = "tl (drop pos b)"]) (simp add: at opt_bytes_def)
  have len: "length b = pos + (11 + length new + length rest)"
  proof -
    have "length (drop pos b) = 11 + length new + length rest"
      unfolding at by (simp add: opt_bytes_def)
    then show ?thesis by simp
  qed
  define q where "q = pos + 1"
  have nth: "b ! (q + i) = tl (opt_bytes opt new) ! i" if "i < 10 + length new" for i
    using nth_of_drop [OF at, of "1 + i"] that len by (simp add: opt_bytes_def q_def)
  have fixed: "b ! q = 0" "b ! (q + 1) = 41"
    "b ! (q + 2) = ucast (drop_bit 8 (udp_payload_size opt))"
    "b ! (q + 3) = ucast (udp_payload_size opt)"
    "b ! (q + 4) = extended_rcode opt" "b ! (q + 5) = opt_version opt"
    "b ! (q + 6) = ucast (drop_bit 8 (opt_flags opt))" "b ! (q + 7) = ucast (opt_flags opt)"
    "b ! (q + 8) = ucast (drop_bit 8 ?len)" "b ! (q + 9) = ucast ?len"
    using nth [of 0] nth [of 1] nth [of 2] nth [of 3] nth [of 4] nth [of 5] nth [of 6] nth [of 7]
      nth [of 8] nth [of 9]
    by (simp_all add: opt_bytes_def to_be16_def)
  have skip: "skip_rr b pos = Some (Some (pos + 11 + length new))"
    unfolding skip_rr_eq [OF name [folded q_def]] fixed using len new by (simp add: q_def)
  have opts: "take (length new) (drop (pos + 11) b) = new"
    unfolding drop_plus [of pos 11] at by (simp add: opt_bytes_def)
  have "be16 0 41 = 41" by (simp add: be16_def)
  then show ?thesis
    unfolding find_opt_Suc [OF name [folded q_def] skip] opt_at_def fixed
    using opts by (cases opt) (simp add: with_options_def q_def ac_simps)
qed

lemma find_opt_replace:
  assumes "find_opt n b pos = Some (Some opt)" "agree b b' pos (rr_start opt)"
    "drop (rr_start opt) b' = opt_bytes opt' new @ rest" "length new < 65536"
  shows "find_opt n b' pos = Some (Some (with_options opt' (rr_start opt) new))"
  using assms
proof (induction n arbitrary: pos)
  case (Suc n)
  show ?case
  proof (rule find_opt_cases [of b pos n])
    assume "find_opt (Suc n) b pos = Some None"
    with Suc.prems show ?thesis by simp
  next
    fix q e
    assume q: "skip_name b pos = Some (Some q)" and rr: "skip_rr b pos = Some (Some e)"
      and eq: "find_opt (Suc n) b pos =
      (if be16 (b ! q) (b ! (q + 1)) = 41 then Some (Some (opt_at b pos q e)) else find_opt n b e)"
    show ?thesis
    proof (cases "be16 (b ! q) (b ! (q + 1)) = 41")
      case True
      with eq Suc.prems(1) have "rr_start opt = pos" by (auto simp: opt_at_def)
      with Suc.prems(3,4) show ?thesis by (metis find_opt_here)
    next
      case False
      with eq Suc.prems(1) have rest: "find_opt n b e = Some (Some opt)" by simp
      then have e: "e \<le> rr_start opt" using find_opt_bounds by blast
      have "q + 10 \<le> e" "pos < q" using rr q by (auto elim: skip_rr_nameE)
      have name: "skip_name b' pos = Some (Some q)"
        by (rule skip_name_agree [OF q Suc.prems(2)]) (use \<open>q + 10 \<le> e\<close> e in simp)
      have skip: "skip_rr b' pos = Some (Some e)"
        by (rule skip_rr_agree [OF rr Suc.prems(2) e])
      have "b' ! q = b ! q" "b' ! (q + 1) = b ! (q + 1)" and ag: "agree b b' e (rr_start opt)"
        using Suc.prems(2) e \<open>q + 10 \<le> e\<close> \<open>pos < q\<close> by (auto intro!: agree_nth intro: agree_sub)
      with False have "find_opt (Suc n) b' pos = find_opt n b' e"
        by (simp only: find_opt_Suc [OF name skip] if_False)
      with Suc.IH [OF rest ag Suc.prems(3,4)] show ?thesis by simp
    qed
  qed
qed simp

lemma find_opt_append:
  assumes "find_opt n b pos = Some None" "skip_rrs n b pos = Some (Some e)" "agree b b' pos e"
    "drop e b' = opt_bytes opt' new @ rest" "length new < 65536"
  shows "find_opt (Suc n) b' pos = Some (Some (with_options opt' e new))"
  using assms
proof (induction n arbitrary: pos)
  case 0
  then show ?case by (metis find_opt_here option.inject skip_rrs.simps(1))
next
  case (Suc n)
  then obtain p where rr: "skip_rr b pos = Some (Some p)" and rest: "skip_rrs n b p = Some (Some e)"
    by (auto simp: bind_eq_Some_conv split: option.splits)
  from rr obtain q where q: "skip_name b pos = Some (Some q)" "pos < q" "q + 10 \<le> p"
    by (rule skip_rr_nameE) simp
  have p: "p \<le> e" using skip_rrs_mono [OF rest] .
  have other: "be16 (b ! q) (b ! (q + 1)) \<noteq> 41" "find_opt n b p = Some None"
    using Suc.prems(1) find_opt_Suc [OF q(1) rr, of n] by (auto split: if_splits)
  have name: "skip_name b' pos = Some (Some q)" and skip: "skip_rr b' pos = Some (Some p)"
    using q rr Suc.prems(3) p by (auto intro: skip_name_agree skip_rr_agree)
  have "b' ! q = b ! q" "b' ! (q + 1) = b ! (q + 1)" and ag: "agree b b' p e"
    using Suc.prems(3) p q by (auto intro!: agree_nth intro: agree_sub)
  with other have "find_opt (Suc (Suc n)) b' pos = find_opt (Suc n) b' p"
    by (simp only: find_opt_Suc [OF name skip] if_False)
  with Suc.IH [OF other(2) rest ag Suc.prems(4,5)] show ?case by simp
qed

section \<open>What \<open>set_ecs_option\<close> writes\<close>

lemma rebuild_existing:
  assumes "rr_start opt < rr_end opt" "rr_end opt \<le> length p"
  shows "rebuild_with_new_opt p opt new =
    Some (Some (take (rr_start opt) p @ opt_bytes opt new @ drop (rr_end opt) p))"
  using assms by (simp add: rebuild_with_new_opt_def run_simps Let_def opt_bytes_def)

lemma find_opt_record_unfold:
  assumes "12 \<le> length b" "skip_questions (unat (be16 (b ! 4) (b ! 5))) b 12 = Some (Some p1)"
    "skip_rrs (unat (be16 (b ! 6) (b ! 7)) + unat (be16 (b ! 8) (b ! 9))) b p1 = Some (Some p2)"
  shows "find_opt_record b = find_opt (unat (be16 (b ! 10) (b ! 11))) b p2"
  using assms by (simp add: find_opt_record_def run_simps)

lemma find_opt_recordE:
  assumes "find_opt_record b = Some (Some opt)"
  obtains p1 p2 where "12 \<le> length b"
    "skip_questions (unat (be16 (b ! 4) (b ! 5))) b 12 = Some (Some p1)"
    "skip_rrs (unat (be16 (b ! 6) (b ! 7)) + unat (be16 (b ! 8) (b ! 9))) b p1 = Some (Some p2)"
    "find_opt (unat (be16 (b ! 10) (b ! 11))) b p2 = Some (Some opt)"
  using assms by (auto simp: find_opt_record_def run_simps bind_eq_Some_conv split: option.splits if_splits)

lemma find_opt_record_bounds:
  assumes "find_opt_record b = Some (Some opt)"
  shows "12 \<le> rr_start opt \<and> rr_start opt + 11 \<le> rr_end opt \<and> rr_end opt \<le> length b"
  using assms
  by (elim find_opt_recordE) (force dest: find_opt_bounds skip_rrs_mono skip_questions_mono)

text \<open>Replacing the record: the header and everything before it are as they were, so the scan of
  the new message reaches the new record.\<close>

lemma find_opt_record_replaced:
  assumes found: "find_opt_record p = Some (Some opt)" and new: "length new < 65536"
  defines "out \<equiv> take (rr_start opt) p @ opt_bytes opt new @ drop (rr_end opt) p"
  shows "find_opt_record out = Some (Some (with_options opt (rr_start opt) new))"
proof -
  obtain p1 p2 where p: "12 \<le> length p"
    "skip_questions (unat (be16 (p ! 4) (p ! 5))) p 12 = Some (Some p1)"
    "skip_rrs (unat (be16 (p ! 6) (p ! 7)) + unat (be16 (p ! 8) (p ! 9))) p p1 = Some (Some p2)"
    "find_opt (unat (be16 (p ! 10) (p ! 11))) p p2 = Some (Some opt)"
    using found by (rule find_opt_recordE)
  have s: "12 \<le> rr_start opt" "rr_start opt \<le> length p"
    using find_opt_record_bounds [OF found] by auto
  have ag: "agree p out i (rr_start opt)" for i
    using s by (auto simp: agree_def out_def nth_append)
  have ord: "p1 \<le> p2" "p2 \<le> rr_start opt"
    using skip_rrs_mono [OF p(3)] find_opt_bounds [OF p(4)] by auto
  have hd: "out ! i = p ! i" if "i < 12" for i
    using agree_nth [OF ag, of 0 i] that s by simp
  have at: "drop (rr_start opt) out = opt_bytes opt new @ drop (rr_end opt) p"
    using s by (simp add: out_def)
  have "skip_questions (unat (be16 (out ! 4) (out ! 5))) out 12 = Some (Some p1)"
    using skip_questions_agree [OF p(2) ag] ord by (simp add: hd)
  moreover have "skip_rrs (unat (be16 (out ! 6) (out ! 7)) + unat (be16 (out ! 8) (out ! 9))) out p1
      = Some (Some p2)"
    using skip_rrs_agree [OF p(3) ag] ord by (simp add: hd)
  moreover have "find_opt (unat (be16 (out ! 10) (out ! 11))) out p2 =
      Some (Some (with_options opt (rr_start opt) new))"
    using find_opt_replace [OF p(4) ag at new] by (simp add: hd)
  moreover have "12 \<le> length out" using s by (simp add: out_def)
  ultimately show ?thesis using find_opt_record_unfold by metis
qed

text \<open>A message whose sections end exactly at its last byte.\<close>

definition complete_message :: "bytes \<Rightarrow> bool" where
  "complete_message b \<longleftrightarrow> 12 \<le> length b \<and>
     (case skip_questions (unat (be16 (b ! 4) (b ! 5))) b 12 of
        Some (Some p1) \<Rightarrow>
          (case skip_rrs (unat (be16 (b ! 6) (b ! 7)) + unat (be16 (b ! 8) (b ! 9))) b p1 of
             Some (Some p2) \<Rightarrow> skip_rrs (unat (be16 (b ! 10) (b ! 11))) b p2 = Some (Some (length b))
           | _ \<Rightarrow> False)
      | _ \<Rightarrow> False)"

lemma complete_messageE:
  assumes "complete_message b"
  obtains p1 p2 where "12 \<le> length b"
    "skip_questions (unat (be16 (b ! 4) (b ! 5))) b 12 = Some (Some p1)"
    "skip_rrs (unat (be16 (b ! 6) (b ! 7)) + unat (be16 (b ! 8) (b ! 9))) b p1 = Some (Some p2)"
    "skip_rrs (unat (be16 (b ! 10) (b ! 11))) b p2 = Some (Some (length b))"
  using assms unfolding complete_message_def by (auto split: option.splits)

definition synthetic_opt :: "nat \<Rightarrow> edns_opt" where
  "synthetic_opt n = \<lparr>rr_start = n, rr_end = n, udp_payload_size = 4096, extended_rcode = 0,
     opt_version = 0, opt_flags = 0, opt_options = []\<rparr>"

definition bump_arcount :: "bytes \<Rightarrow> bytes" where
  "bump_arcount p = p[10 := ucast (drop_bit 8 (be16 (p ! 10) (p ! 11) + 1)),
     11 := ucast ((be16 (p ! 10) (p ! 11) + 1) AND 0xFF)]"

lemma rebuild_synthetic:
  assumes "12 \<le> length p"
  shows "rebuild_with_new_opt p (synthetic_opt (length p)) new =
    Some (Some (bump_arcount p @ opt_bytes (synthetic_opt (length p)) new))"
proof -
  let ?w = "be16 (p ! 10) (p ! 11) + 1"
  have "(p @ rest)[10 := a, 11 := b] = p[10 := a, 11 := b] @ rest" for a b rest
    using assms by (simp add: list_update_append)
  then show ?thesis
    using assms by (auto simp: rebuild_with_new_opt_def run_simps Let_def opt_bytes_def bump_arcount_def
        synthetic_opt_def nth_append)
qed

lemma find_opt_record_appended:
  assumes complete: "complete_message p" and none: "find_opt_record p = Some None"
    and ar: "be16 (p ! 10) (p ! 11) \<noteq> -1" and new: "length new < 65536"
  defines "out \<equiv> bump_arcount p @ opt_bytes (synthetic_opt (length p)) new"
  shows "find_opt_record out = Some (Some (with_options (synthetic_opt (length p)) (length p) new))"
    "be16 (out ! 10) (out ! 11) = be16 (p ! 10) (p ! 11) + 1"
proof -
  let ?w = "be16 (p ! 10) (p ! 11)"
  obtain p1 p2 where p: "12 \<le> length p"
    "skip_questions (unat (be16 (p ! 4) (p ! 5))) p 12 = Some (Some p1)"
    "skip_rrs (unat (be16 (p ! 6) (p ! 7)) + unat (be16 (p ! 8) (p ! 9))) p p1 = Some (Some p2)"
    "skip_rrs (unat ?w) p p2 = Some (Some (length p))"
    using complete by (rule complete_messageE)
  have nofind: "find_opt (unat ?w) p p2 = Some None"
    using none find_opt_record_unfold [OF p(1-3)] by simp
  have ord: "12 \<le> p1" "p1 \<le> p2" "p2 \<le> length p"
    using skip_questions_mono [OF p(2)] skip_rrs_mono [OF p(3)] skip_rrs_mono [OF p(4)] by auto
  have out: "out ! i = p ! i" if "i < length p" "i \<noteq> 10" "i \<noteq> 11" for i
    using that by (simp add: out_def bump_arcount_def nth_append)
  have "out ! 10 = ucast (drop_bit 8 (?w + 1))" "out ! 11 = ucast ((?w + 1) AND 0xFF)"
    using p(1) by (simp_all add: out_def bump_arcount_def nth_append)
  then show count: "be16 (out ! 10) (out ! 11) = ?w + 1" by simp
  have "?w + 1 \<noteq> 0" using ar by (metis add_eq_0_iff2)
  then have unat: "unat (?w + 1) = Suc (unat ?w)" by (metis unatSuc add.commute)
  have ag: "agree p out i (length p)" if "12 \<le> i" for i
    using that out by (auto simp: agree_def out_def bump_arcount_def)
  have "skip_questions (unat (be16 (out ! 4) (out ! 5))) out 12 = Some (Some p1)"
    using skip_questions_agree [OF p(2) ag] ord p(1) by (simp add: out)
  moreover have "skip_rrs (unat (be16 (out ! 6) (out ! 7)) + unat (be16 (out ! 8) (out ! 9))) out p1
      = Some (Some p2)"
    using skip_rrs_agree [OF p(3) ag] ord p(1) by (simp add: out)
  moreover have "find_opt (unat (be16 (out ! 10) (out ! 11))) out p2 =
      Some (Some (with_options (synthetic_opt (length p)) (length p) new))"
    unfolding count unat using ord
    by (intro find_opt_append [OF nofind p(4) ag _ new, where rest = "[]"])
      (simp_all add: out_def bump_arcount_def)
  moreover have "12 \<le> length out" using p(1) by (simp add: out_def bump_arcount_def)
  ultimately show "find_opt_record out =
      Some (Some (with_options (synthetic_opt (length p)) (length p) new))"
    using find_opt_record_unfold by metis
qed

section \<open>Options are read back as written\<close>

lemma length_option_bytes [simp]: "length (option_bytes opt) = 4 + length (opt_data opt)"
  by (simp add: option_bytes_def)

lemma parse_options_from_end: "length b < pos + 4 \<Longrightarrow> parse_options_from b pos = Some []"
  by (subst parse_options_from.simps) simp

lemma parse_options_from_step:
  assumes "pos + 4 + unat (be16 (b ! (pos + 2)) (b ! (pos + 3))) \<le> length b"
  shows "parse_options_from b pos =
    map_option (\<lambda>os. \<lparr>opt_code = be16 (b ! pos) (b ! (pos + 1)),
        opt_data = take (unat (be16 (b ! (pos + 2)) (b ! (pos + 3)))) (drop (pos + 4) b)\<rparr> # os)
      (parse_options_from b (pos + 4 + unat (be16 (b ! (pos + 2)) (b ! (pos + 3)))))"
  using assms
  by (subst parse_options_from.simps) (simp add: run_simps map_option_case numeral_3_eq_3
      split: option.splits)

lemma parse_options_from_stop:
  "length b < pos + 4 + unat (be16 (b ! (pos + 2)) (b ! (pos + 3))) \<Longrightarrow>
     parse_options_from b pos = Some []"
  by (cases "pos + 4 \<le> length b"; subst parse_options_from.simps)
    (simp_all add: run_simps numeral_3_eq_3)

lemma parse_option_bytes:
  assumes "list_all (\<lambda>opt. length (opt_data opt) < 65536) os" "drop pos b = concat (map option_bytes os)"
    "pos \<le> length b"
  shows "parse_options_from b pos = Some os"
  using assms
proof (induction os arbitrary: pos)
  case Nil
  then have "length b \<le> pos" by simp
  then show ?case by (simp add: parse_options_from_end)
next
  case (Cons opt os)
  let ?c = "opt_code opt" and ?d = "opt_data opt"
  have at: "drop pos b = option_bytes opt @ concat (map option_bytes os)"
    using Cons.prems(2) by simp
  have nth: "b ! (pos + i) = option_bytes opt ! i" if "i < 4 + length ?d" for i
    using nth_of_drop [OF at, of i] that Cons.prems(3) by simp
  have code: "b ! pos = ucast (drop_bit 8 ?c)" "b ! (pos + 1) = ucast ?c"
    using nth [of 0] nth [of 1] by (simp_all add: option_bytes_def to_be16_def)
  have len: "b ! (pos + 2) = ucast (drop_bit 8 (of_nat (length ?d) :: u16))"
    "b ! (pos + 3) = ucast (of_nat (length ?d) :: u16)"
    using nth [of 2] nth [of 3] by (simp_all add: option_bytes_def to_be16_def)
  have d: "length ?d < 65536" using Cons.prems(1) by simp
  have "length (drop pos b) = 4 + length ?d + length (concat (map option_bytes os))"
    unfolding at by simp
  then have lb: "length b = pos + 4 + length ?d + length (concat (map option_bytes os))"
    using Cons.prems(3) by simp
  have data: "take (length ?d) (drop (pos + 4) b) = ?d"
    unfolding drop_plus [of pos 4] at by (simp add: option_bytes_def to_be16_def)
  have "drop (pos + 4 + length ?d) b = concat (map option_bytes os)"
    unfolding add.assoc drop_plus [of pos] at by simp
  then have "parse_options_from b (pos + 4 + length ?d) = Some os"
    using Cons.IH Cons.prems(1) lb by simp
  moreover have "unat (be16 (b ! (pos + 2)) (b ! (pos + 3))) = length ?d"
    unfolding len using d by simp
  ultimately show ?case
    using parse_options_from_step [of pos b] lb data unfolding code by simp
qed

lemma parse_options_from_size:
  assumes "parse_options_from b pos = Some os"
  shows "list_all (\<lambda>opt. length (opt_data opt) < 65536) os \<and>
    length (concat (map option_bytes os)) \<le> length b - pos"
  using assms
proof (induction b pos arbitrary: os rule: parse_options_from.induct)
  case (1 b pos)
  let ?n = "unat (be16 (b ! (pos + 2)) (b ! (pos + 3)))"
  show ?case
  proof (cases "pos + 4 + ?n \<le> length b")
    case True
    then obtain os' where os: "parse_options_from b (pos + 4 + ?n) = Some os'"
      "os = \<lparr>opt_code = be16 (b ! pos) (b ! (pos + 1)), opt_data = take ?n (drop (pos + 4) b)\<rparr> # os'"
      using 1(2) parse_options_from_step [of pos b] by auto
    have "list_all (\<lambda>opt. length (opt_data opt) < 65536) os' \<and>
        length (concat (map option_bytes os')) \<le> length b - (pos + 4 + ?n)"
      using True by (intro 1(1) [OF _ _ _ _ _ os(1)]) (simp_all add: run_simps numeral_3_eq_3)
    moreover have "length (take ?n (drop (pos + 4) b)) = ?n" using True by simp
    moreover have "?n < 65536" by simp
    ultimately show ?thesis using True os(2) by auto
  next
    case False
    then have "os = []" using 1(2) parse_options_from_stop [of b pos] by simp
    then show ?thesis by simp
  qed
qed

lemma parse_kept_options:
  fixes P :: "edns_option \<Rightarrow> bool" and ip :: ipv4
  assumes "parse_options b = Some os" "length b + 11 < 65536"
  defines "new \<equiv> concat (map option_bytes (filter P os))
    @ option_bytes \<lparr>opt_code = ecs_code, opt_data = ecs_data ip\<rparr>"
  shows "length new < 65536"
    "parse_options new = Some (filter P os @ [\<lparr>opt_code = ecs_code, opt_data = ecs_data ip\<rparr>])"
proof -
  obtain a b' c d where ip: "ip = (a, b', c, d)" by (cases ip)
  have os: "list_all (\<lambda>opt. length (opt_data opt) < 65536) os"
    "length (concat (map option_bytes os)) \<le> length b"
    using parse_options_from_size [OF assms(1) [unfolded parse_options_def]] by simp_all
  have "length (concat (map option_bytes (filter P os))) \<le> length (concat (map option_bytes os))"
    by (induction os) auto
  with os(2) assms(2) show "length new < 65536" by (simp add: new_def ip)
  let ?os = "filter P os @ [\<lparr>opt_code = ecs_code, opt_data = ecs_data ip\<rparr>]"
  have "list_all (\<lambda>opt. length (opt_data opt) < 65536) ?os"
    using os(1) by (auto simp: list_all_iff ip)
  moreover have "new = concat (map option_bytes ?os)" by (simp add: new_def)
  ultimately show "parse_options new = Some ?os"
    unfolding parse_options_def by (intro parse_option_bytes) simp_all
qed

lemma find_opt_options_size:
  "find_opt n b pos = Some (Some opt) \<Longrightarrow> length (opt_options opt) + 11 \<le> length b"
proof (induction n arbitrary: pos)
  case (Suc n)
  show ?case
  proof (rule find_opt_cases [of b pos n])
    fix q e
    assume q: "skip_name b pos = Some (Some q)" "skip_rr b pos = Some (Some e)"
      and eq: "find_opt (Suc n) b pos =
      (if be16 (b ! q) (b ! (q + 1)) = 41 then Some (Some (opt_at b pos q e)) else find_opt n b e)"
    have "pos < q" "q + 10 \<le> e" "e \<le> length b" using q by (auto elim: skip_rr_nameE)
    with Suc eq show ?thesis by (fastforce simp: opt_at_def split: if_splits)
  qed (use Suc in auto)
qed simp

lemma find_opt_record_options_size:
  "find_opt_record b = Some (Some opt) \<Longrightarrow> length (opt_options opt) + 11 \<le> length b"
  by (elim find_opt_recordE) (rule find_opt_options_size)

section \<open>Properties\<close>

lemma set_ecs_option_returns: "\<exists>r. set_ecs_option p ip fabricate = Some r"
proof (cases ip)
  case (V4 octets)
  show ?thesis
  proof (cases "if fst octets = 127 then fabricate else Some octets")
    case None
    then show ?thesis using V4 by (simp add: set_ecs_option_def)
  next
    case (Some real)
    obtain found where found: "find_opt_record p = Some found" using find_opt_record_returns by blast
    show ?thesis
    proof (cases found)
      case None
      have "\<exists>r. rebuild_with_new_opt p (synthetic_opt (length p)) new = Some r" for new
        by (rule rebuild_returns) (simp_all add: synthetic_opt_def)
      with Some V4 found None show ?thesis by (simp add: set_ecs_option_def synthetic_opt_def)
    next
      case (Some opt)
      obtain os where "parse_options (opt_options opt) = Some os"
        unfolding parse_options_def using parse_options_from_returns by blast
      moreover have "\<exists>r. rebuild_with_new_opt p opt new = Some r" for new
        using find_opt_record_bounds [of p opt] found Some by (intro rebuild_returns) auto
      ultimately show ?thesis using \<open>_ = Some real\<close> V4 found Some
        by (simp add: set_ecs_option_def)
    qed
  qed
qed (simp add: set_ecs_option_def)

text \<open>The address whose /24 is announced: a loopback client is replaced by the fabricated one.\<close>

definition announced :: "ipv4 \<Rightarrow> ipv4 option \<Rightarrow> ipv4 option" where
  "announced octets fabricate = (if fst octets = 127 then fabricate else Some octets)"

lemma set_ecs_option_announced:
  "set_ecs_option p (V4 octets) fabricate =
     (case announced octets fabricate of
        None \<Rightarrow> Some (Some p)
      | Some ip \<Rightarrow> do {
          found \<leftarrow> find_opt_record p;
          case found of
            Some opt \<Rightarrow> do {
              os \<leftarrow> parse_options (opt_options opt);
              rebuild_with_new_opt p opt (concat (map option_bytes (filter (\<lambda>o'. opt_code o' \<noteq> ecs_code) os))
                @ option_bytes \<lparr>opt_code = ecs_code, opt_data = ecs_data ip\<rparr>) }
          | None \<Rightarrow> rebuild_with_new_opt p (synthetic_opt (length p))
              (option_bytes \<lparr>opt_code = ecs_code, opt_data = ecs_data ip\<rparr>) })"
  by (simp add: set_ecs_option_def announced_def Let_def synthetic_opt_def cong: option.case_cong)

lemma length_opt_bytes [simp]: "length (opt_bytes opt new) = 11 + length new"
  by (simp add: opt_bytes_def)

lemma drop_with_options:
  assumes "s \<le> length p"
  shows "drop (rr_end (with_options opt s new)) (take s p @ opt_bytes opt new @ rest) = rest"
  using assms by (simp add: with_options_def)

text \<open>C13: Replacing the client subnet of a message that has an OPT record keeps every byte before and
  after the record, its size, flags and other options in order, and ends with one ECS option
  (family 1, source prefix 24, scope 0) that holds the first three octets of the announced
  address; the library's own readers find exactly that in the result.\<close>

theorem set_ecs_replaces:
  assumes "announced octets fabricate = Some (a, b, c, d)"
    and "find_opt_record p = Some (Some opt)"
    and "parse_options (opt_options opt) = Some os"
    and "length p < 65536"
  shows "\<exists>out opt'. set_ecs_option p (V4 octets) fabricate = Some (Some out)
    \<and> find_opt_record out = Some (Some opt')
    \<and> parse_options (opt_options opt') = Some (filter (\<lambda>o'. opt_code o' \<noteq> 8) os
        @ [\<lparr>opt_code = 8, opt_data = [0, 1, 24, 0, a, b, c]\<rparr>])
    \<and> udp_payload_size opt' = udp_payload_size opt \<and> opt_flags opt' = opt_flags opt
    \<and> extended_rcode opt' = extended_rcode opt \<and> opt_version opt' = opt_version opt
    \<and> rr_start opt' = rr_start opt
    \<and> take (rr_start opt) out = take (rr_start opt) p
    \<and> drop (rr_end opt') out = drop (rr_end opt) p"
proof -
  define new where "new = concat (map option_bytes (filter (\<lambda>o'. opt_code o' \<noteq> ecs_code) os))
    @ option_bytes \<lparr>opt_code = ecs_code, opt_data = ecs_data (a, b, c, d)\<rparr>"
  let ?out = "take (rr_start opt) p @ opt_bytes opt new @ drop (rr_end opt) p"
  let ?opt = "with_options opt (rr_start opt) new"
  have bounds: "rr_start opt < rr_end opt" "rr_end opt \<le> length p"
    using find_opt_record_bounds [OF assms(2)] by auto
  have "length (opt_options opt) + 11 < 65536"
    using find_opt_record_options_size [OF assms(2)] assms(4) by simp
  note new = parse_kept_options [OF assms(3) this, of "\<lambda>o'. opt_code o' \<noteq> ecs_code" "(a, b, c, d)",
      folded new_def]
  have "set_ecs_option p (V4 octets) fabricate = Some (Some ?out)"
    using assms(1-3) rebuild_existing [OF bounds, of new]
    by (simp add: set_ecs_option_announced new_def)
  moreover have "find_opt_record ?out = Some (Some ?opt)"
    by (rule find_opt_record_replaced [OF assms(2) new(1)])
  moreover have "drop (rr_end ?opt) ?out = drop (rr_end opt) p"
    using bounds by (intro drop_with_options) simp
  ultimately show ?thesis
    using new(2) bounds by (intro exI [of _ ?out] exI [of _ ?opt]) (simp add: with_options_def)
qed

text \<open>A query for \<open>a.\<close> with an OPT record that holds a cookie and an old subnet.\<close>

definition edns_query :: bytes where
  "edns_query = [0x12, 0x34, 1, 0, 0, 1, 0, 0, 0, 0, 0, 1, 1, 97, 0, 0, 1, 0, 1,
     0, 0, 41, 4, 208, 0, 0, 128, 0, 0, 17, 0, 10, 0, 2, 7, 7, 0, 8, 0, 7, 0, 1, 24, 0, 9, 9, 9]"

lemma edns_query_opt:
  "find_opt_record edns_query = Some (Some \<lparr>rr_start = 19, rr_end = 47, udp_payload_size = 1232,
     extended_rcode = 0, opt_version = 0, opt_flags = 0x8000,
     opt_options = [0, 10, 0, 2, 7, 7, 0, 8, 0, 7, 0, 1, 24, 0, 9, 9, 9]\<rparr>)"
  by code_simp

lemma edns_query_options:
  "parse_options [0, 10, 0, 2, 7, 7, 0, 8, 0, 7, 0, 1, 24, 0, 9, 9, 9] =
     Some [\<lparr>opt_code = 10, opt_data = [7, 7]\<rparr>, \<lparr>opt_code = 8, opt_data = [0, 1, 24, 0, 9, 9, 9]\<rparr>]"
  by code_simp

theorem set_ecs_replaces_witness:
  "\<exists>out opt'. set_ecs_option edns_query (V4 (203, 0, 113, 77)) None = Some (Some out)
    \<and> find_opt_record out = Some (Some opt')
    \<and> parse_options (opt_options opt') = Some [\<lparr>opt_code = 10, opt_data = [7, 7]\<rparr>,
        \<lparr>opt_code = 8, opt_data = [0, 1, 24, 0, 203, 0, 113]\<rparr>]"
proof -
  have "announced (203, 0, 113, 77) None = Some (203, 0, 113, 77)" by (simp add: announced_def)
  moreover have "length edns_query < 65536" by (simp add: edns_query_def)
  ultimately show ?thesis
    using set_ecs_replaces [OF _ edns_query_opt, of "(203, 0, 113, 77)" None 203 0 113 77]
      edns_query_options
    by fastforce
qed

text \<open>A message without an OPT record, whose sections end at its last byte and whose
  additional section has room for one more record, gets one appended: the count goes up by
  one, every other byte is kept, and the readers find the new record with its one ECS option.\<close>

theorem set_ecs_appends:
  assumes "announced octets fabricate = Some (a, b, c, d)"
    and "find_opt_record p = Some None" "complete_message p" "be16 (p ! 10) (p ! 11) \<noteq> -1"
  shows "\<exists>out opt'. set_ecs_option p (V4 octets) fabricate = Some (Some out)
    \<and> find_opt_record out = Some (Some opt')
    \<and> rr_start opt' = length p \<and> rr_end opt' = length out \<and> udp_payload_size opt' = 4096
    \<and> parse_options (opt_options opt') = Some [\<lparr>opt_code = 8, opt_data = [0, 1, 24, 0, a, b, c]\<rparr>]
    \<and> be16 (out ! 10) (out ! 11) = be16 (p ! 10) (p ! 11) + 1
    \<and> (\<forall>i. i < length p \<longrightarrow> i \<noteq> 10 \<longrightarrow> i \<noteq> 11 \<longrightarrow> out ! i = p ! i)"
proof -
  define new where "new = option_bytes \<lparr>opt_code = ecs_code, opt_data = ecs_data (a, b, c, d)\<rparr>"
  let ?o = "synthetic_opt (length p)"
  let ?out = "bump_arcount p @ opt_bytes ?o new" and ?opt = "with_options ?o (length p) new"
  have len: "length new = 11" by (simp add: new_def)
  then have found: "find_opt_record ?out = Some (Some ?opt)"
      "be16 (?out ! 10) (?out ! 11) = be16 (p ! 10) (p ! 11) + 1"
    using find_opt_record_appended [OF assms(3,2,4), of new] by simp_all
  have "parse_options new = Some [\<lparr>opt_code = ecs_code, opt_data = ecs_data (a, b, c, d)\<rparr>]"
    unfolding parse_options_def by (rule parse_option_bytes) (simp_all add: new_def)
  moreover have "12 \<le> length p" using assms(3) by (simp add: complete_message_def)
  then have "set_ecs_option p (V4 octets) fabricate = Some (Some ?out)"
    using assms(1,2) rebuild_synthetic [of p new]
    by (simp add: set_ecs_option_announced new_def)
  moreover have "?out ! i = p ! i" if "i < length p" "i \<noteq> 10" "i \<noteq> 11" for i
    using that by (simp add: bump_arcount_def nth_append)
  ultimately show ?thesis
    using found len
    by (intro exI [of _ ?out] exI [of _ ?opt])
      (simp add: with_options_def synthetic_opt_def bump_arcount_def opt_bytes_def)
qed

theorem set_ecs_appends_witness:
  "\<exists>out opt'. set_ecs_option (build_lookup_query 7 (lit ''a.b'')) (V4 (127, 0, 0, 1)) (Some (10, 1, 2, 3))
      = Some (Some out)
    \<and> find_opt_record out = Some (Some opt')
    \<and> parse_options (opt_options opt') = Some [\<lparr>opt_code = 8, opt_data = [0, 1, 24, 0, 10, 1, 2]\<rparr>]"
proof -
  let ?p = "build_lookup_query 7 (lit ''a.b'')"
  have "announced (127, 0, 0, 1) (Some (10, 1, 2, 3)) = Some (10, 1, 2, 3)"
    by (simp add: announced_def)
  moreover have "find_opt_record ?p = Some None" by code_simp
  moreover have "complete_message ?p" by code_simp
  moreover have "be16 (?p ! 10) (?p ! 11) \<noteq> -1" by code_simp
  ultimately show ?thesis
    using set_ecs_appends [of "(127, 0, 0, 1)" "Some (10, 1, 2, 3)" 10 1 2 3 ?p] by fast
qed

text \<open>Rewriting the client subnet never aborts the process, whatever the message; an IPv6
  client gets no answer from it, and a loopback client without a fabricated address gets the
  message unchanged.\<close>

theorem set_ecs_total:
  "(\<exists>r. set_ecs_option p ip fabricate = Some r) \<and> set_ecs_option p (V6 v6) fabricate = Some None
   \<and> set_ecs_option p (V4 (127, x, y, z)) None = Some (Some p)"
  using set_ecs_option_returns by (simp add: set_ecs_option_def)

text \<open>The last octet of the client's address never leaves the machine: two clients of one /24
  that are not loopback give the same rewritten message.\<close>

theorem set_ecs_hides_last_octet:
  "set_ecs_option p (V4 (a, b, c, d)) fabricate = set_ecs_option p (V4 (a, b, c, d')) fabricate"
  by (simp add: set_ecs_option_announced announced_def split: option.splits)

end
