(* ===== verification/Upstream_Error.thy ===== *)
theory Upstream_Error
  imports Dns_Prelude
begin

text \<open>
  The errors of resolving (\<open>shared/src/errors.rs\<close>). The texts that \<open>Config\<close>, \<open>Other\<close> and
  \<open>RelayErr\<close> carry quote errors of the crates, and are left out, as are the wrapped errors of
  \<open>Io\<close>, \<open>Request\<close> and \<open>Body\<close>; nothing in the program reads them back. Theory \<open>Error_Text\<close> has
  the errors with what they carry.
\<close>

datatype doh_error = DohTimeout | DohRequest | DohStatus nat | DohBody

datatype error =
    Io
  | Config
  | InvalidResolver rstr
  | Doh doh_error
  | UdpTimeout
  | UpstreamUnreachable
  | NoHealthyResolvers
  | ResolveTimeout
  | Other
  | RelayErr

text \<open>\<open>result >>=\<close> of Rust's question mark operator.\<close>

definition try_then :: "error + 'a \<Rightarrow> ('a \<Rightarrow> error + 'b) \<Rightarrow> error + 'b" where
  "try_then r f = (case r of Inl e \<Rightarrow> Inl e | Inr x \<Rightarrow> f x)"

lemma try_then_simps [simp]:
  "try_then (Inl e) f = Inl e" "try_then (Inr x) f = f x"
  by (simp_all add: try_then_def)

lemma try_then_Inr: "try_then r f = Inr y \<longleftrightarrow> (\<exists>x. r = Inr x \<and> f x = Inr y)"
  by (cases r) auto

lemma try_then_Inl: "try_then r f = Inl e \<longleftrightarrow> r = Inl e \<or> (\<exists>x. r = Inr x \<and> f x = Inl e)"
  by (cases r) auto

end
