(* ===== verification/Resolver_Lists.thy ===== *)
theory Resolver_Lists
  imports Rust_Str Upstream_Error "HOL-Library.Multiset"
begin

text \<open>
  The list of healthy resolvers (\<open>dns_relay/src/resolver.rs\<close>): how resolver addresses are read,
  how the list is made, extended and picked from, and the memory of failed resolvers.

  A resolver is its address and its latency in nanoseconds. The order in which concurrent tasks
  finish is an argument or a nondeterministic choice; \<open>sort_unstable_by_key\<close> may return any
  sorted arrangement of what it is given.
\<close>

type_synonym resolver = "rstr \<times> nat"

definition HTTPS :: rstr where "HTTPS = lit ''https://''"
definition QUIC :: rstr where "QUIC = lit ''quic://''"

section \<open>Addresses\<close>

text \<open>\<open>SocketAddr::from_str\<close>: an IPv4 address, a colon and a decimal port; \<open>v6\<close> parses the
  bracketed IPv6 form.\<close>

datatype socket_addr = SockV4 ipv4 nat | SockV6 bytes nat

definition parse_port :: "rstr \<Rightarrow> nat option" where
  "parse_port s =
     (if s \<noteq> [] \<and> list_all is_digit s \<and> dec_val s < 65536 then Some (dec_val s) else None)"

definition parse_socket_addr :: "(rstr \<Rightarrow> socket_addr option) \<Rightarrow> rstr \<Rightarrow> socket_addr option" where
  "parse_socket_addr v6 s =
     (case split_once colon s of
        None \<Rightarrow> v6 s
      | Some (h, p) \<Rightarrow>
          (case (parse_ipv4 h, parse_port p) of
             (Some ip, Some port) \<Rightarrow> Some (SockV4 ip port)
           | _ \<Rightarrow> v6 s))"

text \<open>\<open>classify_line\<close>: the text before the first colon has no colon, so it never parses as an IPv6
  address and the \<open>IpAddr::V6\<close> branch of the code is not reached.\<close>

definition classify_line :: "rstr \<Rightarrow> bool \<Rightarrow> bool \<Rightarrow> rstr option" where
  "classify_line line keep_ipv4 keep_doh =
     (if starts_with line HTTPS then (if keep_doh then Some line else None)
      else case parse_ipv4 (hd (split_on colon line)) of
        Some _ \<Rightarrow>
          if \<not> keep_ipv4 then None
          else if colon \<in> set line then Some line
          else Some (line @ lit '':53'')
      | None \<Rightarrow> None)"

definition parse_resolver_list :: "rstr \<Rightarrow> bool \<Rightarrow> bool \<Rightarrow> rstr list" where
  "parse_resolver_list body keep_ipv4 keep_doh =
     List.map_filter (\<lambda>raw_line.
       let line = trim raw_line in
       if line = [] \<or> starts_with line (lit ''#'') then None
       else classify_line line keep_ipv4 keep_doh) (str_lines body)"

definition normalize_resolver :: "rstr \<Rightarrow> rstr" where
  "normalize_resolver resolver =
     (if starts_with resolver HTTPS \<or> starts_with resolver (lit ''http://'') then resolver
      else if colon \<in> set resolver then resolver
      else resolver @ lit '':53'')"

definition create_resolver :: "rstr \<Rightarrow> resolver" where
  "create_resolver addr = (addr, 0)"

definition resolvers_to_addrs :: "resolver list \<Rightarrow> rstr list" where
  "resolvers_to_addrs rs = map fst rs"

text \<open>\<open>parse_ip\<close> is \<open>IpAddr::from_str\<close>, \<open>lookup\<close> the system's \<open>to_socket_addrs\<close>: an error, or the
  addresses found.\<close>

definition parse_doq_target ::
  "(rstr \<Rightarrow> nat \<Rightarrow> socket_addr option) \<Rightarrow> (rstr \<Rightarrow> nat \<Rightarrow> socket_addr list option) \<Rightarrow> rstr \<Rightarrow>
     error + (rstr \<times> socket_addr)" where
  "parse_doq_target parse_ip lookup resolver =
     (case strip_prefix QUIC resolver of
        None \<Rightarrow> Inl (InvalidResolver resolver)
      | Some rest \<Rightarrow>
          let (host, port) = (case rsplit_once colon rest of
                Some (h, p) \<Rightarrow> (h, case parse_u16 p of Some n \<Rightarrow> n | None \<Rightarrow> 853)
              | None \<Rightarrow> (rest, 853))
          in case parse_ip host port of
               Some addr \<Rightarrow> Inr (host, addr)
             | None \<Rightarrow>
                 (case lookup host port of
                    None \<Rightarrow> Inl Config
                  | Some [] \<Rightarrow> Inl (InvalidResolver resolver)
                  | Some (addr # _) \<Rightarrow> Inr (host, addr)))"

section \<open>Failed resolvers\<close>

record failed_set =
  failed :: "rstr list" \<comment> \<open>a \<open>HashSet\<close>: without duplicates\<close>
  flushed_at :: nat

definition FAILED_RESOLVER_CAP :: nat where "FAILED_RESOLVER_CAP = 4096"
definition FAILED_RESOLVER_FLUSH_INTERVAL :: nat where
  "FAILED_RESOLVER_FLUSH_INTERVAL = 3600 * 1000000000"
definition MAX_HEALTHY_RESOLVERS :: nat where "MAX_HEALTHY_RESOLVERS = 256"

definition is_failed_resolver :: "failed_set \<Rightarrow> rstr \<Rightarrow> bool" where
  "is_failed_resolver f resolver \<longleftrightarrow> resolver \<in> set (failed f)"

definition record_failed_resolver :: "nat \<Rightarrow> rstr \<Rightarrow> failed_set \<Rightarrow> failed_set" where
  "record_failed_resolver now resolver f =
     (let f = (if FAILED_RESOLVER_FLUSH_INTERVAL \<le> now - flushed_at f
               then \<lparr>failed = [], flushed_at = now\<rparr> else f)
      in if FAILED_RESOLVER_CAP \<le> length (failed f) then f
         else f\<lparr>failed := List.insert resolver (failed f)\<rparr>)"

section \<open>Picking\<close>

definition pick :: "resolver list \<Rightarrow> rstr run" where
  "pick healthy = (case healthy of [] \<Rightarrow> None | r # _ \<Rightarrow> Some (fst r))"

definition pick_doh_first :: "bool \<Rightarrow> resolver list \<Rightarrow> rstr run" where
  "pick_doh_first prefer_doh healthy =
     (if prefer_doh
      then case find (\<lambda>r. starts_with (fst r) HTTPS) healthy of
             Some r \<Rightarrow> Some (fst r)
           | None \<Rightarrow> pick healthy
      else pick healthy)"

section \<open>Merging\<close>

definition merge_discovered_into_healthy ::
  "nat \<Rightarrow> resolver list \<Rightarrow> resolver list \<Rightarrow> resolver list" where
  "merge_discovered_into_healthy max_len discovered healthy =
     (let existing = map fst healthy;
          prepend = filter (\<lambda>r. fst r \<notin> set existing) discovered
      in if prepend = [] then healthy
         else let prepend = prepend @ healthy
              in if max_len < length prepend then take max_len prepend else prepend)"

text \<open>What \<open>sort_unstable_by_key(latency)\<close> may leave.\<close>

definition sorted_by_latency :: "resolver list \<Rightarrow> resolver list \<Rightarrow> bool" where
  "sorted_by_latency rs out \<longleftrightarrow> mset out = mset rs \<and> sorted (map snd out)"

text \<open>The resolvers of a list that pass the health check, with their latencies.\<close>

definition healthy_results :: "(rstr \<Rightarrow> error + nat) \<Rightarrow> rstr list \<Rightarrow> resolver list" where
  "healthy_results probe rs =
     List.map_filter (\<lambda>r. case probe r of Inr d \<Rightarrow> Some (r, d) | Inl _ \<Rightarrow> None) rs"

text \<open>\<open>test_resolvers\<close>: \<open>probe\<close> is the outcome of the health check of each resolver.\<close>

inductive test_resolvers ::
  "(rstr \<Rightarrow> error + nat) \<Rightarrow> rstr list \<Rightarrow> error + resolver list \<Rightarrow> bool"
  for probe :: "rstr \<Rightarrow> error + nat" and resolvers :: "rstr list" where
  none: "\<forall>r \<in> set resolvers. \<exists>e. probe r = Inl e \<Longrightarrow>
    test_resolvers probe resolvers (Inl NoHealthyResolvers)"
| some: "results = healthy_results probe resolvers \<Longrightarrow>
    results \<noteq> [] \<Longrightarrow> sorted_by_latency results out \<Longrightarrow>
    test_resolvers probe resolvers (Inr out)"

text \<open>One turn of the loop of \<open>run_resolver_finder\<close>. \<open>fetched\<close> are the lists read from the sources
  (an unreachable source gives the empty list), \<open>order\<close> the order in which the health checks of
  the candidates end, each at its time.\<close>

record finder =
  healthy_resolvers :: "resolver list"
  failures :: failed_set
  is_searching :: bool

definition finder_candidates :: "finder \<Rightarrow> rstr list list \<Rightarrow> rstr set" where
  "finder_candidates s fetched =
     {r \<in> set (concat fetched). \<not> is_failed_resolver (failures s) r} - fst ` set (healthy_resolvers s)"

definition note_failures :: "(rstr \<Rightarrow> error + nat) \<Rightarrow> (rstr \<times> nat) list \<Rightarrow> failed_set \<Rightarrow> failed_set" where
  "note_failures probe order =
     fold (\<lambda>(r, now) f. case probe r of Inl _ \<Rightarrow> record_failed_resolver now r f | Inr _ \<Rightarrow> f) order"

inductive finder_turn :: "finder \<Rightarrow> finder \<Rightarrow> bool" where
  busy: "is_searching s \<Longrightarrow> finder_turn s s"
| idle: "\<not> is_searching s \<Longrightarrow> finder_candidates s fetched = {} \<Longrightarrow> finder_turn s s"
| none_healthy: "\<not> is_searching s \<Longrightarrow> set (map fst order) = finder_candidates s fetched \<Longrightarrow>
    distinct (map fst order) \<Longrightarrow> \<forall>r \<in> finder_candidates s fetched. \<exists>e. probe r = Inl e \<Longrightarrow>
    finder_turn s (s\<lparr>failures := note_failures probe order (failures s)\<rparr>)"
| found: "\<not> is_searching s \<Longrightarrow> set (map fst order) = finder_candidates s fetched \<Longrightarrow>
    distinct (map fst order) \<Longrightarrow>
    results = healthy_results probe (map fst order) \<Longrightarrow>
    results \<noteq> [] \<Longrightarrow> sorted_by_latency results discovered \<Longrightarrow>
    finder_turn s (s\<lparr>failures := note_failures probe order (failures s),
      healthy_resolvers := merge_discovered_into_healthy MAX_HEALTHY_RESOLVERS discovered (healthy_resolvers s)\<rparr>)"

text \<open>\<open>ResolverPicker::new\<close>, then any number of turns.\<close>

inductive finder_reach :: "rstr list \<Rightarrow> finder \<Rightarrow> bool" for resolvers :: "rstr list" where
  start: "test_resolvers probe resolvers (Inr out) \<Longrightarrow>
    finder_reach resolvers \<lparr>healthy_resolvers = out, failures = \<lparr>failed = [], flushed_at = t\<rparr>, is_searching = False\<rparr>"
| turn: "finder_reach resolvers s \<Longrightarrow> finder_turn s s' \<Longrightarrow> finder_reach resolvers s'"

inductive_cases test_resolvers_InrE: "test_resolvers probe resolvers (Inr out)"
inductive_cases test_resolvers_InlE: "test_resolvers probe resolvers (Inl e)"
inductive_cases finder_turnE: "finder_turn s s'"

lemma pick_doh_first_returns: "rs \<noteq> [] \<Longrightarrow> \<exists>u. pick_doh_first v rs = Some u"
  by (cases rs) (auto simp: pick_doh_first_def pick_def split: option.split)

section \<open>Merging keeps the pool usable\<close>

lemma merge_nonempty: "healthy \<noteq> [] \<Longrightarrow> 0 < n \<Longrightarrow> merge_discovered_into_healthy n discovered healthy \<noteq> []"
  by (auto simp: merge_discovered_into_healthy_def Let_def)

lemma merge_length:
  "length healthy \<le> n \<Longrightarrow> length (merge_discovered_into_healthy n discovered healthy) \<le> n"
  by (auto simp: merge_discovered_into_healthy_def Let_def)

lemma merge_take:
  "merge_discovered_into_healthy n discovered healthy =
     (if list_all (\<lambda>r. fst r \<in> fst ` set healthy) discovered then healthy
      else take n (filter (\<lambda>r. fst r \<notin> fst ` set healthy) discovered @ healthy))"
  by (auto simp: merge_discovered_into_healthy_def Let_def filter_empty_conv list_all_iff)

lemma merge_distinct:
  assumes "distinct (map fst healthy)" "distinct (map fst discovered)"
  shows "distinct (map fst (merge_discovered_into_healthy n discovered healthy))"
proof -
  let ?new = "filter (\<lambda>r. fst r \<notin> fst ` set healthy) discovered @ healthy"
  have "distinct (map fst ?new)"
    using assms by (auto simp: distinct_map_filter)
  then have "distinct (map fst (take n ?new))"
    unfolding take_map [symmetric] by (rule distinct_take)
  with assms(1) show ?thesis unfolding merge_take by (simp del: take_append map_append)
qed

section \<open>Failed resolvers stay few\<close>

definition failed_ok :: "failed_set \<Rightarrow> bool" where
  "failed_ok f \<longleftrightarrow> distinct (failed f) \<and> length (failed f) \<le> FAILED_RESOLVER_CAP"

lemma failed_ok_record: "failed_ok f \<Longrightarrow> failed_ok (record_failed_resolver now r f)"
  by (auto simp: failed_ok_def record_failed_resolver_def Let_def FAILED_RESOLVER_CAP_def List.insert_def)

lemma failed_ok_note: "failed_ok f \<Longrightarrow> failed_ok (note_failures probe order f)"
  by (induction order arbitrary: f) (auto simp: note_failures_def failed_ok_record split: sum.splits)

section \<open>The invariant of the pool\<close>

text \<open>The pool is never empty, so \<open>pick\<close> never panics; it names every resolver once.\<close>

definition finder_ok :: "finder \<Rightarrow> bool" where
  "finder_ok s \<longleftrightarrow> healthy_resolvers s \<noteq> [] \<and> distinct (map fst (healthy_resolvers s)) \<and> failed_ok (failures s)"

lemma healthy_results_simps [simp]:
  "healthy_results probe [] = []"
  "healthy_results probe (r # rs) =
     (case probe r of Inr d \<Rightarrow> (r, d) # healthy_results probe rs | Inl _ \<Rightarrow> healthy_results probe rs)"
  by (simp_all add: healthy_results_def split: sum.splits)

lemma map_fst_healthy_results:
  "map fst (healthy_results probe rs) = filter (\<lambda>r. \<exists>d. probe r = Inr d) rs"
  by (induction rs) (auto split: sum.splits)

lemma sorted_by_latency_addresses: "sorted_by_latency rs out \<Longrightarrow> mset (map fst out) = mset (map fst rs)"
  by (simp add: sorted_by_latency_def)

lemma sorted_by_latency_distinct:
  assumes "sorted_by_latency rs out" "distinct (map fst rs)"
  shows "distinct (map fst out)"
  using mset_eq_imp_distinct_iff [OF sorted_by_latency_addresses [OF assms(1)]] assms(2) by blast

lemma healthy_results_distinct: "distinct rs \<Longrightarrow> distinct (map fst (healthy_results probe rs))"
  by (simp add: map_fst_healthy_results)

lemma finder_turn_ok:
  assumes "finder_turn s s'" "finder_ok s"
  shows "finder_ok s'"
  using assms
proof (cases rule: finder_turn.cases)
  case (none_healthy order fetched probe)
  then show ?thesis using assms(2) by (simp add: finder_ok_def failed_ok_note)
next
  case (found order fetched results probe discovered)
  then have "distinct (map fst discovered)"
    using sorted_by_latency_distinct [OF found(7)] healthy_results_distinct [OF found(4)] by simp
  then show ?thesis
    using found assms(2)
    by (simp add: finder_ok_def failed_ok_note merge_nonempty merge_distinct MAX_HEALTHY_RESOLVERS_def)
qed auto

lemma test_resolvers_nonempty: "test_resolvers probe rs (Inr out) \<Longrightarrow> out \<noteq> []"
  by (elim test_resolvers_InrE) (auto simp: sorted_by_latency_def)

lemma test_resolvers_healthy:
  "test_resolvers probe rs (Inr out) \<Longrightarrow> \<forall>(r, latency) \<in> set out. r \<in> set rs \<and> probe r = Inr latency"
proof -
  assume "test_resolvers probe rs (Inr out)"
  then have "mset out = mset (healthy_results probe rs)"
    by (elim test_resolvers_InrE) (simp add: sorted_by_latency_def)
  then have "set out = set (healthy_results probe rs)" by (rule mset_eq_setD)
  moreover have "\<forall>(r, latency) \<in> set (healthy_results probe rs). r \<in> set rs \<and> probe r = Inr latency"
    by (induction rs) (auto simp: healthy_results_def map_filter_simps split: sum.split)
  ultimately show ?thesis by simp
qed

lemma test_resolvers_distinct: "test_resolvers probe rs (Inr out) \<Longrightarrow> distinct rs \<Longrightarrow> distinct (map fst out)"
  by (elim test_resolvers_InrE) (auto intro: sorted_by_latency_distinct healthy_results_distinct)

lemma finder_reach_ok: "finder_reach rs s \<Longrightarrow> distinct rs \<Longrightarrow> finder_ok s"
proof (induction rule: finder_reach.induct)
  case (start probe out t)
  then show ?case
    using test_resolvers_nonempty test_resolvers_distinct
    by (auto simp: finder_ok_def failed_ok_def FAILED_RESOLVER_CAP_def)
qed (blast intro: finder_turn_ok)

lemma finder_turn_nonempty: "finder_turn s s' \<Longrightarrow> healthy_resolvers s \<noteq> [] \<Longrightarrow> healthy_resolvers s' \<noteq> []"
  by (cases rule: finder_turn.cases) (auto simp: merge_nonempty MAX_HEALTHY_RESOLVERS_def)

lemma finder_reach_nonempty: "finder_reach rs s \<Longrightarrow> healthy_resolvers s \<noteq> []"
  by (induction rule: finder_reach.induct) (auto simp: test_resolvers_nonempty finder_turn_nonempty)

lemma finder_reach_length:
  "finder_reach rs s \<Longrightarrow> length (healthy_resolvers s) \<le> max (length rs) MAX_HEALTHY_RESOLVERS"
proof (induction rule: finder_reach.induct)
  case (start probe out t)
  then have "sorted_by_latency (healthy_results probe rs) out"
    by (elim test_resolvers_InrE) simp
  from sorted_by_latency_addresses [OF this] have "length out = length (map fst (healthy_results probe rs))"
    by (metis length_map mset_eq_length)
  also have "\<dots> \<le> length rs" unfolding map_fst_healthy_results by simp
  finally show ?case by simp
next
  case (turn s s')
  from turn.hyps(2) turn.IH show ?case
    by (cases rule: finder_turn.cases) (auto simp: merge_take)
qed

section \<open>Properties\<close>

lemma parse_resolver_list_lines:
  "e \<in> set (parse_resolver_list body k4 kd) \<Longrightarrow> \<exists>raw \<in> set (str_lines body).
     trim raw \<noteq> [] \<and> \<not> starts_with (trim raw) (lit ''#'') \<and> classify_line (trim raw) k4 kd = Some e"
  by (auto simp: parse_resolver_list_def Let_def List.map_filter_def split: if_splits)

lemma parse_octet_no_colon: "parse_octet s = Some v \<Longrightarrow> colon \<notin> set s"
  by (auto simp: parse_octet_def list_all_iff is_digit_def split: if_splits)

lemma parse_ipv4_no_colon:
  assumes "parse_ipv4 s = Some ip"
  shows "colon \<notin> set s"
proof -
  obtain a b c d where abcd: "split_on dot s = [a, b, c, d]"
    using assms by (auto simp: parse_ipv4_def split: list.splits)
  then have "s = a @ dot # b @ dot # c @ dot # d"
    using join_split [of dot s] by simp
  moreover have "colon \<notin> set a \<union> set b \<union> set c \<union> set d"
    using assms abcd by (auto simp: parse_ipv4_def bind_eq_Some_conv dest: parse_octet_no_colon)
  ultimately show ?thesis by auto
qed

lemma classify_lineE:
  assumes "classify_line line k4 kd = Some e"
  obtains "kd" "e = line" "starts_with line HTTPS"
  | "k4" "e = line" "colon \<in> set line" "parse_ipv4 (hd (split_on colon line)) \<noteq> None"
  | "k4" "e = line @ lit '':53''" "colon \<notin> set line" "parse_ipv4 line \<noteq> None"
  using assms by (auto simp: classify_line_def split: if_splits option.splits)

lemma colon_lit: "lit '':53'' = [colon, 53, 51]" by code_simp

lemma parse_port_53: "parse_port [53, 51] = Some 53"
  by (simp add: parse_port_def is_digit_def dec_val_def)

lemma hd_split_on_append: "hd (split_on c (s @ c # t)) = hd (split_on c s)"
  by (simp add: split_on_append)

text \<open>Every address read from a resolver source is a DoH URL (only when those are wanted) or
  starts with an IPv4 address and has a port (only when those are wanted); a bare IPv4 address
  gets port 53 and then parses as a socket address; normalizing an entry changes nothing.\<close>

theorem resolver_source_entries:
  assumes "e \<in> set (parse_resolver_list body k4 kd)"
  shows "(kd \<and> starts_with e HTTPS \<or> k4 \<and> colon \<in> set e \<and> parse_ipv4 (hd (split_on colon e)) \<noteq> None)
    \<and> normalize_resolver e = e"
proof -
  obtain raw where c: "classify_line (trim raw) k4 kd = Some e"
    using parse_resolver_list_lines [OF assms] by blast
  then have "kd \<and> starts_with e HTTPS \<or> k4 \<and> colon \<in> set e \<and> parse_ipv4 (hd (split_on colon e)) \<noteq> None"
    by (rule classify_lineE) (auto simp: colon_lit hd_split_on_append)
  then show ?thesis by (auto simp: normalize_resolver_def)
qed

theorem resolver_source_entries_witness:
  "normalize_resolver (lit ''9.9.9.9:53'') = lit ''9.9.9.9:53''"
proof -
  have "parse_resolver_list (lit '' 9.9.9.9 '') True False = [lit ''9.9.9.9:53'']" by code_simp
  then have "lit ''9.9.9.9:53'' \<in> set (parse_resolver_list (lit '' 9.9.9.9 '') True False)" by simp
  from resolver_source_entries [OF this] show ?thesis by simp
qed

text \<open>A line that is a bare IPv4 address becomes an entry that always parses as that address with
  port 53; a line with a port is taken as it is, so a bad port is kept in the list although it can
  never be parsed.\<close>

theorem classify_line_addresses:
  assumes "parse_ipv4 h = Some ip" "parse_port p = None" "v6 (h @ colon # p) = None"
    and "\<not> starts_with h HTTPS" "\<not> starts_with (h @ colon # p) HTTPS"
  shows "(\<exists>e. classify_line h True kd = Some e \<and> parse_socket_addr v6 e = Some (SockV4 ip 53))
    \<and> classify_line (h @ colon # p) True kd = Some (h @ colon # p)
    \<and> parse_socket_addr v6 (h @ colon # p) = None"
proof -
  have nc: "colon \<notin> set h" using parse_ipv4_no_colon [OF assms(1)] .
  then have once: "split_once colon (h @ colon # t) = Some (h, t)" for t
    by (auto simp: split_once_def takeWhile_append dropWhile_append)
  show ?thesis
    using assms nc once
    by (simp add: classify_line_def parse_socket_addr_def colon_lit parse_port_53 split_on_append)
qed

theorem classify_line_addresses_witness:
  "classify_line (lit ''1.2.3.4:dns'') True True = Some (lit ''1.2.3.4:dns'')
   \<and> parse_socket_addr (\<lambda>_. None) (lit ''1.2.3.4:dns'') = None"
proof -
  have h: "parse_ipv4 (lit ''1.2.3.4'') = Some (1, 2, 3, 4)" "parse_port (lit ''dns'') = None"
    "\<not> starts_with (lit ''1.2.3.4'') HTTPS" "\<not> starts_with (lit ''1.2.3.4'' @ colon # lit ''dns'') HTTPS"
    by code_simp+
  have "lit ''1.2.3.4'' @ colon # lit ''dns'' = lit ''1.2.3.4:dns''" by code_simp
  then show ?thesis using classify_line_addresses [OF h(1,2) _ h(3,4), of "\<lambda>_. None" True] by simp
qed

text \<open>C34: Once the server has started, the list of healthy resolvers is never empty, whatever the
  finder does, so choosing a resolver never panics; the list stays within 256 entries or the
  number configured, and names a resolver once when the configuration does.\<close>

theorem pool_never_empty:
  assumes "finder_reach resolvers s"
  shows "(\<exists>r. pick (healthy_resolvers s) = Some r) \<and> (\<exists>r. pick_doh_first prefer (healthy_resolvers s) = Some r)
    \<and> length (healthy_resolvers s) \<le> max (length resolvers) 256
    \<and> (distinct resolvers \<longrightarrow> distinct (map fst (healthy_resolvers s)) \<and> length (failed (failures s)) \<le> 4096)"
proof -
  have "healthy_resolvers s \<noteq> []" using finder_reach_nonempty [OF assms] .
  then show ?thesis
    using finder_reach_length [OF assms] finder_reach_ok [OF assms]
    by (auto simp: pick_def pick_doh_first_def MAX_HEALTHY_RESOLVERS_def FAILED_RESOLVER_CAP_def
        finder_ok_def failed_ok_def split: list.splits option.splits)
qed

theorem pool_never_empty_witness:
  "\<exists>r. pick [(lit ''9.9.9.9:53'', 5)] = Some r"
proof -
  have "test_resolvers (\<lambda>_. Inr 5) [lit ''9.9.9.9:53''] (Inr [(lit ''9.9.9.9:53'', 5)])"
    by (rule test_resolvers.some [OF refl]) (simp_all add: sorted_by_latency_def)
  from pool_never_empty [OF finder_reach.start [OF this]] show ?thesis by simp
qed

text \<open>At start the healthy resolvers are exactly the configured ones that passed the check, from
  the fastest to the slowest; the server refuses to start exactly when none passed.\<close>

theorem test_resolvers_exact:
  assumes "test_resolvers probe resolvers r"
  shows "case r of
      Inr out \<Rightarrow> mset (map fst out) = mset (filter (\<lambda>r. \<exists>d. probe r = Inr d) resolvers)
        \<and> sorted (map snd out) \<and> (\<forall>x \<in> set out. probe (fst x) = Inr (snd x)) \<and> out \<noteq> []
    | Inl e \<Rightarrow> e = NoHealthyResolvers \<and> filter (\<lambda>r. \<exists>d. probe r = Inr d) resolvers = []"
proof (cases r)
  case (Inl e)
  with assms show ?thesis by (auto simp: filter_empty_conv elim!: test_resolvers_InlE)
next
  case (Inr out)
  then have out: "sorted_by_latency (healthy_results probe resolvers) out"
    using assms by (auto elim: test_resolvers_InrE)
  have "\<forall>x \<in> set (healthy_results probe resolvers). probe (fst x) = Inr (snd x)"
    by (induction resolvers) (auto split: sum.splits)
  moreover have "set out = set (healthy_results probe resolvers)"
    using out mset_eq_setD unfolding sorted_by_latency_def by blast
  ultimately show ?thesis
    using out Inr assms test_resolvers_nonempty sorted_by_latency_addresses [OF out]
    by (auto simp: map_fst_healthy_results sorted_by_latency_def)
qed

theorem test_resolvers_exact_witness:
  "mset (map fst [(lit ''b'', 3), (lit ''a'', 5)]) =
     mset (filter (\<lambda>r. \<exists>d. (if r = lit ''c'' then Inl UdpTimeout else if r = lit ''a'' then Inr 5 else Inr (3 :: nat)) = Inr d)
       [lit ''a'', lit ''c'', lit ''b''])"
proof -
  let ?p = "\<lambda>r. if r = lit ''c'' then Inl UdpTimeout else if r = lit ''a'' then Inr 5 else Inr (3 :: nat)"
  have ne: "lit ''b'' \<noteq> lit ''a''" "lit ''b'' \<noteq> lit ''c''" "lit ''a'' \<noteq> lit ''c''" by code_simp+
  have "test_resolvers ?p [lit ''a'', lit ''c'', lit ''b''] (Inr [(lit ''b'', 3), (lit ''a'', 5)])"
    by (rule test_resolvers.some [OF refl]) (simp_all add: sorted_by_latency_def ne)
  from test_resolvers_exact [OF this] show ?thesis by simp
qed

text \<open>Merging puts the newly found resolvers first, in the order found, then the known ones in
  their order, and cuts the list at its maximum; known resolvers are not added again. So the
  first new resolver is picked from then on, even when a known one is faster.\<close>

theorem merge_puts_new_first:
  assumes "filter (\<lambda>r. fst r \<notin> fst ` set healthy) discovered = new # news" "0 < n"
  shows "merge_discovered_into_healthy n discovered healthy = take n (new # news @ healthy)
    \<and> pick (merge_discovered_into_healthy n discovered healthy) = Some (fst new)"
proof -
  have "new \<in> set (filter (\<lambda>r. fst r \<notin> fst ` set healthy) discovered)"
    using assms(1) by simp
  then have "\<not> list_all (\<lambda>r. fst r \<in> fst ` set healthy) discovered"
    unfolding list_all_iff set_filter by blast
  then have "merge_discovered_into_healthy n discovered healthy = take n (new # news @ healthy)"
    by (simp add: merge_take assms(1) del: take_append)
  with assms(2) show ?thesis by (cases n) (simp_all add: pick_def)
qed

theorem merge_puts_new_first_witness:
  "pick (merge_discovered_into_healthy 256 [(lit ''slow:53'', 900), (lit ''fast:53'', 2)] [(lit ''fast:53'', 1)]) =
     Some (lit ''slow:53'')"
proof -
  have "lit ''slow:53'' \<noteq> lit ''fast:53''" by code_simp
  then have "filter (\<lambda>r. fst r \<notin> fst ` set [(lit ''fast:53'', 1)]) [(lit ''slow:53'', 900), (lit ''fast:53'', 2)] =
    [(lit ''slow:53'', 900 :: nat)]" by simp
  from merge_puts_new_first [OF this, of 256] show ?thesis by force
qed

text \<open>While a VPN is up the first healthy DoH resolver is used, or the usual one when there is
  none; otherwise the head of the list is.\<close>

theorem pick_doh_first_cases:
  assumes "healthy = before @ r # after" "starts_with (fst r) HTTPS"
    and "\<forall>x \<in> set before. \<not> starts_with (fst x) HTTPS"
  shows "pick_doh_first True healthy = Some (fst r) \<and> pick_doh_first False healthy = pick healthy
    \<and> pick_doh_first True before = pick before"
proof -
  have "find (\<lambda>r. starts_with (fst r) HTTPS) before = None"
    using assms(3) by (auto simp: find_None_iff)
  moreover from this have "find (\<lambda>r. starts_with (fst r) HTTPS) (before @ r # after) = Some r"
    using assms(2) by (induction before) (auto split: if_splits)
  ultimately show ?thesis using assms(1) by (simp add: pick_doh_first_def)
qed

theorem pick_doh_first_cases_witness:
  "pick_doh_first True [(lit ''9.9.9.9:53'', 1), (lit ''https://d/q'', 9)] = Some (lit ''https://d/q'')"
proof -
  have h: "starts_with (fst (lit ''https://d/q'', 9 :: nat)) HTTPS" "\<not> starts_with (lit ''9.9.9.9:53'') HTTPS"
    by code_simp+
  have "[(lit ''9.9.9.9:53'', 1), (lit ''https://d/q'', 9)] = [(lit ''9.9.9.9:53'', 1)] @ (lit ''https://d/q'', 9 :: nat) # []"
    by simp
  from pick_doh_first_cases [OF this h(1)] h(2) show ?thesis by simp
qed

text \<open>A failed resolver is remembered while there is room and the hour since the last flush has
  not passed; the first failure after that hour forgets all earlier ones; the memory never
  exceeds 4096 resolvers.\<close>

theorem failed_resolvers_bounded:
  assumes "failed_ok f"
  shows "failed_ok (record_failed_resolver now r f)
    \<and> (now - flushed_at f < 3600 * 1000000000 \<longrightarrow> length (failed f) < 4096 \<longrightarrow>
        (\<forall>x. is_failed_resolver (record_failed_resolver now r f) x \<longleftrightarrow> x = r \<or> is_failed_resolver f x))
    \<and> (3600 * 1000000000 \<le> now - flushed_at f \<longrightarrow>
        (\<forall>x. is_failed_resolver (record_failed_resolver now r f) x \<longleftrightarrow> x = r))"
  using failed_ok_record [OF assms]
  by (auto simp: record_failed_resolver_def is_failed_resolver_def Let_def FAILED_RESOLVER_CAP_def
      FAILED_RESOLVER_FLUSH_INTERVAL_def)

theorem failed_resolvers_bounded_witness:
  "failed_ok (record_failed_resolver 7 (lit ''a'') \<lparr>failed = [], flushed_at = 0\<rparr>)"
proof -
  have "failed_ok \<lparr>failed = [], flushed_at = 0\<rparr>" by (simp add: failed_ok_def)
  from failed_resolvers_bounded [OF this] show ?thesis by blast
qed

text \<open>A DoQ resolver without a readable port is contacted on port 853, and the name used for its
  certificate is the text before the last colon.\<close>

theorem doq_target_port:
  assumes "strip_prefix QUIC resolver = Some (h @ colon # p)" "colon \<notin> set p"
    and "parse_ip h (case parse_u16 p of Some n \<Rightarrow> n | None \<Rightarrow> 853) = Some addr"
  shows "parse_doq_target parse_ip lookup resolver = Inr (h, addr)"
proof -
  have "rsplit_once colon (h @ colon # p) = Some (h, p)"
    using assms(2) by (auto simp: rsplit_once_def split_once_def takeWhile_append dropWhile_append)
  with assms show ?thesis by (simp add: parse_doq_target_def)
qed

theorem doq_target_port_witness:
  "parse_doq_target (\<lambda>h n. map_option (\<lambda>ip. SockV4 ip n) (parse_ipv4 h)) (\<lambda>_ _. None) (lit ''quic://9.9.9.9:x'') =
     Inr (lit ''9.9.9.9'', SockV4 (9, 9, 9, 9) 853)"
proof (rule doq_target_port)
  show "strip_prefix QUIC (lit ''quic://9.9.9.9:x'') = Some (lit ''9.9.9.9'' @ colon # lit ''x'')" by code_simp
  show "colon \<notin> set (lit ''x'')" by code_simp
  have "parse_u16 (lit ''x'') = None" by code_simp
  moreover have "parse_ipv4 (lit ''9.9.9.9'') = Some (9, 9, 9, 9)" by code_simp
  ultimately show "map_option (\<lambda>ip. SockV4 ip (case parse_u16 (lit ''x'') of Some n \<Rightarrow> n | None \<Rightarrow> 853))
      (parse_ipv4 (lit ''9.9.9.9'')) = Some (SockV4 (9, 9, 9, 9) 853)" by simp
qed

end
