(* ===== verification/Upstream.thy ===== *)
theory Upstream
  imports Dns_Edns Resolver_Lists
begin

text \<open>
  Sending a query to an upstream resolver (\<open>dns_relay/src/resolver.rs\<close>): plain UDP, DoH over the
  crate \<open>reqwest\<close> and DoQ over the crate \<open>quinn\<close>, with the pool of DoQ connections, and the
  health check of a resolver.

  The network is the record \<open>net\<close>: for each request, as a function of the bytes sent, the
  outcome. A definition that is given these bytes and nothing else of the query therefore sends
  nothing else.
\<close>

section \<open>The network\<close>

datatype udp_outcome =
    SocketError \<comment> \<open>\<open>bind\<close>, \<open>connect\<close>, \<open>send\<close> or \<open>recv\<close> failed\<close>
  | NoReply \<comment> \<open>nothing within \<open>RESOLVE_TIMEOUT\<close>\<close>
  | Received bytes

datatype http_outcome =
    RequestError
  | RequestTimeout \<comment> \<open>nothing within the client's or the caller's time limit\<close>
  | Response nat "bytes option" \<comment> \<open>the status, and the body unless reading it failed\<close>

record 'conn net =
  udp_exchange :: "socket_addr \<Rightarrow> bytes \<Rightarrow> udp_outcome"
  http_post :: "rstr \<Rightarrow> bytes \<Rightarrow> http_outcome"
  quic_connect :: "rstr \<Rightarrow> rstr \<times> socket_addr \<Rightarrow> 'conn option"
  quic_alive :: "'conn \<Rightarrow> bool" \<comment> \<open>\<open>close_reason().is_none()\<close>\<close>
  quic_exchange :: "'conn \<Rightarrow> bytes \<Rightarrow> bytes option" \<comment> \<open>one stream: the request, then the whole answer\<close>
  parse_v6 :: "rstr \<Rightarrow> socket_addr option"
  parse_ip :: "rstr \<Rightarrow> nat \<Rightarrow> socket_addr option"
  host_lookup :: "rstr \<Rightarrow> nat \<Rightarrow> socket_addr list option"

definition is_success :: "nat \<Rightarrow> bool" where
  "is_success status \<longleftrightarrow> 200 \<le> status \<and> status < 300"

type_synonym reply = "error + (bytes \<times> nat)"

section \<open>DoH and UDP\<close>

definition resolve_via_doh :: "'conn net \<Rightarrow> rstr \<Rightarrow> bytes \<Rightarrow> reply" where
  "resolve_via_doh net url payload =
     (case http_post net url payload of
        RequestError \<Rightarrow> Inl (Doh DohRequest)
      | RequestTimeout \<Rightarrow> Inl (Doh DohRequest)
      | Response status body \<Rightarrow>
          if \<not> is_success status then Inl (Doh (DohStatus status))
          else (case body of
              None \<Rightarrow> Inl (Doh DohBody)
            | Some b \<Rightarrow> Inr (b, length b)))"

text \<open>\<open>recv\<close> into a buffer of 4096 bytes cuts a longer datagram.\<close>

definition resolve_via_udp :: "'conn net \<Rightarrow> rstr \<Rightarrow> bytes \<Rightarrow> reply" where
  "resolve_via_udp net upstream_resolver payload =
     (case parse_socket_addr (parse_v6 net) upstream_resolver of
        None \<Rightarrow> Inl (InvalidResolver upstream_resolver)
      | Some addr \<Rightarrow>
          (case udp_exchange net addr payload of
             SocketError \<Rightarrow> Inl Io
           | NoReply \<Rightarrow> Inl ResolveTimeout
           | Received d \<Rightarrow> let reply = take 4096 d in Inr (reply, length reply)))"

section \<open>DoQ\<close>

type_synonym 'conn doq_pool = "rstr \<Rightarrow> 'conn option"

definition doq_cached :: "'conn net \<Rightarrow> 'conn doq_pool \<Rightarrow> rstr \<Rightarrow> 'conn option" where
  "doq_cached net connections resolver =
     (case connections resolver of
        None \<Rightarrow> None
      | Some conn \<Rightarrow> if quic_alive net conn then Some conn else None)"

definition doq_store :: "'conn doq_pool \<Rightarrow> rstr \<Rightarrow> 'conn \<Rightarrow> 'conn doq_pool" where
  "doq_store connections resolver conn = connections(resolver \<mapsto> conn)"

text \<open>Setting up the endpoint, the connection or the handshake can fail: \<open>quic_connect\<close> is \<open>None\<close>.\<close>

definition connection_for ::
  "'conn net \<Rightarrow> 'conn doq_pool \<Rightarrow> rstr \<Rightarrow> (error + 'conn) \<times> 'conn doq_pool" where
  "connection_for net connections resolver =
     (case doq_cached net connections resolver of
        Some conn \<Rightarrow> (Inr conn, connections)
      | None \<Rightarrow>
          (case parse_doq_target (parse_ip net) (host_lookup net) resolver of
             Inl e \<Rightarrow> (Inl e, connections)
           | Inr target \<Rightarrow>
               (case quic_connect net resolver target of
                  None \<Rightarrow> (Inl Config, connections)
                | Some conn \<Rightarrow> (Inr conn, doq_store connections resolver conn))))"

definition DOQ_READ_LIMIT :: nat where "DOQ_READ_LIMIT = 65535"

definition send_query :: "'conn net \<Rightarrow> 'conn \<Rightarrow> bytes \<Rightarrow> reply" where
  "send_query net connection payload =
     (let query = (if 2 \<le> length payload then payload[0 := 0, 1 := 0] else payload) in
      case quic_exchange net connection query of
        None \<Rightarrow> Inl Config
      | Some response \<Rightarrow>
          if DOQ_READ_LIMIT < length response then Inl Config else Inr (response, length response))"

definition doq_resolve :: "'conn net \<Rightarrow> 'conn doq_pool \<Rightarrow> rstr \<Rightarrow> bytes \<Rightarrow> reply \<times> 'conn doq_pool" where
  "doq_resolve net connections resolver payload =
     (case connection_for net connections resolver of
        (Inl e, connections) \<Rightarrow> (Inl e, connections)
      | (Inr connection, connections) \<Rightarrow> (send_query net connection payload, connections))"

section \<open>One query\<close>

definition resolve_from_upstream ::
  "'conn net \<Rightarrow> bytes \<Rightarrow> rstr \<Rightarrow> ip_addr \<Rightarrow> 'conn doq_pool \<Rightarrow> (reply \<times> 'conn doq_pool) run" where
  "resolve_from_upstream net payload upstream_resolver src_addr connections = do {
     ecs \<leftarrow> set_ecs_option payload src_addr None;
     let final_payload = (case ecs of Some p \<Rightarrow> p | None \<Rightarrow> payload);
     Some (if starts_with upstream_resolver HTTPS
             then (resolve_via_doh net upstream_resolver final_payload, connections)
           else if starts_with upstream_resolver QUIC
             then doq_resolve net connections upstream_resolver final_payload
           else (resolve_via_udp net upstream_resolver final_payload, connections)) }"

text \<open>\<open>ResolverPicker::resolve\<close>: the addresses of a name, asked for on behalf of \<open>public_ip\<close>, the
  answer of \<open>get_public_ip\<close>; \<open>txid\<close> is the random ID of the query.\<close>

definition picker_resolve ::
  "'conn net \<Rightarrow> resolver list \<Rightarrow> u16 \<Rightarrow> rstr \<Rightarrow> rstr option \<Rightarrow> ip_addr option \<Rightarrow> 'conn doq_pool \<Rightarrow>
     ((error + ipv4 list) \<times> 'conn doq_pool) run" where
  "picker_resolve net healthy txid domain resolver public_ip connections = do {
     resolver \<leftarrow> (case resolver of Some r \<Rightarrow> Some (normalize_resolver r) | None \<Rightarrow> pick healthy);
     let src_addr = (case public_ip of Some ip \<Rightarrow> ip | None \<Rightarrow> V4 (185, 143, 233, 5));
     (r, connections) \<leftarrow> resolve_from_upstream net (build_lookup_query txid domain) resolver src_addr connections;
     (case r of
        Inl e \<Rightarrow> Some (Inl e, connections)
      | Inr (reply, _) \<Rightarrow> do {
          ips \<leftarrow> parse_a_records reply;
          Some (Inr ips, connections) }) }"

section \<open>Fetching over HTTP\<close>

text \<open>\<open>http_get\<close> is one GET request with its time limit; the body is the text that \<open>text()\<close> gives. The
  status of the answer about the public address is not looked at; \<open>parse_ip6\<close> reads the addresses that
  are not IPv4.\<close>

definition get_public_ip :: "(rstr \<Rightarrow> http_outcome) \<Rightarrow> (rstr \<Rightarrow> ip_addr option) \<Rightarrow> error + ip_addr" where
  "get_public_ip http_get parse_ip6 =
     (case http_get (lit ''https://api.ipify.org'') of
        Response status (Some text) \<Rightarrow>
          (case parse_ipv4 (trim text) of
             Some ip \<Rightarrow> Inr (V4 ip)
           | None \<Rightarrow> (case parse_ip6 (trim text) of Some ip \<Rightarrow> Inr ip | None \<Rightarrow> Inl Other))
      | _ \<Rightarrow> Inl Other)"

definition fetch_resolvers_from_addr :: "(rstr \<Rightarrow> http_outcome) \<Rightarrow> bool \<Rightarrow> bool \<Rightarrow> rstr \<Rightarrow> error + rstr list" where
  "fetch_resolvers_from_addr http_get keep_ipv4 keep_doh addr =
     (case http_get addr of
        Response status body \<Rightarrow>
          if \<not> is_success status then Inl Config
          else (case body of None \<Rightarrow> Inl Config | Some b \<Rightarrow> Inr (parse_resolver_list b keep_ipv4 keep_doh))
      | _ \<Rightarrow> Inl Config)"

section \<open>Health checks\<close>

definition DNS_PROBE_PACKET :: bytes where
  "DNS_PROBE_PACKET = [0xAA, 0xBB, 0x01, 0x00, 0x00, 0x01, 0x00, 0x00, 0x00, 0x00, 0x00, 0x00,
     0x06] @ lit ''google'' @ [0x03] @ lit ''com'' @ [0x00, 0x00, 0x01, 0x00, 0x01]"

text \<open>All UDP probes share one socket, which is not connected: \<open>inbox\<close> are the datagrams it gets,
  with their senders. \<open>elapsed\<close> is the time since the start, \<open>slow\<close> that the DoQ exchange took
  longer than \<open>RESOLVE_TIMEOUT\<close>, \<open>broken\<close> that the socket fails to send or to receive.\<close>

type_synonym inbox = "(socket_addr \<times> bytes) list"

definition doq_measure_latency ::
  "'conn net \<Rightarrow> nat \<Rightarrow> 'conn doq_pool \<Rightarrow> rstr \<Rightarrow> (error + nat) \<times> 'conn doq_pool" where
  "doq_measure_latency net elapsed connections resolver =
     (case connection_for net connections resolver of
        (Inl e, connections) \<Rightarrow> (Inl e, connections)
      | (Inr connection, connections) \<Rightarrow>
          (case send_query net connection DNS_PROBE_PACKET of
             Inl e \<Rightarrow> (Inl e, connections)
           | Inr _ \<Rightarrow> (Inr elapsed, connections)))"

definition measure_latency ::
  "'conn net \<Rightarrow> nat \<Rightarrow> bool \<Rightarrow> bool \<Rightarrow> rstr \<Rightarrow> 'conn doq_pool \<Rightarrow> inbox \<Rightarrow> (error + nat) \<times> 'conn doq_pool \<times> inbox" where
  "measure_latency net elapsed slow broken resolver connections inbox =
     (if starts_with resolver HTTPS then
        ((case http_post net resolver DNS_PROBE_PACKET of
            RequestError \<Rightarrow> Inl (Doh DohRequest)
          | RequestTimeout \<Rightarrow> Inl (Doh DohTimeout)
          | Response status body \<Rightarrow>
              if \<not> is_success status then Inl (Doh (DohStatus status))
              else (case body of None \<Rightarrow> Inl (Doh DohBody) | Some _ \<Rightarrow> Inr elapsed)), connections, inbox)
      else if starts_with resolver QUIC then
        (case doq_measure_latency net elapsed connections resolver of
           (r, connections) \<Rightarrow> (if slow then Inl ResolveTimeout else r, connections, inbox))
      else
        (case parse_socket_addr (parse_v6 net) resolver of
           None \<Rightarrow> (Inl (InvalidResolver resolver), connections, inbox)
         | Some addr \<Rightarrow>
             if broken then (Inl Io, connections, inbox)
             else (case inbox of
                [] \<Rightarrow> (Inl UdpTimeout, connections, [])
              | (_, d) # rest \<Rightarrow> (Inr elapsed, connections, rest))))"

section \<open>Properties\<close>

text \<open>A network that never answers, for the witnesses.\<close>

definition silent_net :: "nat net" where
  "silent_net = \<lparr>udp_exchange = \<lambda>_ _. NoReply, http_post = \<lambda>_ _. RequestError, quic_connect = \<lambda>_ _. None,
      quic_alive = \<lambda>_. True, quic_exchange = \<lambda>_ _. None, parse_v6 = \<lambda>_. None, parse_ip = \<lambda>_ _. None,
      host_lookup = \<lambda>_ _. None\<rparr>"

lemma resolve_from_upstream_returns: "\<exists>r. resolve_from_upstream net p u src pool = Some r"
  using set_ecs_option_returns [of p src None] by (auto simp: resolve_from_upstream_def Let_def)

text \<open>Asking an upstream resolver always returns, and a successful answer carries its true length;
  over UDP it has at most 4096 bytes, over DoQ at most 65535.\<close>

theorem upstream_reply_length:
  "\<exists>r pool'. resolve_from_upstream net p u src pool = Some (r, pool') \<and>
     (\<forall>b n. r = Inr (b, n) \<longrightarrow> n = length b \<and> (\<not> starts_with u HTTPS \<longrightarrow> n \<le> 65535)
        \<and> (\<not> starts_with u HTTPS \<and> \<not> starts_with u QUIC \<longrightarrow> n \<le> 4096))"
proof -
  obtain r pool' where "resolve_from_upstream net p u src pool = Some (r, pool')"
    using resolve_from_upstream_returns by (metis surj_pair)
  moreover from this have "n = length b \<and> (\<not> starts_with u HTTPS \<longrightarrow> n \<le> 65535)
      \<and> (\<not> starts_with u HTTPS \<and> \<not> starts_with u QUIC \<longrightarrow> n \<le> 4096)" if "r = Inr (b, n)" for b n
    using that
    by (auto simp: resolve_from_upstream_def resolve_via_doh_def resolve_via_udp_def doq_resolve_def
        send_query_def DOQ_READ_LIMIT_def Let_def bind_eq_Some_conv
        split: if_splits option.splits http_outcome.splits udp_outcome.splits sum.splits prod.splits)
  ultimately show ?thesis by blast
qed

text \<open>What leaves for the upstream resolver does not depend on the last octet of the client's
  address: two clients of one /24 get the same answer from the same network, and leave the same
  connections behind.\<close>

theorem upstream_blind_to_last_octet:
  "resolve_from_upstream net p u (V4 (a, b, c, d)) pool = resolve_from_upstream net p u (V4 (a, b, c, d')) pool"
  by (simp add: resolve_from_upstream_def set_ecs_option_announced announced_def split: option.splits)

text \<open>Over DoQ the message ID on the wire is zero and the rest of the message is unchanged, with
  no length in front of it; the answer is the stream's bytes as they are.\<close>

theorem doq_wire_format:
  assumes "12 \<le> length p"
  shows "\<exists>w. send_query net conn p = (case quic_exchange net conn w of
      None \<Rightarrow> Inl Config
    | Some r \<Rightarrow> if 65535 < length r then Inl Config else Inr (r, length r))
    \<and> length w = length p \<and> take 2 w = [0, 0] \<and> drop 2 w = drop 2 p"
proof -
  let ?w = "p[0 := 0, 1 := 0]"
  have "?w = with_txid p 0 0" using assms by (simp add: with_txid_def)
  then have "take 2 ?w = [0, 0]" "drop 2 ?w = drop 2 p"
    using take2_with_txid [of p 0 0] drop2_with_txid [of p 0 0] assms by simp_all
  then show ?thesis
    using assms by (intro exI [of _ ?w]) (simp add: send_query_def DOQ_READ_LIMIT_def Let_def split: option.split)
qed

theorem doq_wire_format_witness:
  "send_query silent_net 0 DNS_PROBE_PACKET = Inl Config"
proof -
  have "12 \<le> length DNS_PROBE_PACKET" by (simp add: DNS_PROBE_PACKET_def)
  from doq_wire_format [OF this, of silent_net 0] show ?thesis by (auto simp: silent_net_def)
qed

text \<open>The DoQ pool hands out a stored connection only while it is alive and then dials nothing;
  otherwise it dials the parsed target and keeps the new connection; a failure changes nothing.
  Connections of other resolvers are never touched.\<close>

theorem doq_pool_contract:
  assumes "connection_for net pool r = (res, pool')"
  shows "(\<forall>x. x \<noteq> r \<longrightarrow> pool' x = pool x) \<and>
    (case res of
       Inr conn \<Rightarrow> pool' r = Some conn \<and>
         (pool' = pool \<and> quic_alive net conn \<or>
          (\<exists>t. parse_doq_target (parse_ip net) (host_lookup net) r = Inr t \<and> quic_connect net r t = Some conn))
     | Inl e \<Rightarrow> pool' = pool \<and> doq_cached net pool r = None)"
proof (cases "doq_cached net pool r")
  case (Some conn)
  then have "pool r = Some conn" "quic_alive net conn"
    by (auto simp: doq_cached_def split: option.splits if_splits)
  with Some assms show ?thesis by (auto simp: connection_for_def)
next
  case None
  then show ?thesis using assms
    by (cases "parse_doq_target (parse_ip net) (host_lookup net) r")
      (auto simp: connection_for_def doq_store_def split: option.splits)
qed

theorem doq_pool_contract_witness:
  "snd (connection_for silent_net (\<lambda>_. Some 7) (lit ''quic://a'')) (lit ''quic://b'') = Some 7"
proof -
  have eq: "connection_for silent_net (\<lambda>_. Some 7) (lit ''quic://a'') = (Inr 7, \<lambda>_. Some 7)"
    by (simp add: connection_for_def doq_cached_def silent_net_def)
  have "lit ''quic://b'' \<noteq> lit ''quic://a''" by code_simp
  then show ?thesis using conjunct1 [OF doq_pool_contract [OF eq]] eq by simp
qed

text \<open>A plain resolver passes its health check as soon as any datagram reaches the shared socket,
  whoever sent it: a dead resolver is counted as healthy, with the latency of another one's
  reply.\<close>

theorem health_check_credits_any_reply:
  assumes "\<not> starts_with resolver HTTPS" "\<not> starts_with resolver QUIC"
    and "parse_socket_addr (parse_v6 net) resolver = Some addr"
  shows "measure_latency net elapsed slow False resolver pool ((sender, d) # rest) = (Inr elapsed, pool, rest)
    \<and> measure_latency net elapsed slow False resolver pool [] = (Inl UdpTimeout, pool, [])"
  using assms by (simp add: measure_latency_def)

theorem health_check_credits_any_reply_witness:
  "fst (measure_latency silent_net 40 False False (lit ''10.0.0.1:53'') (\<lambda>_. None :: nat option)
      [(SockV4 (9, 9, 9, 9) 53, [])]) = Inr 40"
proof -
  have h: "\<not> starts_with (lit ''10.0.0.1:53'') HTTPS" "\<not> starts_with (lit ''10.0.0.1:53'') QUIC" by code_simp+
  have "split_once colon (lit ''10.0.0.1:53'') = Some (lit ''10.0.0.1'', [53, 51])"
    "parse_ipv4 (lit ''10.0.0.1'') = Some (10, 0, 0, 1)" by code_simp+
  then have "parse_socket_addr (\<lambda>_. None) (lit ''10.0.0.1:53'') = Some (SockV4 (10, 0, 0, 1) 53)"
    by (simp add: parse_socket_addr_def parse_port_53)
  then show ?thesis using health_check_credits_any_reply [OF h, of silent_net] by (simp add: silent_net_def)
qed

end
