(* ===== verification/Sealing.thy ===== *)
theory Sealing
  imports Dns_Prelude
begin

text \<open>
  Authenticated encryption and the two packet formats built on it: the obfuscated datagrams
  (\<open>shared/src/obfs.rs\<close>, ChaCha20-Poly1305) and the relay packets (\<open>encode_for_relay\<close> and
  \<open>decode_from_relay\<close> of \<open>dns_relay/src/relay.rs\<close>, AES-256-GCM), both a 12-byte nonce followed by
  the ciphertext. The ciphers are crates: the record \<open>aead\<close> holds their two calls, and
  \<open>aead_contract\<close> what their documentation promises. Every random value the code draws is an
  argument. \<open>codec\<close> is the contract of both formats that their users rely on.
\<close>

section \<open>The cipher\<close>

record 'k aead =
  aead_encrypt :: "'k \<Rightarrow> bytes \<Rightarrow> bytes \<Rightarrow> bytes option" \<comment> \<open>key, nonce, plaintext\<close>
  aead_decrypt :: "'k \<Rightarrow> bytes \<Rightarrow> bytes \<Rightarrow> bytes option" \<comment> \<open>key, nonce, ciphertext with its tag\<close>

text \<open>Encryption succeeds on every message of a size that fits a machine here, adds a 16-byte tag,
  and decryption accepts exactly what was encrypted under the key and the nonce.\<close>

locale aead_contract =
  fixes A :: "'k aead"
  assumes encrypt_total: "length nonce = 12 \<Longrightarrow> length m < 2 ^ 32 \<Longrightarrow> \<exists>c. aead_encrypt A k nonce m = Some c"
    and encrypt_length: "aead_encrypt A k nonce m = Some c \<Longrightarrow> length c = length m + 16"
    and decrypt_iff: "length nonce = 12 \<Longrightarrow>
      aead_decrypt A k nonce c = Some m \<longleftrightarrow> aead_encrypt A k nonce m = Some c"

section \<open>Obfuscated datagrams\<close>

definition NONCE_LEN :: nat where "NONCE_LEN = 12"
definition KEY_LEN :: nat where "KEY_LEN = 32"
definition LEN_PREFIX :: nat where "LEN_PREFIX = 2"
definition TAG_LEN :: nat where "TAG_LEN = 16"
definition PAD_MIN :: nat where "PAD_MIN = 32"
definition PAD_MAX :: nat where "PAD_MAX = 192"

lemmas obfs_constants = NONCE_LEN_def KEY_LEN_def LEN_PREFIX_def TAG_LEN_def PAD_MIN_def PAD_MAX_def

text \<open>The random values of one call of \<open>encode\<close>: the number that the padding length comes from,
  the padding bytes and the nonce.\<close>

record obfs_random =
  pad_rand :: u16
  pad_byte :: "nat \<Rightarrow> u8"
  obfs_nonce :: bytes

definition random_padding :: "(nat \<Rightarrow> u8) \<Rightarrow> nat \<Rightarrow> bytes" where
  "random_padding rnd len = map rnd [0..<len]"

definition obfs_pad_len :: "u16 \<Rightarrow> nat" where
  "obfs_pad_len r = (let span = (of_nat (PAD_MAX - PAD_MIN + 1) :: u16) in PAD_MIN + unat (r mod span))"

text \<open>\<open>encrypt(..).expect(..)\<close> panics when the cipher refuses.\<close>

definition obfs_encode :: "'k aead \<Rightarrow> 'k \<Rightarrow> obfs_random \<Rightarrow> bytes \<Rightarrow> bytes run" where
  "obfs_encode A key r query = do {
     let plaintext = to_be16 (of_nat (length query)) @ query
       @ random_padding (pad_byte r) (obfs_pad_len (pad_rand r));
     ciphertext \<leftarrow> aead_encrypt A key (obfs_nonce r) plaintext;
     Some (obfs_nonce r @ ciphertext) }"

definition obfs_decode :: "'k aead \<Rightarrow> 'k \<Rightarrow> bytes \<Rightarrow> bytes option run" where
  "obfs_decode A key datagram =
     (if length datagram < NONCE_LEN + TAG_LEN + LEN_PREFIX then Some None
      else case aead_decrypt A key (take NONCE_LEN datagram) (drop NONCE_LEN datagram) of
        None \<Rightarrow> Some None
      | Some plaintext \<Rightarrow>
          if length plaintext < LEN_PREFIX then Some None
          else do {
            w \<leftarrow> rd16 plaintext 0;
            let len = unat w;
            if length plaintext < LEN_PREFIX + len then Some None
            else do { q \<leftarrow> sub_slice plaintext LEN_PREFIX (LEN_PREFIX + len); Some (Some q) } })"

datatype obfs_error = BadKey

text \<open>\<open>b64\<close> is the decoder of the crate \<open>base64\<close>, \<open>mk\<close> the cipher's constructor.\<close>

definition obfs_from_base64 :: "(rstr \<Rightarrow> bytes option) \<Rightarrow> (bytes \<Rightarrow> 'k) \<Rightarrow> rstr \<Rightarrow> obfs_error + 'k" where
  "obfs_from_base64 b64 mk s =
     (case b64 s of
        None \<Rightarrow> Inl BadKey
      | Some bs \<Rightarrow> if length bs = KEY_LEN then Inr (mk bs) else Inl BadKey)"

section \<open>Relay packets\<close>

definition encode_for_relay :: "'k aead \<Rightarrow> 'k \<Rightarrow> bytes \<Rightarrow> bytes \<Rightarrow> bytes run" where
  "encode_for_relay A key nonce dns_message = do {
     ciphertext \<leftarrow> aead_encrypt A key nonce dns_message;
     Some (nonce @ ciphertext) }"

definition decode_from_relay :: "'k aead \<Rightarrow> 'k \<Rightarrow> bytes \<Rightarrow> bytes option" where
  "decode_from_relay A key p =
     (if length p < 12 then None else aead_decrypt A key (take 12 p) (drop 12 p))"

section \<open>What the users of a format rely on\<close>

text \<open>\<open>ok_random\<close> are the random values the code can draw, \<open>fits\<close> the messages it sends.\<close>

locale codec =
  fixes wrap :: "'r \<Rightarrow> bytes \<Rightarrow> bytes run"
    and unwrap :: "bytes \<Rightarrow> bytes option run"
    and ok_random :: "'r \<Rightarrow> bool"
    and fits :: "bytes \<Rightarrow> bool"
  assumes wrap_total: "ok_random r \<Longrightarrow> fits m \<Longrightarrow> \<exists>d. wrap r m = Some d"
    and unwrap_wrap: "ok_random r \<Longrightarrow> fits m \<Longrightarrow> wrap r m = Some d \<Longrightarrow> unwrap d = Some (Some m)"
    and unwrap_total: "\<exists>r. unwrap d = Some r"
begin

lemma roundtrip: "ok_random r \<Longrightarrow> fits m \<Longrightarrow> \<exists>d. wrap r m = Some d \<and> unwrap d = Some (Some m)"
  using wrap_total unwrap_wrap by blast

lemma wrap_inj:
  "ok_random r \<Longrightarrow> fits m \<Longrightarrow> ok_random r' \<Longrightarrow> fits m' \<Longrightarrow> wrap r m = Some d \<Longrightarrow> wrap r' m' = Some d \<Longrightarrow> m = m'"
  using unwrap_wrap [of r m d] unwrap_wrap [of r' m' d] by simp

text \<open>One question and one reply over a channel that hands each side what the other sent: the
  server works on the client's question, and the client gets the server's reply.\<close>

lemma exchange:
  assumes "ok_random r" "fits q" "ok_random r'" "fits (serve q)"
  shows "\<exists>d d'. wrap r q = Some d \<and> unwrap d = Some (Some q)
    \<and> wrap r' (serve q) = Some d' \<and> unwrap d' = Some (Some (serve q))"
  using roundtrip [of r q] roundtrip [of r' "serve q"] assms by blast

end

definition obfs_random_ok :: "obfs_random \<Rightarrow> bool" where
  "obfs_random_ok r \<longleftrightarrow> length (obfs_nonce r) = 12"

definition relay_nonce_ok :: "bytes \<Rightarrow> bool" where
  "relay_nonce_ok n \<longleftrightarrow> length n = 12"

lemma obfs_pad_len_bounds: "32 \<le> obfs_pad_len r \<and> obfs_pad_len r \<le> 192"
proof -
  have "unat (r mod 161) < 161"
    by (simp add: unat_mod_distrib)
  then show ?thesis by (simp add: obfs_pad_len_def obfs_constants)
qed

lemma length_random_padding [simp]: "length (random_padding rnd n) = n"
  by (simp add: random_padding_def)

section \<open>Both formats keep that contract\<close>

context aead_contract
begin

lemma obfs_decode_sealed:
  assumes "length n = 12" "aead_encrypt A k n (to_be16 w @ m @ pad) = Some c" "length m = unat w"
  shows "obfs_decode A k (n @ c) = Some (Some m)"
proof -
  have c: "length c = length m + length pad + 18"
    using encrypt_length [OF assms(2)] by simp
  have "aead_decrypt A k n c = Some (to_be16 w @ m @ pad)"
    using assms decrypt_iff by blast
  moreover have "rd16 (to_be16 w @ m @ pad) 0 = Some w"
    by (simp add: rd16_in to_be16_def)
  moreover have "sub_slice (to_be16 w @ m @ pad) 2 (2 + unat w) = Some m"
    using assms(3) by (simp add: sub_slice_in)
  ultimately show ?thesis
    using assms(1,3) c by (simp add: obfs_decode_def obfs_constants)
qed

lemma obfs_encode_total:
  assumes "obfs_random_ok r" "length m < 65536"
  shows "\<exists>d. obfs_encode A k r m = Some d"
proof -
  have "length (to_be16 (of_nat (length m)) @ m @ random_padding (pad_byte r) (obfs_pad_len (pad_rand r))) < 2 ^ 32"
    using assms(2) obfs_pad_len_bounds [of "pad_rand r"] by simp
  then obtain c where "aead_encrypt A k (obfs_nonce r) (to_be16 (of_nat (length m)) @ m
      @ random_padding (pad_byte r) (obfs_pad_len (pad_rand r))) = Some c"
    using assms(1) encrypt_total unfolding obfs_random_ok_def by blast
  then show ?thesis by (simp add: obfs_encode_def)
qed

lemma obfs_encodeE:
  assumes "obfs_encode A k r m = Some d"
  obtains c where "aead_encrypt A k (obfs_nonce r) (to_be16 (of_nat (length m)) @ m
      @ random_padding (pad_byte r) (obfs_pad_len (pad_rand r))) = Some c" "d = obfs_nonce r @ c"
  using assms by (auto simp: obfs_encode_def bind_eq_Some_conv Let_def)

lemma obfs_encode_length:
  assumes "obfs_random_ok r" "obfs_encode A k r m = Some d"
  shows "length d = length m + obfs_pad_len (pad_rand r) + 30"
  by (rule obfs_encodeE [OF assms(2)]) (use assms(1) in \<open>simp add: obfs_random_ok_def encrypt_length\<close>)

lemma obfs_decode_length:
  assumes "obfs_decode A k d = Some (Some q)"
  shows "length q + 30 \<le> length d"
proof -
  obtain m where m: "28 < length d" "aead_decrypt A k (take 12 d) (drop 12 d) = Some m" "length q + 2 \<le> length m"
    using assms by (auto simp: obfs_decode_def obfs_constants run_simps Let_def split: option.splits if_splits)
  moreover have "length (take 12 d) = 12" using m(1) by simp
  ultimately have "length (drop 12 d) = length m + 16" using decrypt_iff encrypt_length by blast
  with m show ?thesis by simp
qed

lemma obfs_decode_total: "\<exists>r. obfs_decode A k d = Some r"
  by (auto simp: obfs_decode_def obfs_constants run_simps Let_def split: option.splits)

lemma relay_decode_sealed:
  "length n = 12 \<Longrightarrow> aead_encrypt A k n m = Some c \<Longrightarrow> decode_from_relay A k (n @ c) = Some m"
  by (simp add: decode_from_relay_def decrypt_iff)

lemma relay_decode_iff:
  "decode_from_relay A k b = Some m \<longleftrightarrow> (\<exists>n c. length n = 12 \<and> aead_encrypt A k n m = Some c \<and> b = n @ c)"
proof
  assume d: "decode_from_relay A k b = Some m"
  then have n: "length (take 12 b) = 12" "aead_decrypt A k (take 12 b) (drop 12 b) = Some m"
    by (auto simp: decode_from_relay_def split: if_splits)
  then have "aead_encrypt A k (take 12 b) m = Some (drop 12 b)" using decrypt_iff by blast
  with n(1) show "\<exists>n c. length n = 12 \<and> aead_encrypt A k n m = Some c \<and> b = n @ c"
    by (metis append_take_drop_id)
qed (auto intro: relay_decode_sealed)

end

sublocale aead_contract \<subseteq> obfs: codec "obfs_encode A k" "obfs_decode A k" obfs_random_ok "\<lambda>m. length m < 65536"
proof
  show "\<exists>d. obfs_encode A k r m = Some d" if "obfs_random_ok r" "length m < 65536" for r m
    using that by (rule obfs_encode_total)
  show "obfs_decode A k d = Some (Some m)"
    if "obfs_random_ok r" "length m < 65536" "obfs_encode A k r m = Some d" for r m d
    using that(3)
    by (rule obfs_encodeE) (use that in \<open>auto simp: obfs_random_ok_def intro!: obfs_decode_sealed\<close>)
  show "\<exists>r. obfs_decode A k d = Some r" for d by (rule obfs_decode_total)
qed

sublocale aead_contract \<subseteq> relay: codec "encode_for_relay A k" "\<lambda>d. Some (decode_from_relay A k d)"
  relay_nonce_ok "\<lambda>m. length m < 2 ^ 32"
proof
  show "\<exists>d. encode_for_relay A k n m = Some d" if "relay_nonce_ok n" "length m < 2 ^ 32" for n m
    using encrypt_total [OF that(1) [unfolded relay_nonce_ok_def] that(2), of k]
    by (auto simp: encode_for_relay_def)
  show "Some (decode_from_relay A k d) = Some (Some m)"
    if "relay_nonce_ok n" "length m < 2 ^ 32" "encode_for_relay A k n m = Some d" for n m d
    using that by (auto simp: encode_for_relay_def relay_nonce_ok_def bind_eq_Some_conv relay_decode_sealed)
  show "\<exists>r. Some (decode_from_relay A k d) = Some r" for d by simp
qed

section \<open>A cipher that keeps the contract\<close>

text \<open>A toy cipher (exclusive or with the key, a checksum as the tag) shows that the contract can
  hold; the code's own formats are the instances of \<open>codec\<close> above.\<close>

definition checksum :: "u8 \<Rightarrow> bytes \<Rightarrow> bytes \<Rightarrow> bytes" where
  "checksum k n m = replicate 16 (fold (\<lambda>x s. 3 * s + x) (n @ m) k)"

definition xor_encrypt :: "u8 \<Rightarrow> bytes \<Rightarrow> bytes \<Rightarrow> bytes" where
  "xor_encrypt k n m = map (\<lambda>x. x XOR k) m @ checksum k n m"

definition xor_decrypt :: "u8 \<Rightarrow> bytes \<Rightarrow> bytes \<Rightarrow> bytes option" where
  "xor_decrypt k n c =
     (let m = map (\<lambda>x. x XOR k) (take (length c - 16) c) in if xor_encrypt k n m = c then Some m else None)"

definition xor_aead :: "u8 aead" where
  "xor_aead = \<lparr>aead_encrypt = (\<lambda>k n m. Some (xor_encrypt k n m)), aead_decrypt = xor_decrypt\<rparr>"

lemma xor_twice: "map (\<lambda>x. x XOR k) (map (\<lambda>x. x XOR k) m) = m" for m :: bytes
  by (induction m) (simp_all add: xor.assoc)

interpretation xor: aead_contract xor_aead
proof
  fix n m c :: bytes and k :: u8
  show "\<exists>c. aead_encrypt xor_aead k n m = Some c" by (simp add: xor_aead_def)
  show "aead_encrypt xor_aead k n m = Some c \<Longrightarrow> length c = length m + 16"
    by (auto simp: xor_aead_def xor_encrypt_def checksum_def)
  have "xor_decrypt k n (xor_encrypt k n m) = Some m"
    using xor_twice [of k m] by (simp add: xor_decrypt_def xor_encrypt_def checksum_def Let_def)
  then show "aead_decrypt xor_aead k n c = Some m \<longleftrightarrow> aead_encrypt xor_aead k n m = Some c"
    by (auto simp: xor_aead_def) (auto simp: xor_decrypt_def Let_def split: if_splits)
qed

section \<open>Properties\<close>

text \<open>C23: A query of less than 64 KiB that is obfuscated comes out of the decoder unchanged, whatever
  nonce and padding were drawn; its datagram is 62 to 222 bytes longer, so a query that fits the
  1024-byte client buffer fits the 1310-byte buffer of the obfuscated listener.\<close>

theorem obfs_roundtrip:
  assumes "aead_contract A" "length (obfs_nonce r) = 12" "length q < 65536"
  shows "\<exists>d. obfs_encode A k r q = Some d \<and> obfs_decode A k d = Some (Some q)
    \<and> length q + 62 \<le> length d \<and> length d \<le> length q + 222 \<and> (length q \<le> 1024 \<longrightarrow> length d \<le> 1310)"
proof -
  have r: "obfs_random_ok r" using assms(2) by (simp add: obfs_random_ok_def)
  obtain d where d: "obfs_encode A k r q = Some d" "obfs_decode A k d = Some (Some q)"
    using aead_contract.obfs_decode_sealed [OF assms(1,2)] aead_contract.obfs_encode_total [OF assms(1) r assms(3)]
      aead_contract.obfs_encodeE [OF assms(1)] assms(3) by (metis unat_of_nat_u16)
  have "length d = length q + obfs_pad_len (pad_rand r) + 30"
    by (rule aead_contract.obfs_encode_length [OF assms(1) r d(1)])
  with d obfs_pad_len_bounds [of "pad_rand r"] show ?thesis by auto
qed

theorem obfs_roundtrip_witness:
  "\<exists>d. obfs_encode xor_aead 7 \<lparr>pad_rand = 5, pad_byte = of_nat, obfs_nonce = replicate 12 1\<rparr> [1, 2, 3] = Some d
     \<and> obfs_decode xor_aead 7 d = Some (Some [1, 2, 3])"
proof -
  have "length (obfs_nonce \<lparr>pad_rand = 5, pad_byte = of_nat, obfs_nonce = replicate 12 1\<rparr>) = 12"
    "length [1, 2, 3 :: u8] < 65536" by simp_all
  from obfs_roundtrip [OF xor.aead_contract_axioms this] show ?thesis by blast
qed

text \<open>C16: The obfuscated listener accepts a datagram exactly when it is a nonce followed by an
  encryption, under the key and that nonce, of a length prefix, that many bytes and some padding; it
  hands on those bytes. Anything else gives nothing, and no datagram makes the decoder panic. The
  decision depends on the datagram alone: nonces are not remembered, so a datagram that is sent
  again is accepted again, where the README of the proxy says that a replay is dropped.\<close>

theorem obfs_accepts_only_sealed:
  assumes "aead_contract A"
  shows "(\<exists>r. obfs_decode A k d = Some r) \<and>
    (obfs_decode A k d = Some (Some q) \<longleftrightarrow>
      (\<exists>n w pad c. d = n @ c \<and> length n = 12 \<and> length q = unat w
        \<and> aead_encrypt A k n (to_be16 w @ q @ pad) = Some c))"
proof (intro conjI iffI)
  show "\<exists>r. obfs_decode A k d = Some r" by (rule aead_contract.obfs_decode_total [OF assms])
  assume "\<exists>n w pad c. d = n @ c \<and> length n = 12 \<and> length q = unat w
        \<and> aead_encrypt A k n (to_be16 w @ q @ pad) = Some c"
  then show "obfs_decode A k d = Some (Some q)"
    using aead_contract.obfs_decode_sealed [OF assms] by blast
next
  let ?n = "take 12 d" and ?c = "drop 12 d"
  assume "obfs_decode A k d = Some (Some q)"
  then obtain p where len: "30 \<le> length d" and p: "aead_decrypt A k ?n ?c = Some p" "2 \<le> length p"
    "2 + unat (be16 (p ! 0) (p ! 1)) \<le> length p" "q = take (unat (be16 (p ! 0) (p ! 1))) (drop 2 p)"
    by (auto simp: obfs_decode_def obfs_constants run_simps Let_def split: if_splits option.splits)
  let ?w = "be16 (p ! 0) (p ! 1)"
  let ?pad = "drop (unat ?w) (drop 2 p)"
  have "to_be16 ?w @ q @ ?pad = p"
    using p(2,4) by (cases p; cases "tl p") auto
  moreover have n: "length ?n = 12" using len by simp
  moreover have "aead_encrypt A k ?n p = Some ?c"
    using p(1) aead_contract.decrypt_iff [OF assms n] by blast
  ultimately have "aead_encrypt A k ?n (to_be16 ?w @ q @ ?pad) = Some ?c" by simp
  moreover have "length q = unat ?w" using p(3,4) by simp
  ultimately show "\<exists>n w pad c. d = n @ c \<and> length n = 12 \<and> length q = unat w
        \<and> aead_encrypt A k n (to_be16 w @ q @ pad) = Some c"
    using n append_take_drop_id [of 12 d, symmetric] by blast
qed

theorem obfs_accepts_only_sealed_witness:
  "obfs_decode xor_aead 7 (replicate 12 3 @ xor_encrypt 7 (replicate 12 3) ([0, 2, 8, 9] @ replicate 32 1)) = Some (Some [8, 9]) \<and>
     \<not> (\<exists>n w pad c. [1, 2, 3] = n @ c \<and> length n = 12 \<and> length [9 :: u8] = unat w \<and>
        aead_encrypt xor_aead 7 n (to_be16 w @ [9] @ pad) = Some c)"
proof
  note iff = obfs_accepts_only_sealed [OF xor.aead_contract_axioms, THEN conjunct2]
  let ?d = "replicate 12 3 @ xor_encrypt 7 (replicate 12 3) ([0, 2, 8, 9] @ replicate 32 1)"
  show "obfs_decode xor_aead 7 ?d = Some (Some [8, 9])"
    unfolding iff
    by (rule exI [of _ "replicate 12 3"], rule exI [of _ 2], rule exI [of _ "replicate 32 1"], rule exI)
      (simp add: xor_aead_def to_be16_def)
  show "\<not> (\<exists>n w pad c. [1, 2, 3] = n @ c \<and> length n = 12 \<and> length [9 :: u8] = unat w \<and>
      aead_encrypt xor_aead 7 n (to_be16 w @ [9] @ pad) = Some c)"
    unfolding iff [symmetric] by (simp add: obfs_decode_def obfs_constants)
qed

text \<open>A DNS message sealed for the relay is opened to the same message, 28 bytes are added, and
  the relay client opens only what was sealed under its key.\<close>

theorem relay_packet_roundtrip:
  assumes "aead_contract A" "length n = 12" "length m < 2 ^ 32"
  shows "(\<exists>d. encode_for_relay A k n m = Some d \<and> decode_from_relay A k d = Some m \<and> length d = length m + 28)
    \<and> (decode_from_relay A k d' = Some m' \<longleftrightarrow>
        (\<exists>n'. length n' = 12 \<and> encode_for_relay A k n' m' = Some d'))"
proof (rule conjI)
  obtain c where c: "aead_encrypt A k n m = Some c"
    using aead_contract.encrypt_total [OF assms] by blast
  then show "\<exists>d. encode_for_relay A k n m = Some d \<and> decode_from_relay A k d = Some m \<and> length d = length m + 28"
    using assms(2) aead_contract.encrypt_length [OF assms(1) c] aead_contract.relay_decode_sealed [OF assms(1,2) c]
    by (simp add: encode_for_relay_def)
  show "decode_from_relay A k d' = Some m' \<longleftrightarrow> (\<exists>n'. length n' = 12 \<and> encode_for_relay A k n' m' = Some d')"
  proof
    assume open_eq: "decode_from_relay A k d' = Some m'"
    then have "length (take 12 d') = 12" "aead_decrypt A k (take 12 d') (drop 12 d') = Some m'"
      by (auto simp: decode_from_relay_def split: if_splits)
    then have "encode_for_relay A k (take 12 d') m' = Some d'"
      using aead_contract.decrypt_iff [OF assms(1)] by (simp add: encode_for_relay_def)
    with \<open>length (take 12 d') = 12\<close> show "\<exists>n'. length n' = 12 \<and> encode_for_relay A k n' m' = Some d'" by blast
  next
    assume "\<exists>n'. length n' = 12 \<and> encode_for_relay A k n' m' = Some d'"
    then show "decode_from_relay A k d' = Some m'"
      using aead_contract.relay_decode_sealed [OF assms(1)] by (auto simp: encode_for_relay_def bind_eq_Some_conv)
  qed
qed

theorem relay_packet_roundtrip_witness:
  "\<exists>d. encode_for_relay xor_aead 7 (replicate 12 1) [1, 2, 3] = Some d \<and> decode_from_relay xor_aead 7 d = Some [1, 2, 3]"
proof -
  have "length (replicate 12 (1 :: u8)) = 12" "length [1, 2, 3 :: u8] < 2 ^ 32" by simp_all
  from relay_packet_roundtrip [OF xor.aead_contract_axioms this] show ?thesis by blast
qed

end
