(* ===== verification/Rotation.thy ===== *)
theory Rotation
  imports Dns_Prelude
begin

text \<open>
  The interface of the atomic counters that spread queries over targets (\<open>RelayPicker::pick\<close> and
  \<open>TargetPicker::try_order\<close>): \<open>fetch_add(1)\<close> on a 64-bit counter, reduced by the number of
  targets. The counter wraps around; fairness is stated for runs that do not cross the wrap.
\<close>

locale rotation =
  fixes size_of :: "'p \<Rightarrow> nat"
    and ticket :: "'p \<Rightarrow> u64"
    and take_ticket :: "'p \<Rightarrow> (nat \<times> 'p) run"
  assumes ticket_some: "0 < size_of p \<Longrightarrow> \<exists>p'. take_ticket p = Some (unat (ticket p) mod size_of p, p')
      \<and> ticket p' = ticket p + 1 \<and> size_of p' = size_of p"
begin

fun choices :: "nat \<Rightarrow> 'p \<Rightarrow> nat list run" where
  "choices 0 p = Some []"
| "choices (Suc n) p = do { (i, p') \<leftarrow> take_ticket p; is \<leftarrow> choices n p'; Some (i # is) }"

lemma choices_eq:
  assumes "0 < size_of p"
  shows "choices n p = Some (map (\<lambda>k. unat (ticket p + of_nat k) mod size_of p) [0..<n])"
  using assms
proof (induction n arbitrary: p)
  case (Suc n)
  from ticket_some [OF Suc.prems] obtain p' where p': "take_ticket p = Some (unat (ticket p) mod size_of p, p')"
    "ticket p' = ticket p + 1" "size_of p' = size_of p" by blast
  have "[0..<Suc n] = 0 # map Suc [0..<n]"
    by (metis map_Suc_upt upt_conv_Cons zero_less_Suc)
  with Suc.IH [of p'] Suc.prems p' show ?case by (simp add: comp_def add.assoc)
qed simp

lemma mod_window:
  assumes "0 < n"
  shows "set (map (\<lambda>k. (a + k) mod n) [0..<n]) = {..<n}"
proof
  show "{..<n} \<subseteq> set (map (\<lambda>k. (a + k) mod n) [0..<n])"
  proof
    fix i
    assume "i \<in> {..<n}"
    then have i: "i < n" by simp
    let ?k = "(i + n - a mod n) mod n"
    have "(a + ?k) mod n = (a mod n + (i + n - a mod n)) mod n" by (simp add: mod_simps)
    also have "a mod n + (i + n - a mod n) = i + n"
      using mod_le_divisor [OF assms, of a] by linarith
    finally have "(a + ?k) mod n = i" using i by simp
    moreover have "?k < n" using assms by simp
    ultimately show "i \<in> set (map (\<lambda>k. (a + k) mod n) [0..<n])" by force
  qed
qed (use assms in auto)

lemma unat_ticket: "unat w + k < 2 ^ 64 \<Longrightarrow> unat (w + of_nat k) = unat w + k" for w :: u64
  by (simp add: unat_word_ariths unat_of_nat take_bit_nat_eq_self_iff)

text \<open>As many consecutive choices as there are targets reach every target once.\<close>

lemma choices_fair:
  assumes "0 < size_of p" "unat (ticket p) + size_of p < 2 ^ 64"
  shows "\<exists>is. choices (size_of p) p = Some is \<and> distinct is \<and> set is = {..<size_of p}"
proof -
  let ?n = "size_of p"
  let ?is = "map (\<lambda>k. unat (ticket p + of_nat k) mod ?n) [0..<?n]"
  have "?is = map (\<lambda>k. (unat (ticket p) + k) mod ?n) [0..<?n]"
    using assms(2) by (auto simp: unat_ticket)
  then have "set ?is = {..<?n}" using mod_window [OF assms(1)] by presburger
  moreover from this have "distinct ?is"
    by (intro card_distinct) simp
  ultimately show ?thesis using choices_eq [OF assms(1)] by blast
qed

lemma choice_in_range:
  assumes "0 < size_of p" "take_ticket p = Some (i, p')"
  shows "i < size_of p"
proof -
  from ticket_some [OF assms(1)] assms(2) have "i = unat (ticket p) mod size_of p" by auto
  then show ?thesis using assms(1) by simp
qed

end

end
