(* ===== verification/Relay.thy ===== *)
theory Relay
  imports Upstream Sealing Rotation
begin

text \<open>
  The encrypted relays (\<open>dns_relay/src/relay.rs\<close>): one relay instance, its two transports, how the
  instances are built from the configuration, and the picker that takes them in turn.

  The crates behind it are the record \<open>relay_env\<close>: the URL parser, base64, HMAC-SHA256, JSON over
  HTTP and the client builder. An HTTP client is the host it serves with the address pinned for it.
\<close>

section \<open>The crates\<close>

record http_client =
  pinned :: "(rstr \<times> ipv4) option" \<comment> \<open>the host that resolves to a fixed address on port 443\<close>

datatype json_outcome =
    JsonFailed \<comment> \<open>sending failed, or the answer is not the expected JSON\<close>
  | JsonReply "rstr option" "rstr option" \<comment> \<open>the fields \<open>error\<close> and \<open>data\<close>\<close>

record 'k relay_env =
  cipher :: "'k aead"
  mk_key :: "bytes \<Rightarrow> 'k"
  b64_encode :: "bytes \<Rightarrow> rstr"
  b64_decode :: "rstr \<Rightarrow> bytes option"
  hmac_sha256 :: "'k \<Rightarrow> bytes \<Rightarrow> bytes"
  url_host :: "rstr \<Rightarrow> rstr option option" \<comment> \<open>\<open>None\<close>: not a URL; \<open>Some None\<close>: no host\<close>
  client_ok :: "http_client \<Rightarrow> bool" \<comment> \<open>\<open>builder.build()\<close> succeeds\<close>
  relay_post :: "http_client \<Rightarrow> rstr \<Rightarrow> bytes \<Rightarrow> http_outcome"
  relay_post_json :: "http_client \<Rightarrow> rstr \<Rightarrow> rstr \<times> rstr \<Rightarrow> json_outcome" \<comment> \<open>the fields \<open>data\<close> and \<open>k\<close>\<close>

section \<open>Keys and tags\<close>

definition load_key_from_str :: "'k relay_env \<Rightarrow> rstr \<Rightarrow> error + 'k" where
  "load_key_from_str E key_b64 =
     (case b64_decode E key_b64 of
        None \<Rightarrow> Inl Config
      | Some bs \<Rightarrow> if length bs \<noteq> 32 then Inl Config else Inr (mk_key E bs))"

definition hex_digit :: "nat \<Rightarrow> u8" where
  "hex_digit n = (if n < 10 then of_nat (48 + n) else of_nat (87 + n))"

definition hex_encode :: "bytes \<Rightarrow> rstr" where
  "hex_encode bs = concat (map (\<lambda>b. [hex_digit (unat b div 16), hex_digit (unat b mod 16)]) bs)"

definition cache_key_for_domain :: "'k relay_env \<Rightarrow> 'k \<Rightarrow> rstr \<Rightarrow> rstr" where
  "cache_key_for_domain E key domain = hex_encode (hmac_sha256 E key (map ascii_lower domain))"

section \<open>Through one relay\<close>

definition resolve_via_relay ::
  "'k relay_env \<Rightarrow> http_client \<Rightarrow> rstr \<Rightarrow> 'k \<Rightarrow> bytes \<Rightarrow> bytes \<Rightarrow> (error + bytes) run" where
  "resolve_via_relay E http worker_url key nonce dns_query = do {
     encrypted \<leftarrow> encode_for_relay (cipher E) key nonce dns_query;
     Some (case relay_post E http worker_url encrypted of
         Response _ (Some body) \<Rightarrow>
           (case decode_from_relay (cipher E) key body of None \<Rightarrow> Inl Config | Some reply \<Rightarrow> Inr reply)
       | _ \<Rightarrow> Inl Config) }"

definition resolve_via_relay_apps_script ::
  "'k relay_env \<Rightarrow> http_client \<Rightarrow> rstr \<Rightarrow> 'k \<Rightarrow> bytes \<Rightarrow> rstr \<Rightarrow> bytes \<Rightarrow> (error + bytes) run" where
  "resolve_via_relay_apps_script E http script_url key nonce domain dns_query = do {
     encrypted \<leftarrow> encode_for_relay (cipher E) key nonce dns_query;
     Some (case relay_post_json E http script_url (b64_encode E encrypted, cache_key_for_domain E key domain) of
         JsonFailed \<Rightarrow> Inl Config
       | JsonReply (Some err) _ \<Rightarrow> Inl Config
       | JsonReply None None \<Rightarrow> Inl Config
       | JsonReply None (Some data_b64) \<Rightarrow>
           (case b64_decode E data_b64 of
              None \<Rightarrow> Inl Config
            | Some encrypted_reply \<Rightarrow>
                (case decode_from_relay (cipher E) key encrypted_reply of
                   None \<Rightarrow> Inl Config | Some reply \<Rightarrow> Inr reply))) }"

definition resolve_domain_via_relay ::
  "'k relay_env \<Rightarrow> http_client \<Rightarrow> rstr \<Rightarrow> 'k \<Rightarrow> bytes \<Rightarrow> u16 \<Rightarrow> rstr \<Rightarrow> (error + ipv4 list) run" where
  "resolve_domain_via_relay E http worker_url key nonce txid domain = do {
     encrypted \<leftarrow> encode_for_relay (cipher E) key nonce (build_lookup_query txid domain);
     (case relay_post E http worker_url encrypted of
        Response status (Some body) \<Rightarrow>
          if \<not> is_success status then Some (Inl Config)
          else (case decode_from_relay (cipher E) key body of
              None \<Rightarrow> Some (Inl Config)
            | Some reply \<Rightarrow> do {
                ips \<leftarrow> parse_a_records reply;
                Some (if ips = [] then Inl Config else Inr ips) })
      | _ \<Rightarrow> Some (Inl Config)) }"

definition host_from_url :: "'k relay_env \<Rightarrow> rstr \<Rightarrow> error + rstr" where
  "host_from_url E url_str =
     (case url_host E url_str of
        None \<Rightarrow> Inl Config
      | Some None \<Rightarrow> Inl Config
      | Some (Some h) \<Rightarrow> Inr h)"

definition client_for_relay :: "'k relay_env \<Rightarrow> rstr \<Rightarrow> ipv4 list option \<Rightarrow> error + http_client" where
  "client_for_relay E worker_url ipv4 =
     try_then (host_from_url E worker_url) (\<lambda>host.
     try_then (case ipv4 of
         None \<Rightarrow> Inr None
       | Some [] \<Rightarrow> Inl Config
       | Some (ip # _) \<Rightarrow> Inr (Some (host, ip))) (\<lambda>pin.
     let client = \<lparr>pinned = pin\<rparr> in if client_ok E client then Inr client else Inl Config))"

section \<open>Instances\<close>

datatype relay_transport = Direct | GoogleChained

record relay_conf =
  relay_key :: rstr
  relay_url :: rstr
  relay_transport :: relay_transport

record 'k relay_instance =
  relay_client :: http_client
  ri_key :: 'k
  ri_url :: rstr
  ri_transport :: relay_transport

text \<open>\<open>RelayInstance::new\<close>; \<open>resolve\<close> is \<open>resolver_picker.resolve\<close> at this moment. Every failure is
  reported as \<open>RelayErr\<close>.\<close>

definition relay_instance_new ::
  "'k relay_env \<Rightarrow> (rstr \<Rightarrow> error + ipv4 list) \<Rightarrow> bool \<Rightarrow> relay_conf \<Rightarrow> error + 'k relay_instance" where
  "relay_instance_new E resolve resolve_ipv4 conf =
     (case host_from_url E (relay_url conf) of
        Inl _ \<Rightarrow> Inl RelayErr
      | Inr relay_host \<Rightarrow>
          try_then (if resolve_ipv4
              then (case resolve relay_host of
                  Inl _ \<Rightarrow> Inl RelayErr
                | Inr resolved \<Rightarrow> if resolved = [] then Inl RelayErr else Inr (Some resolved))
              else Inr None) (\<lambda>ipv4.
          (case client_for_relay E (relay_url conf) ipv4 of
             Inl _ \<Rightarrow> Inl RelayErr
           | Inr client \<Rightarrow>
               (case load_key_from_str E (relay_key conf) of
                  Inl _ \<Rightarrow> Inl RelayErr
                | Inr key \<Rightarrow> Inr \<lparr>relay_client = client, ri_key = key, ri_url = relay_url conf,
                    ri_transport = relay_transport conf\<rparr>))))"

definition relay_instance_resolve ::
  "'k relay_env \<Rightarrow> 'k relay_instance \<Rightarrow> bytes \<Rightarrow> rstr \<Rightarrow> bytes \<Rightarrow> (error + bytes) run" where
  "relay_instance_resolve E ri nonce domain payload =
     (case ri_transport ri of
        Direct \<Rightarrow> resolve_via_relay E (relay_client ri) (ri_url ri) (ri_key ri) nonce payload
      | GoogleChained \<Rightarrow>
          resolve_via_relay_apps_script E (relay_client ri) (ri_url ri) (ri_key ri) nonce domain payload)"

section \<open>The picker\<close>

record 'k relay_picker =
  instances :: "'k relay_instance list"
  last_idx :: u64

fun relay_instances_new ::
  "'k relay_env \<Rightarrow> (rstr \<Rightarrow> error + ipv4 list) \<Rightarrow> bool \<Rightarrow> relay_conf list \<Rightarrow> error + 'k relay_instance list" where
  "relay_instances_new E resolve resolve_ipv4 [] = Inr []"
| "relay_instances_new E resolve resolve_ipv4 (c # cs) =
     try_then (relay_instance_new E resolve resolve_ipv4 c) (\<lambda>i.
     try_then (relay_instances_new E resolve resolve_ipv4 cs) (\<lambda>is. Inr (i # is)))"

definition relay_picker_new ::
  "'k relay_env \<Rightarrow> (rstr \<Rightarrow> error + ipv4 list) \<Rightarrow> bool \<Rightarrow> relay_conf list \<Rightarrow> error + 'k relay_picker" where
  "relay_picker_new E resolve resolve_manual confs =
     (if confs = [] then Inl RelayErr
      else try_then (relay_instances_new E resolve resolve_manual confs)
        (\<lambda>is. Inr \<lparr>instances = is, last_idx = 0\<rparr>))"

text \<open>\<open>fetch_add\<close> wraps; \<open>%\<close> panics when there is no instance.\<close>

definition relay_pick :: "'k relay_picker \<Rightarrow> ('k relay_instance \<times> 'k relay_picker) run" where
  "relay_pick p =
     (if instances p = [] then None
      else let idx = unat (last_idx p) mod length (instances p)
           in Some (instances p ! idx, p\<lparr>last_idx := last_idx p + 1\<rparr>))"

text \<open>The index it picks, for the contract of rotating counters.\<close>

definition relay_ticket :: "'k relay_picker \<Rightarrow> (nat \<times> 'k relay_picker) run" where
  "relay_ticket p =
     (if instances p = [] then None
      else Some (unat (last_idx p) mod length (instances p), p\<lparr>last_idx := last_idx p + 1\<rparr>))"

interpretation relay_rotation: rotation "\<lambda>p. length (instances p)" last_idx relay_ticket
  by unfold_locales (simp add: relay_ticket_def)

lemma relay_pick_ticket:
  "relay_pick p = map_option (\<lambda>(i, p'). (instances p ! i, p')) (relay_ticket p)"
  by (simp add: relay_pick_def relay_ticket_def Let_def)

fun relay_picks :: "nat \<Rightarrow> 'k relay_picker \<Rightarrow> 'k relay_instance list run" where
  "relay_picks 0 p = Some []"
| "relay_picks (Suc n) p = do { (i, p') \<leftarrow> relay_pick p; is \<leftarrow> relay_picks n p'; Some (i # is) }"

lemma relay_ticket_instances: "relay_ticket p = Some (i, p') \<Longrightarrow> instances p' = instances p"
  by (auto simp: relay_ticket_def split: if_splits)

lemma relay_picks_choices:
  "relay_picks n p = map_option (map (\<lambda>i. instances p ! i)) (relay_rotation.choices n p)"
proof (induction n arbitrary: p)
  case (Suc n)
  show ?case
  proof (cases "relay_ticket p")
    case (Some ip)
    then obtain i p' where ip: "relay_ticket p = Some (i, p')" by (cases ip) auto
    with Suc.IH [of p'] relay_ticket_instances [OF ip] show ?thesis
      by (cases "relay_rotation.choices n p'") (simp_all add: relay_pick_ticket)
  qed (simp add: relay_pick_ticket)
qed simp

lemma relay_instances_new_length:
  "relay_instances_new E resolve m cs = Inr is \<Longrightarrow> length is = length cs"
  by (induction cs arbitrary: "is") (auto simp: try_then_Inr)

section \<open>Properties\<close>

text \<open>An environment for the witnesses: a relay that seals the byte string \<open>[4, 2]\<close> whatever it is
  asked, keys of 32 bytes, and one host for every URL.\<close>

definition demo_env :: "u8 relay_env" where
  "demo_env = \<lparr>cipher = xor_aead, mk_key = (\<lambda>_. 7), b64_encode = (\<lambda>b. b), b64_decode = (\<lambda>_. Some (replicate 32 0)),
     hmac_sha256 = (\<lambda>_ m. m), url_host = (\<lambda>_. Some (Some (lit ''relay''))), client_ok = (\<lambda>_. True),
     relay_post = (\<lambda>_ _ body. Response 200 (map_option (\<lambda>c. replicate 12 1 @ c)
       (Option.bind (decode_from_relay xor_aead 7 body) (\<lambda>q. aead_encrypt xor_aead 7 (replicate 12 1) [4, 2])))),
     relay_post_json = (\<lambda>_ _ _. JsonFailed)\<rparr>"

definition demo_conf :: relay_conf where
  "demo_conf = \<lparr>relay_key = lit ''k'', relay_url = lit ''u'', relay_transport = Direct\<rparr>"

text \<open>C27: Whichever transport an instance uses, it sends the query sealed under its key, never panics on a
  query that fits a datagram, and gives \<open>m\<close> exactly when the body that came back (over the script, the
  base64 text in a reply without an error) is \<open>m\<close> sealed under the same key. The HTTP status is not looked at: a
  sealed body is accepted with any status. Every other outcome is an error.\<close>

theorem relay_reply_authentic:
  assumes "aead_contract (cipher E)" "length nonce = 12" "length payload < 65536"
  shows "\<exists>req r. encode_for_relay (cipher E) (ri_key ri) nonce payload = Some req \<and>
    relay_instance_resolve E ri nonce domain payload = Some r \<and>
    (\<forall>m. r = Inr m \<longleftrightarrow>
      (\<exists>n c. length n = 12 \<and> aead_encrypt (cipher E) (ri_key ri) n m = Some c \<and>
        (case ri_transport ri of
           Direct \<Rightarrow> \<exists>status. relay_post E (relay_client ri) (ri_url ri) req = Response status (Some (n @ c))
         | GoogleChained \<Rightarrow> \<exists>txt. relay_post_json E (relay_client ri) (ri_url ri)
               (b64_encode E req, cache_key_for_domain E (ri_key ri) domain) = JsonReply None (Some txt) \<and>
             b64_decode E txt = Some (n @ c))))"
proof -
  obtain req where req: "encode_for_relay (cipher E) (ri_key ri) nonce payload = Some req"
    using aead_contract.encrypt_total [OF assms(1,2), of payload "ri_key ri"] assms(3)
    by (auto simp: encode_for_relay_def)
  have sealed: "decode_from_relay (cipher E) (ri_key ri) b = Some m \<longleftrightarrow>
    (\<exists>n c. length n = 12 \<and> aead_encrypt (cipher E) (ri_key ri) n m = Some c \<and> b = n @ c)" for b m
    by (rule aead_contract.relay_decode_iff [OF assms(1)])
  let ?open = "\<lambda>b. case decode_from_relay (cipher E) (ri_key ri) b of None \<Rightarrow> Inl Config | Some reply \<Rightarrow> Inr reply"
  have opened: "?open b = Inr m \<longleftrightarrow> (\<exists>n c. length n = 12 \<and> aead_encrypt (cipher E) (ri_key ri) n m = Some c \<and> b = n @ c)"
    for b m unfolding sealed [symmetric] by (simp split: option.split)
  show ?thesis
  proof (cases "ri_transport ri")
    case Direct
    let ?post = "relay_post E (relay_client ri) (ri_url ri) req"
    have "relay_instance_resolve E ri nonce domain payload =
        Some (case ?post of Response _ (Some body) \<Rightarrow> ?open body | _ \<Rightarrow> Inl Config)"
      by (simp add: relay_instance_resolve_def resolve_via_relay_def Direct req)
    moreover have "(case ?post of Response _ (Some body) \<Rightarrow> ?open body | _ \<Rightarrow> Inl Config) = Inr m \<longleftrightarrow>
        (\<exists>n c. length n = 12 \<and> aead_encrypt (cipher E) (ri_key ri) n m = Some c \<and>
          (\<exists>status. ?post = Response status (Some (n @ c))))" for m
      by (simp add: opened split: http_outcome.split option.split)
    ultimately show ?thesis using req Direct by simp
  next
    case GoogleChained
    let ?post = "relay_post_json E (relay_client ri) (ri_url ri) (b64_encode E req, cache_key_for_domain E (ri_key ri) domain)"
    let ?r = "case ?post of
        JsonFailed \<Rightarrow> Inl Config
      | JsonReply (Some err) _ \<Rightarrow> Inl Config
      | JsonReply None None \<Rightarrow> Inl Config
      | JsonReply None (Some txt) \<Rightarrow> (case b64_decode E txt of None \<Rightarrow> Inl Config | Some b \<Rightarrow> ?open b)"
    have "relay_instance_resolve E ri nonce domain payload = Some ?r"
      by (simp add: relay_instance_resolve_def resolve_via_relay_apps_script_def GoogleChained req)
    moreover have "?r = Inr m \<longleftrightarrow>
        (\<exists>n c. length n = 12 \<and> aead_encrypt (cipher E) (ri_key ri) n m = Some c \<and>
          (\<exists>txt. ?post = JsonReply None (Some txt) \<and> b64_decode E txt = Some (n @ c)))" for m
      by (simp add: opened split: json_outcome.split option.split)
    ultimately show ?thesis using req GoogleChained by simp
  qed
qed

text \<open>A sealed reply under the status of an error.\<close>

theorem relay_reply_authentic_witness:
  "relay_instance_resolve (demo_env\<lparr>relay_post := \<lambda>_ _ _. Response 500 (Some (replicate 12 1 @ xor_encrypt 7 (replicate 12 1) [5]))\<rparr>)
      \<lparr>relay_client = \<lparr>pinned = None\<rparr>, ri_key = 7, ri_url = lit ''u'', ri_transport = Direct\<rparr>
      (replicate 12 9) (lit ''a'') [1, 2, 3] = Some (Inr [5])"
proof -
  let ?E = "demo_env\<lparr>relay_post := \<lambda>_ _ _. Response 500 (Some (replicate 12 1 @ xor_encrypt 7 (replicate 12 1) [5]))\<rparr>"
    and ?ri = "\<lparr>relay_client = \<lparr>pinned = None\<rparr>, ri_key = 7, ri_url = lit ''u'', ri_transport = Direct\<rparr>"
  have "aead_contract (cipher ?E)" by (simp add: demo_env_def xor.aead_contract_axioms)
  moreover have "length (replicate 12 (9 :: u8)) = 12" "length [1, 2, 3 :: u8] < 65536" by simp_all
  ultimately obtain req r where r: "relay_instance_resolve ?E ?ri (replicate 12 9) (lit ''a'') [1, 2, 3] = Some r"
    and m: "r = Inr [5] \<longleftrightarrow> (\<exists>n c. length n = 12 \<and> aead_encrypt (cipher ?E) 7 n [5] = Some c \<and>
      (\<exists>status. relay_post ?E \<lparr>pinned = None\<rparr> (lit ''u'') req = Response status (Some (n @ c))))"
    using relay_reply_authentic [of ?E "replicate 12 9" "[1, 2, 3]" ?ri "lit ''a''"] by auto
  have "r = Inr [5]"
    unfolding m by (rule exI [of _ "replicate 12 1"], rule exI [of _ "xor_encrypt 7 (replicate 12 1) [5]"])
      (simp add: demo_env_def xor_aead_def)
  with r show ?thesis by simp
qed

text \<open>When the relay seals its answer under the shared key, the client gets exactly that answer:
  for a relay that opens the request, computes \<open>answer\<close> and seals it, a direct resolve gives
  \<open>answer payload\<close>.\<close>

theorem relay_exchange:
  assumes "aead_contract (cipher E)" "length nonce = 12" "length n' = 12"
    and "length payload < 65536" "length (answer payload) < 65536"
    and "\<And>body. relay_post E http url body = Response 200
      (map_option (\<lambda>c. n' @ c)
        (Option.bind (decode_from_relay (cipher E) key body) (\<lambda>q. aead_encrypt (cipher E) key n' (answer q))))"
  shows "resolve_via_relay E http url key nonce payload = Some (Inr (answer payload))"
proof -
  obtain c where c: "aead_encrypt (cipher E) key nonce payload = Some c"
    using aead_contract.encrypt_total [OF assms(1,2), of payload key] assms(4) by auto
  obtain c' where c': "aead_encrypt (cipher E) key n' (answer payload) = Some c'"
    using aead_contract.encrypt_total [OF assms(1,3), of "answer payload" key] assms(5) by auto
  show ?thesis
    using c c' assms(6) aead_contract.relay_decode_sealed [OF assms(1,2) c]
      aead_contract.relay_decode_sealed [OF assms(1,3) c']
    by (simp add: resolve_via_relay_def encode_for_relay_def)
qed

theorem relay_exchange_witness:
  "resolve_via_relay demo_env \<lparr>pinned = None\<rparr> (lit ''u'') 7 (replicate 12 9) [1, 2, 3] = Some (Inr [4, 2])"
proof (rule relay_exchange [where answer = "\<lambda>_. [4, 2]" and n' = "replicate 12 1"])
  show "aead_contract (cipher demo_env)" by (simp add: demo_env_def xor.aead_contract_axioms)
  show "relay_post demo_env \<lparr>pinned = None\<rparr> (lit ''u'') body = Response 200
      (map_option (\<lambda>c. replicate 12 1 @ c) (Option.bind (decode_from_relay (cipher demo_env) 7 body)
        (\<lambda>q. aead_encrypt (cipher demo_env) 7 (replicate 12 1) [4, 2])))" for body
    by (simp add: demo_env_def)
qed simp_all

text \<open>A relay picker that could be built has one instance per configured relay, in order, and
  picking never panics; as many consecutive picks as there are instances use each one once.\<close>

theorem relay_picker_fair:
  assumes "relay_picker_new E resolve m confs = Inr p0" "instances p = instances p0"
    and "unat (last_idx p) + length (instances p) < 2 ^ 64"
  shows "length (instances p) = length confs \<and> (\<exists>i p'. relay_pick p = Some (i, p') \<and> i \<in> set (instances p))
    \<and> (\<exists>is. distinct is \<and> set is = {..<length (instances p)} \<and>
        relay_picks (length (instances p)) p = Some (map (\<lambda>i. instances p ! i) is))"
proof -
  obtain insts where "confs \<noteq> []" "relay_instances_new E resolve m confs = Inr insts"
    "p0 = \<lparr>instances = insts, last_idx = 0\<rparr>"
    using assms(1) by (auto simp: relay_picker_new_def try_then_Inr split: if_splits)
  then have len: "length (instances p) = length confs" and pos: "0 < length (instances p)"
    using assms(2) relay_instances_new_length by fastforce+
  obtain "is" where "relay_rotation.choices (length (instances p)) p = Some is" "distinct is"
    "set is = {..<length (instances p)}"
    using relay_rotation.choices_fair [OF pos assms(3)] by blast
  moreover have "\<exists>i p'. relay_pick p = Some (i, p') \<and> i \<in> set (instances p)"
    using pos by (auto simp: relay_pick_def Let_def)
  ultimately show ?thesis using len by (auto simp: relay_picks_choices)
qed

theorem relay_picker_fair_witness:
  "\<exists>i p'. relay_pick \<lparr>instances = [\<lparr>relay_client = \<lparr>pinned = None\<rparr>, ri_key = 7 :: u8, ri_url = lit ''u'', ri_transport = Direct\<rparr>],
      last_idx = 3\<rparr> = Some (i, p')"
proof -
  let ?is = "[\<lparr>relay_client = \<lparr>pinned = None\<rparr>, ri_key = 7 :: u8, ri_url = lit ''u'', ri_transport = Direct\<rparr>]"
  have new: "relay_picker_new demo_env (\<lambda>_. Inl Io) False [demo_conf] = Inr \<lparr>instances = ?is, last_idx = 0\<rparr>"
    by (simp add: relay_picker_new_def relay_instance_new_def client_for_relay_def host_from_url_def
        load_key_from_str_def demo_env_def demo_conf_def)
  show ?thesis
    using relay_picker_fair [OF new, of "\<lparr>instances = ?is, last_idx = 3\<rparr>"] by auto
qed

text \<open>The tag that the Apps Script hop sees is the same for every spelling of a name, and is text
  of two lower-case hexadecimal digits per byte of the HMAC.\<close>

theorem relay_tag_case_blind:
  "cache_key_for_domain E key (map ascii_lower d) = cache_key_for_domain E key d
   \<and> length (cache_key_for_domain E key d) = 2 * length (hmac_sha256 E key (map ascii_lower d))
   \<and> list_all (\<lambda>c. is_digit c \<or> 97 \<le> c \<and> c \<le> 102) (cache_key_for_domain E key d)"
proof -
  have digit: "is_digit (hex_digit n) \<or> 97 \<le> hex_digit n \<and> hex_digit n \<le> 102" if "n < 16" for n
  proof -
    have "n \<in> {0..<16}" using that by simp
    then have "n \<in> set [0, 1, 2, 3, 4, 5, 6, 7, 8, 9, 10, 11, 12, 13, 14, 15]" by (simp, presburger)
    then show ?thesis by (auto simp: hex_digit_def is_digit_def)
  qed
  have "unat b div 16 < 16" "unat b mod 16 < 16" for b :: u8
    using unat_u8_less [of b] by (simp_all add: less_mult_imp_div_less)
  then have "list_all (\<lambda>c. is_digit c \<or> 97 \<le> c \<and> c \<le> 102) (hex_encode bs)" for bs
    by (induction bs) (auto simp: hex_encode_def digit)
  moreover have "length (hex_encode bs) = 2 * length bs" for bs
    by (induction bs) (auto simp: hex_encode_def)
  ultimately show ?thesis by (simp add: cache_key_for_domain_def comp_def)
qed

end
