(* ===== verification/History.thy ===== *)
theory History
  imports Upstream_Error Rust_Str "HOL-Library.Sublist"
begin

text \<open>
  The history of resolved names (\<open>HistoryBuffer\<close> in \<open>dns_relay/src/handler.rs\<close>): the queue of
  100 entries, the flush task that at most one query starts at a time, and the text file it
  rewrites. \<open>flush_text\<close> refines an association list from names to addresses; \<open>hist_step\<close> is the
  interleaving of pushes and of the flush task.
\<close>

section \<open>Matching\<close>

type_synonym entry = "rstr \<times> rstr list" \<comment> \<open>domain to ipv4\<close>

definition CAP :: nat where "CAP = 100"

text \<open>The index into the domain is in range where it is evaluated.\<close>

definition domain_matches :: "rstr \<Rightarrow> rstr \<Rightarrow> bool" where
  "domain_matches pattern domain =
     (case strip_prefix (lit ''*'') pattern of
        Some suf \<Rightarrow>
          domain = suf
          \<or> (length suf < length domain \<and> ends_with domain suf
             \<and> domain ! (length domain - length suf - 1) = dot)
      | None \<Rightarrow> domain = pattern)"

text \<open>The entry that \<open>push_many\<close> queues, if any.\<close>

definition accepted :: "rstr list \<Rightarrow> rstr \<Rightarrow> rstr list \<Rightarrow> entry option" where
  "accepted matched_list domain ips =
     (if ips = [] then None
      else if matched_list \<noteq> [] \<and> \<not> list_ex (\<lambda>pattern. domain_matches pattern domain) matched_list then None
      else Some (domain, ips))"

text \<open>\<open>push\<close>.\<close>

definition accepted_one :: "rstr list \<Rightarrow> rstr \<Rightarrow> rstr \<Rightarrow> entry option" where
  "accepted_one matched_list domain ip = accepted matched_list domain [ip]"

section \<open>Rewriting the file\<close>

record hist_maps =
  history :: "rstr \<Rightarrow> rstr list option"
  seen :: "rstr \<Rightarrow> rstr list option" \<comment> \<open>the sets of addresses\<close>
  order :: "rstr list"

text \<open>One line of the file that is there.\<close>

definition load_line :: "rstr \<Rightarrow> hist_maps \<Rightarrow> hist_maps" where
  "load_line line m =
     (case split_whitespace line of
        [] \<Rightarrow> m
      | domain # ips \<Rightarrow>
          \<lparr>history = (history m)(domain \<mapsto> ips), seen = (seen m)(domain \<mapsto> ips), order = order m @ [domain]\<rparr>)"

definition load_history :: "rstr option \<Rightarrow> hist_maps" where
  "load_history content =
     (let m = \<lparr>history = (\<lambda>_. None), seen = (\<lambda>_. None), order = []\<rparr>
      in case content of None \<Rightarrow> m | Some c \<Rightarrow> fold load_line (str_lines c) m)"

text \<open>\<open>for ip in ips\<close>: the addresses kept and the set of those seen.\<close>

definition add_ip :: "rstr \<Rightarrow> rstr list \<times> rstr list \<Rightarrow> rstr list \<times> rstr list" where
  "add_ip ip acc =
     (case acc of (existing, seen_set) \<Rightarrow>
        if ip \<in> set seen_set then acc else (existing @ [ip], ip # seen_set))"

definition merge_entry :: "entry \<Rightarrow> hist_maps \<Rightarrow> hist_maps" where
  "merge_entry e m =
     (case e of (domain, ips) \<Rightarrow>
      let (existing, order') = (case history m domain of
            Some l \<Rightarrow> (l, order m)
          | None \<Rightarrow> ([], order m @ [domain]));
          seen_set = (case seen m domain of Some s \<Rightarrow> s | None \<Rightarrow> []);
          (existing, seen_set) = fold add_ip ips (existing, seen_set)
      in \<lparr>history = (history m)(domain \<mapsto> existing), seen = (seen m)(domain \<mapsto> seen_set), order = order'\<rparr>)"

definition drop_oldest :: "nat \<Rightarrow> hist_maps \<Rightarrow> hist_maps" where
  "drop_oldest lines_count m =
     (if lines_count < length (order m) then
        let excess = length (order m) - lines_count; old = take excess (order m)
        in \<lparr>history = fold (\<lambda>d h. h(d := None)) old (history m),
            seen = fold (\<lambda>d s. s(d := None)) old (seen m), order = drop excess (order m)\<rparr>
      else m)"

text \<open>\<open>history[domain]\<close> panics on a name that is not there.\<close>

fun history_text :: "(rstr \<Rightarrow> rstr list option) \<Rightarrow> rstr list \<Rightarrow> rstr run" where
  "history_text h [] = Some []"
| "history_text h (domain # ds) = do {
     ips \<leftarrow> h domain;
     rest \<leftarrow> history_text h ds;
     Some (domain @ concat (map (\<lambda>ip. 32 # ip) ips) @ [newline] @ rest) }"

text \<open>The text that \<open>flush\<close> writes for a batch that is not empty.\<close>

definition flush_text :: "nat \<Rightarrow> entry list \<Rightarrow> rstr option \<Rightarrow> rstr run" where
  "flush_text lines_count batch content =
     (let m = drop_oldest lines_count (fold merge_entry batch (load_history content))
      in history_text (history m) (order m))"

section \<open>Pushing and flushing\<close>

text \<open>\<open>flush\<close> empties the queue into its batch, then waits for the file while the queue fills again.\<close>

datatype flusher = Idle | Collecting "entry list" | Writing "entry list"

record hist_buffer =
  queue :: "entry list"
  flush_task :: flusher \<comment> \<open>\<open>Idle\<close> when the flag \<open>flushing\<close> is false\<close>
  hist_file :: "rstr option"

text \<open>\<open>try_spawn_flush\<close>: \<open>compare_exchange\<close> on the flag.\<close>

definition try_spawn_flush :: "hist_buffer \<Rightarrow> hist_buffer" where
  "try_spawn_flush s =
     (case flush_task s of Idle \<Rightarrow> s\<lparr>flush_task := Collecting []\<rparr> | _ \<Rightarrow> s)"

text \<open>One attempt of the loop of \<open>push_many\<close>: the entry is queued, or the queue is full and the
  attempt is repeated after asking for a flush.\<close>

definition push_attempt :: "entry \<Rightarrow> hist_buffer \<Rightarrow> bool \<times> hist_buffer" where
  "push_attempt e s =
     (if length (queue s) < CAP
      then let s = s\<lparr>queue := queue s @ [e]\<rparr>
           in (True, if CAP \<le> length (queue s) then try_spawn_flush s else s)
      else (False, try_spawn_flush s))"

text \<open>The loop of \<open>push_many\<close>: before its \<open>i\<close>-th attempt the other tasks have done \<open>others i\<close> to the buffer. The
  loop spins, without giving its thread back, as long as it finds the queue full.\<close>

partial_function (option) push_many :: "(nat \<Rightarrow> hist_buffer \<Rightarrow> hist_buffer) \<Rightarrow> nat \<Rightarrow> entry \<Rightarrow> hist_buffer \<Rightarrow> hist_buffer run" where
  "push_many others i e s =
     (let attempt = push_attempt e (others i s)
      in if fst attempt then Some (snd attempt) else push_many others (Suc i) e (snd attempt))"

text \<open>The steps of the flush task. The labels are the batch that a flush has written and the batch that it has lost
  because the file could not be written; the file is then left with any content.\<close>

inductive flush_step :: "nat \<Rightarrow> hist_buffer \<Rightarrow> entry list \<Rightarrow> entry list \<Rightarrow> hist_buffer \<Rightarrow> bool" for lines_count :: nat where
  pop: "flush_task s = Collecting batch \<Longrightarrow> queue s = e # q \<Longrightarrow>
    flush_step lines_count s [] [] (s\<lparr>queue := q, flush_task := Collecting (batch @ [e])\<rparr>)"
| nothing: "flush_task s = Collecting [] \<Longrightarrow> queue s = [] \<Longrightarrow>
    flush_step lines_count s [] [] (s\<lparr>flush_task := Idle\<rparr>)"
| collected: "flush_task s = Collecting batch \<Longrightarrow> batch \<noteq> [] \<Longrightarrow> queue s = [] \<Longrightarrow>
    flush_step lines_count s [] [] (s\<lparr>flush_task := Writing batch\<rparr>)"
| save: "flush_task s = Writing batch \<Longrightarrow> flush_text lines_count batch (hist_file s) = Some out \<Longrightarrow>
    flush_step lines_count s batch [] (s\<lparr>flush_task := Idle, hist_file := Some out\<rparr>)"
| io_error: "flush_task s = Writing batch \<Longrightarrow>
    flush_step lines_count s [] batch (s\<lparr>flush_task := Idle, hist_file := any\<rparr>)"

text \<open>The steps of the buffer; the first label is the entry that a push has queued.\<close>

inductive hist_step ::
  "nat \<Rightarrow> hist_buffer \<Rightarrow> entry list \<Rightarrow> entry list \<Rightarrow> entry list \<Rightarrow> hist_buffer \<Rightarrow> bool"
  for lines_count :: nat where
  push: "push_attempt e s = (True, s') \<Longrightarrow> hist_step lines_count s [e] [] [] s'"
| retry: "push_attempt e s = (False, s') \<Longrightarrow> hist_step lines_count s [] [] [] s'"
| flush: "flush_step lines_count s w l s' \<Longrightarrow> hist_step lines_count s [] w l s'"

text \<open>\<open>close\<close>: it waits while the flag is set (no result here), then runs \<open>flush\<close> itself; \<open>written\<close> is the
  outcome of writing the file, which is left with any content when that fails.\<close>

definition hist_close :: "nat \<Rightarrow> bool \<Rightarrow> rstr option \<Rightarrow> hist_buffer \<Rightarrow> ((error + unit) \<times> hist_buffer) run" where
  "hist_close lines_count written any s =
     (if flush_task s \<noteq> Idle then None
      else if queue s = [] then Some (Inr (), s)
      else do {
        out \<leftarrow> flush_text lines_count (queue s) (hist_file s);
        Some (if written then (Inr (), s\<lparr>queue := [], hist_file := Some out\<rparr>)
              else (Inl Io, s\<lparr>queue := [], hist_file := any\<rparr>)) })"

text \<open>\<open>hist_run pushed settled s\<close>: a run from a fresh buffer over the file \<open>start\<close>, with the
  entries queued and those settled (written or lost), in order.\<close>

inductive hist_run :: "nat \<Rightarrow> rstr option \<Rightarrow> entry list \<Rightarrow> entry list \<Rightarrow> hist_buffer \<Rightarrow> bool"
  for lines_count :: nat and start :: "rstr option" where
  fresh: "hist_run lines_count start [] [] \<lparr>queue = [], flush_task = Idle, hist_file = start\<rparr>"
| step: "hist_run lines_count start pushed settled s \<Longrightarrow> hist_step lines_count s p w l s' \<Longrightarrow>
    hist_run lines_count start (pushed @ p) (settled @ w @ l) s'"

inductive_cases hist_stepE: "hist_step lines_count s p w l s'"

definition in_flight :: "hist_buffer \<Rightarrow> entry list" where
  "in_flight s = (case flush_task s of Idle \<Rightarrow> [] | Collecting batch \<Rightarrow> batch | Writing batch \<Rightarrow> batch)"

lemma in_flight_spawn [simp]: "in_flight (try_spawn_flush s) = in_flight s"
  by (simp add: in_flight_def try_spawn_flush_def split: flusher.split)

lemma queue_spawn [simp]: "queue (try_spawn_flush s) = queue s"
  by (simp add: try_spawn_flush_def split: flusher.split)

lemma in_flight_queue [simp]: "in_flight (s\<lparr>queue := q\<rparr>) = in_flight s"
  by (simp add: in_flight_def)

lemma flush_step_conserves:
  "flush_step n s w l s' \<Longrightarrow> in_flight s @ queue s = w @ l @ in_flight s' @ queue s' \<and> length (queue s') \<le> length (queue s)"
  by (induction rule: flush_step.induct) (simp_all add: in_flight_def)

lemma hist_step_conserves:
  "hist_step n s p w l s' \<Longrightarrow> in_flight s @ queue s @ p = w @ l @ in_flight s' @ queue s'"
proof (induction rule: hist_step.induct)
  case (flush s w l s')
  then show ?case using flush_step_conserves by fastforce
qed (auto simp: push_attempt_def Let_def split: if_splits)

lemma hist_step_bound: "hist_step n s p w l s' \<Longrightarrow> length (queue s) \<le> CAP \<Longrightarrow> length (queue s') \<le> CAP"
proof (induction rule: hist_step.induct)
  case (flush s w l s')
  then show ?case using flush_step_conserves [of n s w l s'] by simp
qed (auto simp: push_attempt_def Let_def split: if_splits)

lemma hist_run_conserves:
  "hist_run n start pushed settled s \<Longrightarrow> pushed = settled @ in_flight s @ queue s \<and> length (queue s) \<le> CAP"
proof (induction rule: hist_run.induct)
  case (step pushed settled s p w l s')
  then show ?case
    using hist_step_conserves [OF step.hyps(2)] hist_step_bound [OF step.hyps(2)] by simp
qed (simp add: in_flight_def)

text \<open>A push that spins on a full queue gets its place when the flush task runs: after at most three steps of
  the buffer (the file is dealt with, a flush is asked for, an entry is taken out), none of them a push.\<close>

lemma full_queue_moves:
  assumes "CAP \<le> length (queue s)"
  shows "\<exists>l s1 s2 s3. (hist_step n s [] [] l s1 \<or> s1 = s) \<and> hist_step n s1 [] [] [] s2 \<and> hist_step n s2 [] [] [] s3 \<and>
    length (queue s3) < length (queue s)"
proof -
  obtain e q where q: "queue s = e # q" using assms by (cases "queue s") (auto simp: CAP_def)
  obtain l s1 where s1: "hist_step n s [] [] l s1 \<or> s1 = s" "queue s1 = queue s" "\<And>b. flush_task s1 \<noteq> Writing b"
  proof (cases "flush_task s")
    case (Writing b)
    from hist_step.flush [OF flush_step.io_error [OF this]] that show ?thesis by fastforce
  qed (use that [of "[]" s] in simp_all)
  let ?s2 = "try_spawn_flush s1"
  obtain batch where b: "flush_task ?s2 = Collecting batch"
    using s1(3) by (cases "flush_task s1") (auto simp: try_spawn_flush_def)
  have "hist_step n s1 [] [] [] ?s2"
    by (rule hist_step.retry) (use assms s1(2) in \<open>simp add: push_attempt_def\<close>)
  moreover have "hist_step n ?s2 [] [] [] (?s2\<lparr>queue := q, flush_task := Collecting (batch @ [e])\<rparr>)"
    using b q s1(2) by (intro hist_step.flush flush_step.pop) simp_all
  ultimately show ?thesis
    using q s1(1) by (intro exI [of _ l] exI [of _ s1] exI [of _ ?s2]
      exI [of _ "?s2\<lparr>queue := q, flush_task := Collecting (batch @ [e])\<rparr>"]) simp
qed

section \<open>When a push returns\<close>

text \<open>The buffer that the attempt number \<open>i\<close> finds, if all before it have failed.\<close>

fun found_by :: "(nat \<Rightarrow> hist_buffer \<Rightarrow> hist_buffer) \<Rightarrow> hist_buffer \<Rightarrow> nat \<Rightarrow> hist_buffer" where
  "found_by others s 0 = others 0 s"
| "found_by others s (Suc i) = others (Suc i) (try_spawn_flush (found_by others s i))"

definition has_room :: "hist_buffer \<Rightarrow> bool" where
  "has_room s \<longleftrightarrow> length (queue s) < CAP"

lemma push_attempt_room: "fst (push_attempt e s) \<longleftrightarrow> has_room s"
  "\<not> has_room s \<Longrightarrow> snd (push_attempt e s) = try_spawn_flush s"
  by (simp_all add: push_attempt_def has_room_def Let_def)

lemma push_many_unfold:
  "push_many others i e s =
     (if has_room (others i s) then Some (snd (push_attempt e (others i s)))
      else push_many others (Suc i) e (try_spawn_flush (others i s)))"
  by (subst push_many.simps) (simp add: Let_def push_attempt_room)

text \<open>After \<open>i\<close> failed attempts the loop stands before the attempt number \<open>i\<close>.\<close>

lemma push_many_after:
  "\<forall>j < i. \<not> has_room (found_by others s j) \<Longrightarrow>
     push_many others 0 e s =
       (if has_room (found_by others s i) then Some (snd (push_attempt e (found_by others s i)))
        else push_many others (Suc i) e (try_spawn_flush (found_by others s i)))"
proof (induction i)
  case 0
  show ?case by (subst push_many_unfold) simp
next
  case (Suc i)
  then have "push_many others 0 e s = push_many others (Suc i) e (try_spawn_flush (found_by others s i))" by simp
  then show ?case by (subst (asm) push_many_unfold) simp
qed

lemma push_many_not_stuck:
  assumes "push_many others i e s = Some s'"
  shows "\<forall>Q. (\<forall>i s. Q i s \<longrightarrow> \<not> has_room (others i s) \<and> Q (Suc i) (try_spawn_flush (others i s))) \<longrightarrow> \<not> Q i s"
proof (rule push_many.raw_induct [where P = "\<lambda>others i e s s'.
    \<forall>Q. (\<forall>i s. Q i s \<longrightarrow> \<not> has_room (others i s) \<and> Q (Suc i) (try_spawn_flush (others i s))) \<longrightarrow> \<not> Q i s", OF _ assms],
    goal_cases)
  case (1 f others i e s s')
  show ?case
  proof (intro allI impI notI)
    fix Q
    assume Q: "\<forall>i s. Q i s \<longrightarrow> \<not> has_room (others i s) \<and> Q (Suc i) (try_spawn_flush (others i s))" "Q i s"
    then have full: "\<not> has_room (others i s)" "Q (Suc i) (try_spawn_flush (others i s))" by blast+
    with 1(2) have "f others (Suc i) e (try_spawn_flush (others i s)) = Some s'"
      by (simp add: Let_def push_attempt_room)
    from 1(1) [OF this] Q(1) full(2) show False by blast
  qed
qed

text \<open>A push returns exactly when one of its attempts finds room in the queue.\<close>

lemma push_many_returns_iff: "(\<exists>s'. push_many others 0 e s = Some s') \<longleftrightarrow> (\<exists>i. has_room (found_by others s i))"
proof
  assume "\<exists>i. has_room (found_by others s i)"
  then obtain i where "has_room (found_by others s i)" "\<forall>j < i. \<not> has_room (found_by others s j)"
    using exists_least_iff [of "\<lambda>i. has_room (found_by others s i)"] by blast
  with push_many_after [of i others s e] show "\<exists>s'. push_many others 0 e s = Some s'" by simp
next
  assume r: "\<exists>s'. push_many others 0 e s = Some s'"
  show "\<exists>i. has_room (found_by others s i)"
  proof (rule ccontr)
    assume no: "\<nexists>i. has_room (found_by others s i)"
    define P where "P i b \<longleftrightarrow> others i b = found_by others s i" for i b
    have "\<forall>i b. P i b \<longrightarrow> \<not> has_room (others i b) \<and> P (Suc i) (try_spawn_flush (others i b))"
      using no by (auto simp: P_def)
    moreover have "P 0 s" by (simp add: P_def)
    moreover obtain s' where "push_many others 0 e s = Some s'" using r by blast
    ultimately show False using push_many_not_stuck by blast
  qed
qed

section \<open>The file as an association list\<close>

text \<open>The text of words without white space: printable ASCII, as host names and addresses are.\<close>

definition word :: "rstr \<Rightarrow> bool" where
  "word w \<longleftrightarrow> w \<noteq> [] \<and> (\<forall>c \<in> set w. 33 \<le> c \<and> c < 127)"

definition entry_ok :: "entry \<Rightarrow> bool" where
  "entry_ok e \<longleftrightarrow> word (fst e) \<and> list_all word (snd e)"

definition hist_ok :: "entry list \<Rightarrow> bool" where
  "hist_ok h \<longleftrightarrow> list_all entry_ok h \<and> distinct (map fst h)"

definition entry_line :: "entry \<Rightarrow> rstr" where
  "entry_line e = fst e @ concat (map (\<lambda>ip. 32 # ip) (snd e))"

definition render :: "entry list \<Rightarrow> rstr" where
  "render h = concat (map (\<lambda>e. entry_line e @ [newline]) h)"

text \<open>The specification: addresses not yet known are appended to their name's, a new name goes to the
  end, and the oldest names beyond the limit are dropped.\<close>

definition add_new :: "rstr list \<Rightarrow> rstr list \<Rightarrow> rstr list" where
  "add_new ips old = fold (\<lambda>ip l. if ip \<in> set l then l else l @ [ip]) ips old"

fun record_entry :: "entry \<Rightarrow> entry list \<Rightarrow> entry list" where
  "record_entry (d, ips) [] = [(d, add_new ips [])]"
| "record_entry (d, ips) ((x, l) # h) =
     (if x = d then (x, add_new ips l) # h else (x, l) # record_entry (d, ips) h)"

definition flush_spec :: "nat \<Rightarrow> entry list \<Rightarrow> entry list \<Rightarrow> entry list" where
  "flush_spec lines_count batch h =
     (let h' = fold record_entry batch h in drop (length h' - lines_count) h')"

lemma word_head: "word w \<Longrightarrow> \<exists>c r. w = c # r \<and> 33 \<le> c \<and> c < 127"
  by (cases w) (auto simp: word_def)

lemma printable_not:
  fixes c :: u8
  assumes "33 \<le> c" "c < 127"
  shows "\<not> c \<le> 13" "c \<noteq> 32" "c \<noteq> 0xC2" "c \<noteq> 0xE1" "c \<noteq> 0xE2" "c \<noteq> 0xE3" "32 \<le> c"
  using assms by (auto simp: word_le_nat_alt word_less_nat_alt)

lemma ws_len_printable: "33 \<le> c \<Longrightarrow> c < 127 \<Longrightarrow> ws_len (c # r) = 0"
  by (subst ws_len.simps) (simp add: printable_not split: list.split)

lemma ws_len_blank: "ws_len (32 # r) = 1"
  by (subst ws_len.simps) simp

lemma word_len_append:
  "\<forall>c \<in> set w. 33 \<le> c \<and> c < 127 \<Longrightarrow> word_len (w @ 32 # r) = length w \<and> word_len w = length w"
  by (induction w) (auto simp: ws_len_printable ws_len_blank)

lemma split_whitespace_word:
  assumes "word w"
  shows "split_whitespace w = [w]" "split_whitespace (w @ 32 # r) = w # split_whitespace r"
proof -
  obtain c t where w: "w = c # t" "33 \<le> c" "c < 127" using word_head [OF assms] by blast
  have len: "word_len w = length w" "word_len (w @ 32 # r) = length w"
    using word_len_append [of w r] assms by (auto simp: word_def)
  have nil: "split_whitespace [] = []" by (subst split_whitespace.simps) simp
  have blank: "split_whitespace (32 # r) = split_whitespace r"
    by (subst split_whitespace.simps) (simp add: ws_len_blank)
  show "split_whitespace w = [w]"
    using w len(1) nil by (subst split_whitespace.simps) (simp add: ws_len_printable)
  show "split_whitespace (w @ 32 # r) = w # split_whitespace r"
    using w len(2) blank by (subst split_whitespace.simps) (simp add: ws_len_printable)
qed

lemma split_whitespace_line:
  "word d \<Longrightarrow> list_all word ips \<Longrightarrow> split_whitespace (d @ concat (map (\<lambda>ip. 32 # ip) ips)) = d # ips"
  by (induction ips arbitrary: d) (simp_all add: split_whitespace_word)

lemma split_entry_line: "entry_ok e \<Longrightarrow> split_whitespace (entry_line e) = fst e # snd e"
  by (simp add: entry_ok_def entry_line_def split_whitespace_line)

lemma entry_line_chars:
  assumes "entry_ok e" "c \<in> set (entry_line e)"
  shows "32 \<le> c \<and> c < 127"
proof -
  have "c = 32 \<or> 33 \<le> c \<and> c < 127"
    using assms by (auto simp: entry_ok_def entry_line_def word_def list_all_iff split: if_splits)
  then show ?thesis using printable_not(7) [of c] by auto
qed

lemma strip_cr_none: "13 \<notin> set l \<Longrightarrow> strip_cr l = l"
  by (cases l rule: rev_cases) (auto simp: strip_cr_def)

lemma str_lines_render:
  assumes "list_all entry_ok h"
  shows "str_lines (render h) = map entry_line h"
proof -
  have line: "newline \<notin> set (entry_line e)" "strip_cr (entry_line e) = entry_line e" if "entry_ok e" for e
  proof -
    show "newline \<notin> set (entry_line e)" using entry_line_chars [OF that, of newline] by auto
    show "strip_cr (entry_line e) = entry_line e"
      using entry_line_chars [OF that, of 13] by (intro strip_cr_none) auto
  qed
  have "split_on newline (render h) = map entry_line h @ [[]]"
    using assms by (induction h) (simp_all add: render_def split_on_append line)
  moreover have "map strip_cr (map entry_line h) = map entry_line h"
    using assms line by (induction h) auto
  ultimately show ?thesis by (simp add: str_lines_def Let_def del: map_map)
qed

section \<open>The maps hold the association list\<close>

definition maps_hold :: "entry list \<Rightarrow> hist_maps \<Rightarrow> bool" where
  "maps_hold h m \<longleftrightarrow> order m = map fst h \<and> history m = map_of h
     \<and> (\<forall>d. map_option set (seen m d) = map_option set (map_of h d))"

lemma maps_hold_nil: "maps_hold [] \<lparr>history = \<lambda>_. None, seen = \<lambda>_. None, order = []\<rparr>"
  by (auto simp: maps_hold_def)

lemma map_of_snoc: "d \<notin> fst ` set h \<Longrightarrow> map_of (h @ [(d, l)]) = (map_of h)(d \<mapsto> l)"
  by (induction h) (auto simp: fun_upd_twist)

lemma maps_hold_load:
  assumes "maps_hold h m" "list_all entry_ok h'" "distinct (map fst (h @ h'))"
  shows "maps_hold (h @ h') (fold load_line (map entry_line h') m)"
  using assms
proof (induction h' arbitrary: h m)
  case (Cons e h')
  obtain d ips where e: "e = (d, ips)" by (cases e)
  have "load_line (entry_line e) m =
      \<lparr>history = (history m)(d \<mapsto> ips), seen = (seen m)(d \<mapsto> ips), order = order m @ [d]\<rparr>"
    using Cons.prems(2) e by (simp add: load_line_def split_entry_line)
  moreover have "d \<notin> fst ` set h" using Cons.prems(3) e by simp
  ultimately have "maps_hold (h @ [e]) (load_line (entry_line e) m)"
    using Cons.prems(1) e map_of_snoc [of d h ips]
    by (auto simp: maps_hold_def)
  with Cons.IH [of "h @ [e]"] Cons.prems(2,3) show ?case by simp
qed simp

lemma load_history_render:
  assumes "hist_ok h"
  shows "maps_hold h (load_history (Some (render h)))"
  using assms maps_hold_load [OF maps_hold_nil, of h]
  by (simp add: load_history_def hist_ok_def str_lines_render)

lemma fold_add_ip:
  "set s = set l \<Longrightarrow> fst (fold add_ip ips (l, s)) = add_new ips l
     \<and> set (snd (fold add_ip ips (l, s))) = set (add_new ips l)"
  unfolding add_new_def
proof (induction ips arbitrary: l s)
  case (Cons ip ips)
  show ?case
  proof (cases "ip \<in> set l")
    case True
    with Cons show ?thesis by (simp add: add_ip_def)
  next
    case False
    with Cons.prems Cons.IH [of "ip # s" "l @ [ip]"] show ?thesis by (simp add: add_ip_def)
  qed
qed simp

lemma map_of_record:
  "map_of (record_entry (d, ips) h) =
     (map_of h)(d \<mapsto> add_new ips (case map_of h d of Some l \<Rightarrow> l | None \<Rightarrow> []))"
  by (induction "(d, ips)" h rule: record_entry.induct) auto

lemma keys_record:
  "map fst (record_entry (d, ips) h) = (if map_of h d = None then map fst h @ [d] else map fst h)"
  by (induction "(d, ips)" h rule: record_entry.induct) auto

lemma maps_hold_merge:
  assumes "maps_hold h m"
  shows "maps_hold (record_entry e h) (merge_entry e m)"
proof -
  obtain d ips where e: "e = (d, ips)" by (cases e)
  define l where "l = (case map_of h d of Some l \<Rightarrow> l | None \<Rightarrow> [])"
  define s where "s = (case seen m d of Some s \<Rightarrow> s | None \<Rightarrow> [])"
  have "map_option set (seen m d) = map_option set (map_of h d)"
    using assms by (simp add: maps_hold_def)
  then have ls: "set s = set l"
    by (cases "seen m d"; cases "map_of h d") (simp_all add: l_def s_def)
  have "merge_entry e m = \<lparr>history = (history m)(d \<mapsto> fst (fold add_ip ips (l, s))),
      seen = (seen m)(d \<mapsto> snd (fold add_ip ips (l, s))),
      order = (if map_of h d = None then order m @ [d] else order m)\<rparr>"
    using assms e by (auto simp: merge_entry_def l_def s_def maps_hold_def split: option.splits prod.splits)
  then show ?thesis
    using assms e fold_add_ip [OF ls, of ips]
    by (auto simp: maps_hold_def map_of_record keys_record l_def)
qed

lemma maps_hold_batch: "maps_hold h m \<Longrightarrow> maps_hold (fold record_entry batch h) (fold merge_entry batch m)"
  by (induction batch arbitrary: h m) (simp_all add: maps_hold_merge)

lemma word_add_new: "list_all word ips \<Longrightarrow> list_all word l \<Longrightarrow> list_all word (add_new ips l)"
  unfolding add_new_def by (induction ips arbitrary: l) auto

lemma record_ok: "hist_ok h \<Longrightarrow> entry_ok e \<Longrightarrow> hist_ok (record_entry e h)"
proof -
  assume h: "hist_ok h" and e: "entry_ok e"
  obtain d ips where [simp]: "e = (d, ips)" by (cases e)
  have "list_all entry_ok (record_entry (d, ips) h)"
    using h e by (induction "(d, ips)" h rule: record_entry.induct)
      (auto simp: hist_ok_def entry_ok_def word_add_new)
  moreover have "distinct (map fst (record_entry (d, ips) h))"
    unfolding keys_record using h by (auto simp: hist_ok_def map_of_eq_None_iff)
  ultimately show ?thesis by (simp add: hist_ok_def)
qed

lemma flush_spec_ok: "hist_ok h \<Longrightarrow> list_all entry_ok batch \<Longrightarrow> hist_ok (flush_spec n batch h)"
proof -
  assume h: "hist_ok h" and batch: "list_all entry_ok batch"
  have "hist_ok (fold record_entry batch h)"
    using h batch by (induction batch arbitrary: h) (simp_all add: record_ok)
  then show ?thesis
    by (auto simp: flush_spec_def Let_def hist_ok_def list_all_iff drop_map [symmetric] dest: in_set_dropD)
qed

lemma history_text_render:
  "\<forall>e \<in> set h. m (fst e) = Some (snd e) \<Longrightarrow> history_text m (map fst h) = Some (render h)"
  by (induction h) (simp_all add: render_def entry_line_def)

lemma fold_unset: "fold (\<lambda>d h. h(d := None)) ds h x = (if x \<in> set ds then None else h x)"
  by (induction ds arbitrary: h) auto

lemma flush_text_maps:
  assumes "maps_hold h m" "distinct (map fst h)"
  shows "(let m' = drop_oldest n m in history_text (history m') (order m')) =
    Some (render (drop (length h - n) h))"
proof -
  let ?k = "length h - n"
  have h: "history m = map_of h" "order m = map fst h" using assms(1) by (simp_all add: maps_hold_def)
  have at: "map_of h (fst e) = Some (snd e)" if "e \<in> set h" for e
    using assms(2) that by (cases e) simp
  show ?thesis
  proof (cases "n < length h")
    case True
    have "fst e \<notin> set (take ?k (map fst h))" if "e \<in> set (drop ?k h)" for e
    proof -
      have "fst e \<in> set (drop ?k (map fst h))" using that by (simp add: drop_map)
      then show ?thesis using set_take_disj_set_drop_if_distinct [OF assms(2), of ?k ?k] by auto
    qed
    then have "\<forall>e \<in> set (drop ?k h). fold (\<lambda>d h. h(d := None)) (take ?k (map fst h)) (map_of h) (fst e) = Some (snd e)"
      using at by (auto simp: fold_unset dest: in_set_dropD)
    from history_text_render [OF this] True h show ?thesis
      by (simp add: drop_oldest_def Let_def drop_map fun_upd_def)
  next
    case False
    then show ?thesis using history_text_render [of h "map_of h"] at h by (simp add: drop_oldest_def)
  qed
qed

lemma flush_text_spec:
  assumes "hist_ok h" "list_all entry_ok batch"
  shows "flush_text n batch (Some (render h)) = Some (render (flush_spec n batch h))"
proof -
  have "maps_hold (fold record_entry batch h) (fold merge_entry batch (load_history (Some (render h))))"
    by (rule maps_hold_batch [OF load_history_render [OF assms(1)]])
  moreover have "distinct (map fst (fold record_entry batch h))"
    using flush_spec_ok [OF assms, of "length (fold record_entry batch h)"]
    by (simp add: flush_spec_def Let_def hist_ok_def)
  ultimately show ?thesis
    using flush_text_maps by (simp add: flush_text_def flush_spec_def Let_def)
qed

section \<open>Properties\<close>

definition addresses :: "entry list \<Rightarrow> rstr \<Rightarrow> rstr list" where
  "addresses h d = (case map_of h d of Some l \<Rightarrow> l | None \<Rightarrow> [])"

lemma add_new_grows: "prefix l (add_new ips l) \<and> set (add_new ips l) = set l \<union> set ips"
  unfolding add_new_def
proof (induction ips arbitrary: l)
  case (Cons ip ips)
  from Cons [of l] Cons [of "l @ [ip]"] show ?case
    by (auto dest: append_prefixD)
qed simp

lemma addresses_record:
  "addresses (record_entry (d, ips) h) d' = (if d' = d then add_new ips (addresses h d) else addresses h d')"
  by (simp add: addresses_def map_of_record)

lemma addresses_batch:
  "prefix (addresses h d) (addresses (fold record_entry batch h) d) \<and>
   set (addresses (fold record_entry batch h) d) =
     set (addresses h d) \<union> (\<Union>(d', ips) \<in> set batch. if d' = d then set ips else {})"
proof (induction batch arbitrary: h)
  case (Cons e batch)
  obtain d' ips where e: "e = (d', ips)" by (cases e)
  from Cons.IH [of "record_entry e h"] add_new_grows [of "addresses h d" ips] show ?case
    by (auto simp: e addresses_record intro: prefix_order.trans)
qed simp



text \<open>As long as the names fit the limit, a flush loses no address and adds none: each name keeps
  its addresses in their order and gains exactly those the batch has for it.\<close>

theorem history_keeps_addresses:
  assumes "length (fold record_entry batch h) \<le> n"
  shows "prefix (addresses h d) (addresses (flush_spec n batch h) d) \<and>
    set (addresses (flush_spec n batch h) d) =
      set (addresses h d) \<union> (\<Union>(d', ips) \<in> set batch. if d' = d then set ips else {})"
  using assms addresses_batch [of h d batch] by (simp add: flush_spec_def)

theorem history_keeps_addresses_witness:
  "set (addresses (flush_spec 5 [([97], [[49]]), ([97], [[50]])] [([97], [[51]])]) [97]) = {[49], [50], [51 :: u8]}"
proof -
  have "length (fold record_entry [([97], [[49]]), ([97], [[50]])] [([97 :: u8], [[51 :: u8]])]) \<le> 5"
    by (simp add: add_new_def)
  from history_keeps_addresses [OF this, of "[97]"] show ?thesis by (auto simp: addresses_def)
qed

text \<open>Under any interleaving of pushes and flushes the entries pushed are those settled by a flush,
  then those it is collecting, then those in the queue, in order: none is lost, doubled or
  reordered before a flush settles it. The queue never exceeds 100 entries, and when it is full
  the flush task makes room in at most three steps.\<close>

theorem history_conserves_entries:
  assumes "hist_run n start pushed settled s"
  shows "pushed = settled @ in_flight s @ queue s \<and> length (queue s) \<le> 100
    \<and> (length (queue s) = 100 \<longrightarrow> (\<exists>l s1 s2 s3. (hist_step n s [] [] l s1 \<or> s1 = s) \<and> hist_step n s1 [] [] [] s2
         \<and> hist_step n s2 [] [] [] s3 \<and> length (queue s3) < 100))"
  using hist_run_conserves [OF assms] full_queue_moves [of s n] by (auto simp: CAP_def)

theorem history_conserves_entries_witness:
  "[([97], [[49]])] = [] @ in_flight \<lparr>queue = [([97], [[49 :: u8]])], flush_task = Idle, hist_file = None\<rparr> @ [([97 :: u8], [[49]])]"
proof -
  have "hist_step 5 \<lparr>queue = [], flush_task = Idle, hist_file = None\<rparr> [([97], [[49]])] [] []
    \<lparr>queue = [([97], [[49]])], flush_task = Idle, hist_file = None\<rparr>"
    by (rule hist_step.push) (simp add: push_attempt_def CAP_def Let_def)
  from history_conserves_entries [OF hist_run.step [OF hist_run.fresh this]] show ?thesis by simp
qed

text \<open>A pattern \<open>*.base\<close> of \<open>matched_list\<close>, the form its comment gives, matches no name without
  empty labels, so such names are never recorded; a pattern \<open>*base\<close> without the dot matches
  \<open>base\<close> and the names below it.\<close>

theorem history_wildcard_needs_no_dot:
  assumes "[] \<notin> set (split_on dot d)"
  shows "\<not> domain_matches (lit ''*.'' @ base) d
    \<and> (domain_matches (lit ''*'' @ base) d \<longleftrightarrow> d = base \<or> ends_with d (lit ''.'' @ base))"
proof -
  have star: "strip_prefix (lit ''*'') (lit ''*.'' @ base) = Some (dot # base)"
    "strip_prefix (lit ''*'') (lit ''*'' @ base) = Some base" "lit ''.'' = [dot]"
    by (simp_all add: lit_def strip_prefix_def starts_with_def of_char_of)
  have two_dots: "d \<noteq> a @ dot # dot # b" "d \<noteq> dot # b" for a b
    using assms by (auto simp: split_on_append)
  have dot_before: "(length s < length d \<and> ends_with d s \<and> d ! (length d - length s - 1) = dot) \<longleftrightarrow>
      (\<exists>p. d = p @ dot # s)" for s
  proof
    assume at: "length s < length d \<and> ends_with d s \<and> d ! (length d - length s - 1) = dot"
    then obtain p where p: "d = p @ s" by (auto simp: ends_with_iff)
    with at have "p \<noteq> []" "last p = dot" by (auto simp: nth_append last_conv_nth)
    with p show "\<exists>p. d = p @ dot # s" by (intro exI [of _ "butlast p"]) (metis append_butlast_last_id append_eq_Cons_conv append.assoc append_Cons append_Nil)
  qed (auto simp: ends_with_iff nth_append)
  show ?thesis
    unfolding domain_matches_def star option.case dot_before
    unfolding ends_with_iff using two_dots by auto
qed

theorem history_wildcard_needs_no_dot_witness:
  "\<not> domain_matches (lit ''*.'' @ lit ''google.com'') (lit ''ads.google.com'')"
proof -
  have "[] \<notin> set (split_on dot (lit ''ads.google.com''))" by code_simp
  from history_wildcard_needs_no_dot [OF this] show ?thesis by blast
qed

text \<open>Closing the buffer saves what it still holds: after a \<open>close\<close> that succeeds, every entry ever pushed has been
  settled, and the waiting ones are in the file as a flush would have put them there.\<close>

theorem close_saves_rest:
  assumes "hist_run n start pushed settled s" "hist_close n True any s = Some (r, s')"
  shows "r = Inr () \<and> queue s' = [] \<and> pushed = settled @ queue s \<and>
    (if queue s = [] then hist_file s' = hist_file s else Some (the (hist_file s')) = flush_text n (queue s) (hist_file s))"
proof -
  have "flush_task s = Idle" using assms(2) by (auto simp: hist_close_def split: if_splits)
  with hist_run_conserves [OF assms(1)] have "pushed = settled @ queue s" by (simp add: in_flight_def)
  with assms(2) \<open>flush_task s = Idle\<close> show ?thesis by (auto simp: hist_close_def bind_eq_Some_conv split: if_splits)
qed

theorem close_saves_rest_witness:
  "\<exists>s'. hist_close 5 True None \<lparr>queue = [], flush_task = Idle, hist_file = None\<rparr> = Some (Inr (), s') \<and> queue s' = []"
  using close_saves_rest [OF hist_run.fresh [of 5 None], of None "Inr ()" "\<lparr>queue = [], flush_task = Idle, hist_file = None\<rparr>"]
  by (simp add: hist_close_def)

text \<open>A push onto a full queue never returns when the flush task does not get to run: the loop does not give its
  thread back, so that is what happens when every worker thread of the runtime is in such a loop.\<close>

theorem push_spins_forever:
  assumes "CAP \<le> length (queue s)"
  shows "push_many (\<lambda>_ b. b) 0 e s = None"
proof -
  have "queue (found_by (\<lambda>_ b. b) s i) = queue s" for i by (induction i) simp_all
  with assms have "\<nexists>i. has_room (found_by (\<lambda>_ b. b) s i)" by (simp add: has_room_def)
  with push_many_returns_iff [of "\<lambda>_ b. b" e s] show ?thesis by (cases "push_many (\<lambda>_ b. b) 0 e s") auto
qed

theorem push_spins_forever_witness:
  "push_many (\<lambda>_ b. b) 0 ([97], [[49]]) \<lparr>queue = replicate 100 ([98], [[50]]), flush_task = Collecting [], hist_file = None\<rparr> = None"
  by (rule push_spins_forever) (simp add: CAP_def)

text \<open>Names are written without quoting, so two names that a client can ask for, one byte of each
  being a space, make a file on which a later flush panics, which ends the process.\<close>

theorem history_flush_panics:
  "\<exists>t. flush_text 2 [(lit ''x a'', [lit ''1.1.1.1'']), (lit ''x b'', [lit ''1.1.1.1''])] None = Some t
     \<and> flush_text 2 [(lit ''y'', [lit ''1.1.1.1''])] (Some t) = None"
proof -
  have "flush_text 2 [(lit ''x a'', [lit ''1.1.1.1'']), (lit ''x b'', [lit ''1.1.1.1''])] None =
    Some (lit ''x a 1.1.1.1'' @ [10] @ lit ''x b 1.1.1.1'' @ [10])" by code_simp
  moreover have "flush_text 2 [(lit ''y'', [lit ''1.1.1.1''])]
    (Some (lit ''x a 1.1.1.1'' @ [10] @ lit ''x b 1.1.1.1'' @ [10])) = None" by code_simp
  ultimately show ?thesis by blast
qed

end
