(* ===== verification/Query_Handler.thy ===== *)
theory Query_Handler
  imports Domain_Trie Response_Cache Relay History
begin

text \<open>
  Answering one query in \<open>dns_relay\<close> (\<open>resolve_query\<close> and \<open>handle_query\<close> of
  \<open>dns_relay/src/handler.rs\<close>): rules, cache, relay or upstream resolver, metrics and history.

  The function is split where it waits for the network, because other queries run in between:
  \<open>query_front\<close> up to the cache, \<open>query_ask\<close> the wait, \<open>query_back\<close> from the answer on.
  \<open>resolve_query\<close> is their composition. The shared state is a record; what the code can observe
  of time and chance (instants, nonces, whether a time limit expires) is an argument.
\<close>

section \<open>State\<close>

record metrics =
  total_req :: u64
  resolved_count :: u64
  failed_count :: u64
  timeout_count :: u64
  redirect_count :: u64
  drop_count :: u64
  cached_count :: u64
  relay_resolved_count :: u64

record ('c, 'conn, 'k) relay_state =
  cache :: 'c
  metric_wrapper :: "metrics option"
  relay_picker :: "'k relay_picker option"
  resolver_pool :: "resolver list"
  doq_pool :: "'conn doq_pool"
  hist :: hist_buffer

record ('c, 'conn, 'k) relay_server =
  lower :: "rstr \<Rightarrow> rstr" \<comment> \<open>\<open>to_lowercase\<close> outside ASCII\<close>
  lru_ops :: "'c cache_ops"
  network :: "'conn net"
  relay_crates :: "'k relay_env"
  history_list :: "rstr list option" \<comment> \<open>\<open>matched_list\<close> when the history is on\<close>
  max_lines :: nat \<comment> \<open>\<open>lines_count\<close> of the history\<close>

text \<open>\<open>incr_metric!\<close>: \<open>fetch_add(1)\<close> when there is a metric wrapper.\<close>

definition incr :: "(metrics \<Rightarrow> metrics) \<Rightarrow> ('c, 'conn, 'k) relay_state \<Rightarrow> ('c, 'conn, 'k) relay_state" where
  "incr f s = s\<lparr>metric_wrapper := map_option f (metric_wrapper s)\<rparr>"

abbreviation incr_resolved where "incr_resolved \<equiv> incr (\<lambda>m. m\<lparr>resolved_count := resolved_count m + 1\<rparr>)"
abbreviation incr_failed where "incr_failed \<equiv> incr (\<lambda>m. m\<lparr>failed_count := failed_count m + 1\<rparr>)"
abbreviation incr_timeout where "incr_timeout \<equiv> incr (\<lambda>m. m\<lparr>timeout_count := timeout_count m + 1\<rparr>)"
abbreviation incr_redirect where "incr_redirect \<equiv> incr (\<lambda>m. m\<lparr>redirect_count := redirect_count m + 1\<rparr>)"
abbreviation incr_drop where "incr_drop \<equiv> incr (\<lambda>m. m\<lparr>drop_count := drop_count m + 1\<rparr>)"
abbreviation incr_cached where "incr_cached \<equiv> incr (\<lambda>m. m\<lparr>cached_count := cached_count m + 1\<rparr>)"

section \<open>Up to the cache\<close>

datatype front =
    Done "bytes option" \<comment> \<open>the function has returned\<close>
  | Ask rstr cache_key \<comment> \<open>the name must be resolved\<close>

definition query_front ::
  "('c, 'conn, 'k) relay_server \<Rightarrow> domain_trie \<Rightarrow> nat \<Rightarrow> bytes \<Rightarrow> ('c, 'conn, 'k) relay_state \<Rightarrow>
     (front \<times> ('c, 'conn, 'k) relay_state) run" where
  "query_front E rule_trie now payload s =
     (if length payload < 12 then Some (Done None, s)
      else do {
        parsed \<leftarrow> parse_domain (lower E) payload 12;
        case parsed of
          None \<Rightarrow> Some (Done None, s)
        | Some (domain, qname_end) \<Rightarrow>
            (case check_rules (lower E) domain rule_trie of
               RuleDrop \<Rightarrow> do {
                 resp \<leftarrow> craft_nxdomain_response payload;
                 Some (case resp of None \<Rightarrow> (Done None, s) | Some r \<Rightarrow> (Done (Some r), incr_drop s)) }
             | RuleRedirect ips \<Rightarrow> do {
                 resp \<leftarrow> craft_redirect_response payload qname_end ips;
                 Some (case resp of None \<Rightarrow> (Done None, s) | Some r \<Rightarrow> (Done (Some r), incr_redirect s)) }
             | RuleNone \<Rightarrow> do {
                 key \<leftarrow> cache_key_from_query (lower E) payload;
                 case key of
                   None \<Rightarrow> Some (Done None, s)
                 | Some cache_key \<Rightarrow> do {
                     t0 \<leftarrow> rd payload 0;
                     t1 \<leftarrow> rd payload 1;
                     Some (case cache_lookup (lru_ops E) now cache_key (cache s) of
                         (Some hit, c) \<Rightarrow> (Done (Some (with_txid hit t0 t1)), incr_cached (s\<lparr>cache := c\<rparr>))
                       | (None, c) \<Rightarrow> (Ask domain cache_key, s\<lparr>cache := c\<rparr>)) } }) })"

section \<open>The wait\<close>

text \<open>Whether the time limit of the wait expires; if it does, a DoQ connection may have been made
  before.\<close>

datatype timing = InTime | TooLate bool

definition query_ask ::
  "('c, 'conn, 'k) relay_server \<Rightarrow> timing \<Rightarrow> bytes \<Rightarrow> bool \<Rightarrow> ip_addr \<Rightarrow> rstr \<Rightarrow> bytes \<Rightarrow>
     ('c, 'conn, 'k) relay_state \<Rightarrow> ((error + bytes) \<times> ('c, 'conn, 'k) relay_state) run" where
  "query_ask E timing nonce is_vpn_active src_addr domain payload s =
     (case relay_picker s of
        Some picker \<Rightarrow> do {
          (instance, picker) \<leftarrow> relay_pick picker;
          r \<leftarrow> relay_instance_resolve (relay_crates E) instance nonce domain payload;
          Some (if timing = InTime then r else Inl ResolveTimeout, s\<lparr>relay_picker := Some picker\<rparr>) }
      | None \<Rightarrow> do {
          resolver \<leftarrow> pick_doh_first is_vpn_active (resolver_pool s);
          (r, pool) \<leftarrow> resolve_from_upstream (network E) payload resolver src_addr (doq_pool s);
          Some (case timing of
              InTime \<Rightarrow> (map_sum id fst r, s\<lparr>doq_pool := pool\<rparr>)
            | TooLate dialled \<Rightarrow>
                (Inl ResolveTimeout, if dialled then s\<lparr>doq_pool := pool\<rparr> else s)) })"

section \<open>From the answer on\<close>

text \<open>What \<open>push_many\<close> is to put into the queue, if anything.\<close>

definition history_entry :: "('c, 'conn, 'k) relay_server \<Rightarrow> rstr \<Rightarrow> bytes \<Rightarrow> entry option run" where
  "history_entry E domain reply =
     (case history_list E of
        None \<Rightarrow> Some None
      | Some matched_list \<Rightarrow> do {
          a_records \<leftarrow> parse_a_records reply;
          Some (accepted matched_list domain (map show_ipv4 a_records)) })"

text \<open>\<open>others\<close> is what the other tasks do to the buffer between the attempts of the loop of \<open>push_many\<close>, which has
  no result when it never finds room.\<close>

definition push_history ::
  "(nat \<Rightarrow> hist_buffer \<Rightarrow> hist_buffer) \<Rightarrow> entry option \<Rightarrow>
     ('c, 'conn, 'k) relay_state \<Rightarrow> ('c, 'conn, 'k) relay_state run" where
  "push_history others e s =
     (case e of
        None \<Rightarrow> Some s
      | Some e \<Rightarrow> do { h \<leftarrow> push_many others 0 e (hist s); Some (s\<lparr>hist := h\<rparr>) })"

text \<open>The answer is stored and counted; the entry for the history and the reply are still to be handled.\<close>

definition query_settle ::
  "('c, 'conn, 'k) relay_server \<Rightarrow> nat \<Rightarrow> rstr \<Rightarrow> cache_key \<Rightarrow> bytes \<Rightarrow> error + bytes \<Rightarrow>
     ('c, 'conn, 'k) relay_state \<Rightarrow> ((entry option \<times> bytes option) \<times> ('c, 'conn, 'k) relay_state) run" where
  "query_settle E now domain key payload result s =
     (case result of
        Inr reply_buf \<Rightarrow> do {
          c \<leftarrow> cache_store (lru_ops E) (lower E) now key reply_buf (cache s);
          e \<leftarrow> history_entry E domain reply_buf;
          t0 \<leftarrow> rd payload 0;
          t1 \<leftarrow> rd payload 1;
          Some ((e, Some (with_txid reply_buf t0 t1)), incr_resolved (s\<lparr>cache := c\<rparr>)) }
      | Inl err \<Rightarrow> do {
          resp \<leftarrow> craft_servfail_response payload;
          Some ((None, resp), if err = ResolveTimeout then incr_timeout s else incr_failed s) })"

definition query_back ::
  "('c, 'conn, 'k) relay_server \<Rightarrow> (nat \<Rightarrow> hist_buffer \<Rightarrow> hist_buffer) \<Rightarrow> nat \<Rightarrow> rstr \<Rightarrow> cache_key \<Rightarrow> bytes \<Rightarrow>
     error + bytes \<Rightarrow> ('c, 'conn, 'k) relay_state \<Rightarrow> (bytes option \<times> ('c, 'conn, 'k) relay_state) run" where
  "query_back E others now domain key payload result s = do {
     ((e, reply), s) \<leftarrow> query_settle E now domain key payload result s;
     s \<leftarrow> push_history others e s;
     Some (reply, s) }"

text \<open>What one run of the function meets: the instants of its lookup and its store, the expiry of the
  wait, the nonce, the VPN flag, the address of the client, and what happens to the history buffer meanwhile.\<close>

record circumstances =
  lookup_time :: nat
  store_time :: nat
  wait_timing :: timing
  ask_nonce :: bytes
  vpn_active :: bool
  client :: ip_addr
  others_push :: "nat \<Rightarrow> hist_buffer \<Rightarrow> hist_buffer"

definition resolve_query ::
  "('c, 'conn, 'k) relay_server \<Rightarrow> domain_trie \<Rightarrow> circumstances \<Rightarrow> bytes \<Rightarrow> ('c, 'conn, 'k) relay_state \<Rightarrow>
     (bytes option \<times> ('c, 'conn, 'k) relay_state) run" where
  "resolve_query E rule_trie W payload s = do {
     (front, s) \<leftarrow> query_front E rule_trie (lookup_time W) payload s;
     case front of
       Done reply \<Rightarrow> Some (reply, s)
     | Ask domain key \<Rightarrow> do {
         (result, s) \<leftarrow> query_ask E (wait_timing W) (ask_nonce W) (vpn_active W) (client W) domain payload s;
         query_back E (others_push W) (store_time W) domain key payload result s } }"

text \<open>\<open>handle_query\<close> sends the reply, if there is one, to the client's address \<open>dst\<close>.\<close>

definition handle_query ::
  "('c, 'conn, 'k) relay_server \<Rightarrow> domain_trie \<Rightarrow> circumstances \<Rightarrow> socket_addr \<Rightarrow> bytes \<Rightarrow>
     ('c, 'conn, 'k) relay_state \<Rightarrow> ((socket_addr \<times> bytes) list \<times> ('c, 'conn, 'k) relay_state) run" where
  "handle_query E rule_trie W dst payload s = do {
     (reply, s) \<leftarrow> resolve_query E rule_trie W payload s;
     Some (case reply of None \<Rightarrow> [] | Some resp \<Rightarrow> [(dst, resp)], s) }"

section \<open>When the function returns\<close>

lemma cache_key_of_parse:
  assumes "parse_domain uni p 12 = Some (Some (d, qe))"
  shows "cache_key_from_query uni p = Some (if length p < qe + 2 then None
    else Some \<lparr>key_name = d, key_qtype = be16 (p ! qe) (p ! (qe + 1))\<rparr>)"
  using assms by (simp add: cache_key_from_query_def run_simps)

lemma rd_header: "12 \<le> length p \<Longrightarrow> rd p 0 = Some (p ! 0) \<and> rd p 1 = Some (p ! 1)"
  by (auto simp: rd_def)

text \<open>What the front does with a query whose name is read.\<close>

definition question_key :: "bytes \<Rightarrow> rstr \<Rightarrow> nat \<Rightarrow> cache_key" where
  "question_key p d qe = \<lparr>key_name = d, key_qtype = be16 (p ! qe) (p ! (qe + 1))\<rparr>"

lemma query_front_eq:
  assumes "12 \<le> length p" "parse_domain (lower E) p 12 = Some (Some (d, qe))"
  shows "query_front E trie now p s =
    (case check_rules (lower E) d trie of
       RuleDrop \<Rightarrow> Some (Done (Some (p[2 := 0x81, 3 := 0x83])), incr_drop s)
     | RuleRedirect ips \<Rightarrow> map_option (\<lambda>resp. case resp of
           None \<Rightarrow> (Done None, s) | Some r \<Rightarrow> (Done (Some r), incr_redirect s)) (craft_redirect_response p qe ips)
     | RuleNone \<Rightarrow> Some (if length p < qe + 2 then (Done None, s)
         else case cache_lookup (lru_ops E) now (question_key p d qe) (cache s) of
             (Some hit, c) \<Rightarrow> (Done (Some (with_txid hit (p ! 0) (p ! 1))), incr_cached (s\<lparr>cache := c\<rparr>))
           | (None, c) \<Rightarrow> (Ask d (question_key p d qe), s\<lparr>cache := c\<rparr>)))"
proof -
  have map_bind: "Option.bind x (\<lambda>y. Some (f y)) = map_option f x" for x :: "'x option" and f :: "'x \<Rightarrow> 'y"
    by (cases x) simp_all
  show ?thesis
    using assms rd_header [OF assms(1)]
    by (auto simp: query_front_def cache_key_of_parse question_key_def craft_nxdomain_eq map_bind
        split: rule_match.split prod.split option.split)
qed

lemma query_front_bad:
  "length p < 12 \<or> parse_domain (lower E) p 12 = Some None \<Longrightarrow> query_front E trie now p s = Some (Done None, s)"
  by (auto simp: query_front_def)

lemma query_front_returns:
  assumes "12 \<le> length p \<Longrightarrow> parse_domain (lower E) p 12 \<noteq> None"
  shows "\<exists>f s'. query_front E trie now p s = Some (f, s')"
proof (cases "length p < 12 \<or> parse_domain (lower E) p 12 = Some None")
  case True
  then show ?thesis by (simp add: query_front_bad)
next
  case False
  then obtain d qe where dq: "parse_domain (lower E) p 12 = Some (Some (d, qe))" "12 \<le> length p"
    using assms by (cases "parse_domain (lower E) p 12") fastforce+
  obtain r where "craft_redirect_response p qe ips = Some (r ips)" for ips
    using craft_redirect_returns by metis
  then show ?thesis
    unfolding query_front_eq [OF dq(2,1)] by (auto split: rule_match.split prod.split option.split)
qed

lemma query_front_Ask:
  assumes "query_front E trie now p s = Some (Ask d k, s')"
  obtains qe c where "12 \<le> length p" "parse_domain (lower E) p 12 = Some (Some (d, qe))" "qe + 2 \<le> length p"
    "check_rules (lower E) d trie = RuleNone" "k = question_key p d qe" "s' = s\<lparr>cache := c\<rparr>"
    "cache_lookup (lru_ops E) now k (cache s) = (None, c)"
proof -
  have ok: "\<not> (length p < 12 \<or> parse_domain (lower E) p 12 = Some None)"
    using assms query_front_bad [of p E trie now s] by fastforce
  moreover have "query_front E trie now p s = None" if "12 \<le> length p" "parse_domain (lower E) p 12 = None"
    using that by (simp add: query_front_def)
  ultimately have "parse_domain (lower E) p 12 \<noteq> None"
    using assms by fastforce
  with ok obtain d' qe where dq: "parse_domain (lower E) p 12 = Some (Some (d', qe))" "12 \<le> length p"
    by (cases "parse_domain (lower E) p 12") fastforce+
  show thesis
    using assms that dq unfolding query_front_eq [OF dq(2,1)]
    by (auto split: rule_match.splits prod.splits option.splits if_splits)
qed

text \<open>The state is fit to answer: there is a healthy resolver, and relays are there when they are
  on.\<close>

definition fit :: "('c, 'conn, 'k) relay_state \<Rightarrow> bool" where
  "fit s \<longleftrightarrow> resolver_pool s \<noteq> [] \<and> (\<forall>p. relay_picker s = Some p \<longrightarrow> instances p \<noteq> [])"

lemma query_ask_returns:
  assumes "fit s" "aead_contract (cipher (relay_crates E))" "length nonce = 12" "length p < 65536"
  shows "\<exists>r s'. query_ask E tm nonce vpn src d p s = Some (r, s')"
proof (cases "relay_picker s")
  case (Some picker)
  then have "instances picker \<noteq> []" using assms(1) by (simp add: fit_def)
  then obtain i picker' where "relay_pick picker = Some (i, picker')"
    by (simp add: relay_pick_def Let_def)
  moreover obtain r where "relay_instance_resolve (relay_crates E) i nonce d p = Some r"
    using aead_contract.encrypt_total [OF assms(2,3), of p "ri_key i"] assms(4)
    by (cases "ri_transport i") (auto simp: relay_instance_resolve_def resolve_via_relay_def
        resolve_via_relay_apps_script_def encode_for_relay_def)
  ultimately show ?thesis using Some by (simp add: query_ask_def)
next
  case None
  obtain u where "pick_doh_first vpn (resolver_pool s) = Some u"
    using assms(1) pick_doh_first_returns unfolding fit_def by blast
  moreover obtain r pool where "resolve_from_upstream (network E) p u src (doq_pool s) = Some (r, pool)"
    using resolve_from_upstream_returns by (metis surj_pair)
  ultimately show ?thesis using None by (cases tm) (auto simp: query_ask_def)
qed

lemma parse_a_records_returns: "\<exists>ips. parse_a_records b = Some ips"
proof -
  obtain r where "skip_questions (unat (be16 (b ! 4) (b ! 5))) b 12 = Some r"
    using skip_questions_returns by blast
  moreover have "\<exists>ips. read_answers n b pos [] = Some ips" for n pos using read_answers_returns by blast
  ultimately show ?thesis by (auto simp: parse_a_records_def run_simps split: option.splits)
qed

lemma history_entry_returns: "\<exists>e. history_entry E d reply = Some e"
  using parse_a_records_returns [of reply] by (auto simp: history_entry_def split: option.split)

lemma push_history_keeps:
  "push_history others e s = Some s' \<Longrightarrow> metric_wrapper s' = metric_wrapper s \<and> cache s' = cache s"
  by (auto simp: push_history_def bind_eq_Some_conv split: option.splits)

lemma push_history_returns_iff:
  "(\<exists>s'. push_history others e s = Some s') \<longleftrightarrow> (e = None \<or> (\<exists>i. has_room (found_by others (hist s) i)))"
  using push_many_returns_iff [of others _ "hist s"] by (cases e) (auto simp: push_history_def bind_eq_Some_conv)

lemma query_settle_returns:
  assumes "12 \<le> length p" "\<And>reply. r = Inr reply \<Longrightarrow> min_answer_ttl (lower E) reply \<noteq> None"
  shows "\<exists>x s'. query_settle E now d k p r s = Some (x, s') \<and> hist s' = hist s \<and>
    (case r of Inl _ \<Rightarrow> fst x = None | Inr reply \<Rightarrow> history_entry E d reply = Some (fst x))"
proof (cases r)
  case (Inl e)
  then show ?thesis by (simp add: query_settle_def craft_servfail_eq incr_def)
next
  case (Inr reply)
  then obtain t where "cache_ttl (lower E) reply = Some t"
    using assms(2) by (fastforce simp: cache_ttl_def)
  then have "\<exists>c. cache_store (lru_ops E) (lower E) now k reply (cache s) = Some c"
    by (simp add: cache_store_def)
  then obtain c e where "cache_store (lru_ops E) (lower E) now k reply (cache s) = Some c" "history_entry E d reply = Some e"
    using history_entry_returns by blast
  with Inr rd_header [OF assms(1)] show ?thesis by (simp add: query_settle_def incr_def)
qed

lemma query_back_returns_iff:
  assumes "12 \<le> length p" "\<And>reply. r = Inr reply \<Longrightarrow> min_answer_ttl (lower E) reply \<noteq> None"
  shows "(\<exists>x s'. query_back E others now d k p r s = Some (x, s')) \<longleftrightarrow>
    (\<forall>reply e. r = Inr reply \<longrightarrow> history_entry E d reply = Some (Some e) \<longrightarrow> (\<exists>i. has_room (found_by others (hist s) i)))"
proof -
  obtain x s1 where x: "query_settle E now d k p r s = Some (x, s1)" "hist s1 = hist s"
    "case r of Inl _ \<Rightarrow> fst x = None | Inr reply \<Rightarrow> history_entry E d reply = Some (fst x)"
    using query_settle_returns [where r = r and E = E, OF assms] by blast
  obtain e reply where "x = (e, reply)" by (cases x)
  with x have q: "query_settle E now d k p r s = Some ((e, reply), s1)" "hist s1 = hist s"
    and e: "case r of Inl _ \<Rightarrow> e = None | Inr reply \<Rightarrow> history_entry E d reply = Some e" by (auto split: sum.splits)
  have "(\<exists>x s'. query_back E others now d k p r s = Some (x, s')) \<longleftrightarrow> (\<exists>s'. push_history others e s1 = Some s')"
    by (auto simp: query_back_def q bind_eq_Some_conv)
  then show ?thesis unfolding push_history_returns_iff using e q(2) by (cases r; cases e) auto
qed

section \<open>Replies and counters\<close>

lemma parse_domain_end: "parse_domain uni p 12 = Some (Some (d, qe)) \<Longrightarrow> 12 < qe"
proof -
  assume "parse_domain uni p 12 = Some (Some (d, qe))"
  then have "skip_name p 12 = Some (Some qe)"
    using parse_name_skip_name unfolding parse_domain_def by blast
  then show ?thesis using skip_name_bounds by blast
qed

lemma take2_update: "2 \<le> i \<Longrightarrow> take 2 (xs[i := x]) = take 2 xs"
  by simp

lemma take2_txid:
  assumes "12 \<le> length p" "2 \<le> length (with_txid b (p ! 0) (p ! 1))"
  shows "take 2 (with_txid b (p ! 0) (p ! 1)) = take 2 p"
  using assms take2_with_txid [of b "p ! 0" "p ! 1"] take2 [of 0 p] by simp

lemma redirect_take2:
  assumes "12 \<le> length p" "12 < qe" "craft_redirect_response p qe ips = Some (Some r)"
  shows "take 2 r = take 2 p"
proof -
  have qe: "12 \<le> qe" using assms(2) by simp
  obtain n recs where "r = redirect_header p n @ recs"
    using assms(3) craft_redirect_eq [OF assms(1) qe, of ips] by (auto simp: Let_def split: if_splits)
  then show ?thesis using assms(1) by (simp add: redirect_header_def)
qed

lemma query_front_Done:
  assumes "query_front E trie now p s = Some (Done (Some r), s')"
  obtains d qe where "12 \<le> length p" "parse_domain (lower E) p 12 = Some (Some (d, qe))"
    "check_rules (lower E) d trie = RuleDrop" "r = p[2 := 0x81, 3 := 0x83]" "s' = incr_drop s"
  | d qe ips where "12 \<le> length p" "parse_domain (lower E) p 12 = Some (Some (d, qe))"
    "check_rules (lower E) d trie = RuleRedirect ips" "craft_redirect_response p qe ips = Some (Some r)"
    "s' = incr_redirect s"
  | d qe hit c where "12 \<le> length p" "parse_domain (lower E) p 12 = Some (Some (d, qe))"
    "check_rules (lower E) d trie = RuleNone"
    "cache_lookup (lru_ops E) now (question_key p d qe) (cache s) = (Some hit, c)"
    "r = with_txid hit (p ! 0) (p ! 1)" "s' = incr_cached (s\<lparr>cache := c\<rparr>)"
proof -
  have ok: "\<not> (length p < 12 \<or> parse_domain (lower E) p 12 = Some None)"
    using assms query_front_bad [of p E trie now s] by fastforce
  moreover have "query_front E trie now p s = None" if "12 \<le> length p" "parse_domain (lower E) p 12 = None"
    using that by (simp add: query_front_def)
  ultimately have "parse_domain (lower E) p 12 \<noteq> None"
    using assms by fastforce
  with ok obtain d qe where dq: "parse_domain (lower E) p 12 = Some (Some (d, qe))" "12 \<le> length p"
    by (cases "parse_domain (lower E) p 12") fastforce+
  show thesis
    using assms that dq unfolding query_front_eq [OF dq(2,1)]
    by (auto split: rule_match.splits prod.splits option.splits if_splits)
qed

lemma query_front_Done_None:
  assumes "query_front E trie now p s = Some (Done None, s')"
  shows "s' = s"
proof (cases "length p < 12 \<or> parse_domain (lower E) p 12 = Some None")
  case True
  then show ?thesis using assms query_front_bad [of p E trie now s] by simp
next
  case False
  show ?thesis
  proof (cases "parse_domain (lower E) p 12")
    case None
    then show ?thesis using assms False by (simp add: query_front_def)
  next
    case (Some r)
    with False obtain d qe where dq: "parse_domain (lower E) p 12 = Some (Some (d, qe))" "12 \<le> length p"
      by (cases r) fastforce+
    show ?thesis
      using assms unfolding query_front_eq [OF dq(2,1)]
      by (auto split: rule_match.splits prod.splits option.splits if_splits)
  qed
qed

lemma query_ask_hist: "query_ask E tm nonce vpn src d p s = Some (r, s') \<Longrightarrow> hist s' = hist s"
  by (cases "relay_picker s"; cases tm) (auto simp: query_ask_def bind_eq_Some_conv split: if_splits)

lemma query_ask_metrics: "query_ask E tm nonce vpn src d p s = Some (r, s') \<Longrightarrow> metric_wrapper s' = metric_wrapper s"
  by (cases "relay_picker s"; cases tm) (auto simp: query_ask_def bind_eq_Some_conv split: if_splits)

text \<open>What the back does, in closed form.\<close>

lemma query_settle_cases:
  assumes "query_settle E now d k p r s = Some ((e, x), s')" "12 \<le> length p"
  obtains reply c where "r = Inr reply" "cache_store (lru_ops E) (lower E) now k reply (cache s) = Some c"
    "history_entry E d reply = Some e" "s' = incr_resolved (s\<lparr>cache := c\<rparr>)" "x = Some (with_txid reply (p ! 0) (p ! 1))"
  | err where "r = Inl err" "e = None" "x = Some (p[2 := 0x81, 3 := 0x82])"
    "s' = (if err = ResolveTimeout then incr_timeout s else incr_failed s)"
  using assms rd_header [OF assms(2)]
  by (cases r) (auto simp: query_settle_def craft_servfail_eq bind_eq_Some_conv)

lemma query_back_cases:
  assumes "query_back E others now d k p r s = Some (x, s')" "12 \<le> length p"
  obtains reply c where "r = Inr reply" "cache_store (lru_ops E) (lower E) now k reply (cache s) = Some c"
    "metric_wrapper s' = metric_wrapper (incr_resolved s)" "cache s' = c"
    "x = Some (with_txid reply (p ! 0) (p ! 1))"
  | e where "r = Inl e" "x = Some (p[2 := 0x81, 3 := 0x82])"
    "s' = (if e = ResolveTimeout then incr_timeout s else incr_failed s)"
proof -
  from assms(1) obtain e s1 where q: "query_settle E now d k p r s = Some ((e, x), s1)"
    and h: "push_history others e s1 = Some s'"
    by (auto simp: query_back_def bind_eq_Some_conv)
  from q assms(2) show thesis
  proof (cases rule: query_settle_cases)
    case (1 reply c)
    with push_history_keeps [OF h] that(1) show thesis by (simp add: incr_def)
  next
    case (2 err)
    with h that(2) show thesis by (simp add: push_history_def)
  qed
qed

definition answered :: "metrics \<Rightarrow> u64" where
  "answered m = resolved_count m + failed_count m + timeout_count m + redirect_count m
     + drop_count m + cached_count m"

text \<open>The two ways a call returns: the front answers, or the answer comes back.\<close>

lemma resolve_queryE:
  assumes "resolve_query E trie W p s = Some (x, s')"
  obtains "query_front E trie (lookup_time W) p s = Some (Done x, s')"
  | d k s1 r s2 where "query_front E trie (lookup_time W) p s = Some (Ask d k, s1)"
      "query_ask E (wait_timing W) (ask_nonce W) (vpn_active W) (client W) d p s1 = Some (r, s2)"
      "query_back E (others_push W) (store_time W) d k p r s2 = Some (x, s')"
proof -
  obtain f s1 where f: "query_front E trie (lookup_time W) p s = Some (f, s1)"
    using assms by (auto simp: resolve_query_def bind_eq_Some_conv)
  show thesis
  proof (cases f)
    case (Done y)
    with f assms that(1) show ?thesis by (simp add: resolve_query_def)
  next
    case (Ask d k)
    with f assms obtain r s2 where
      "query_ask E (wait_timing W) (ask_nonce W) (vpn_active W) (client W) d p s1 = Some (r, s2)"
      by (auto simp: resolve_query_def bind_eq_Some_conv)
    with Ask f assms that(2) show ?thesis by (simp add: resolve_query_def)
  qed
qed

section \<open>A small server for the witnesses\<close>

text \<open>One DoH resolver that always gives \<open>reply\<close>, an empty cache, metrics and history on.\<close>

definition demo_server :: "bytes \<Rightarrow> ((cache_key, cache_entry) recency, nat, u8) relay_server" where
  "demo_server reply = \<lparr>lower = (\<lambda>s. s), lru_ops = list_lru,
     network = silent_net\<lparr>http_post := \<lambda>_ _. Response 200 (Some reply)\<rparr>,
     relay_crates = demo_env, history_list = Some [], max_lines = 5\<rparr>"

definition demo_state :: "((cache_key, cache_entry) recency, nat, u8) relay_state" where
  "demo_state = \<lparr>cache = (4095, []), metric_wrapper = Some \<lparr>total_req = 1, resolved_count = 0, failed_count = 0,
     timeout_count = 0, redirect_count = 0, drop_count = 0, cached_count = 0, relay_resolved_count = 0\<rparr>,
     relay_picker = None, resolver_pool = [(lit ''https://d'', 1)], doq_pool = (\<lambda>_. None),
     hist = \<lparr>queue = [], flush_task = Idle, hist_file = None\<rparr>\<rparr>"

definition demo_query :: bytes where
  "demo_query = build_lookup_query 7 (lit ''a.b'')"

definition demo_reply :: bytes where
  "demo_reply = [0, 7, 0x81, 0x80, 0, 0, 0, 0, 0, 0, 0, 0]"

definition demo_run :: "timing \<Rightarrow> circumstances" where
  "demo_run t = \<lparr>lookup_time = 0, store_time = 1, wait_timing = t, ask_nonce = replicate 12 0,
     vpn_active = False, client = V6 [], others_push = (\<lambda>_ h. h)\<rparr>"

definition demo_key :: cache_key where
  "demo_key = \<lparr>key_name = lit ''a.b'', key_qtype = 1\<rparr>"

lemma demo_parse: "parse_domain (\<lambda>s. s) demo_query 12 = Some (Some (lit ''a.b'', 17))"
  by code_simp

lemma demo_length: "length demo_query = 21"
  by code_simp

lemma demo_question: "question_key demo_query (lit ''a.b'') 17 = demo_key"
  by code_simp

lemma demo_server_sel [simp]:
  "lower (demo_server r) = (\<lambda>s. s)" "lru_ops (demo_server r) = list_lru"
  "relay_crates (demo_server r) = demo_env" "history_list (demo_server r) = Some []"
  "network (demo_server r) = silent_net\<lparr>http_post := \<lambda>_ _. Response 200 (Some r)\<rparr>"
  by (simp_all add: demo_server_def)

lemma demo_front_hist:
  "query_front (demo_server r) empty_trie now demo_query (demo_state\<lparr>hist := h\<rparr>) = Some (Ask (lit ''a.b'') demo_key, demo_state\<lparr>hist := h\<rparr>)"
proof -
  have "check_rules (\<lambda>s. s) (lit ''a.b'') empty_trie = RuleNone"
    by (simp add: check_rules_def lookup_def trie.look_empty)
  moreover have "cache_lookup list_lru now demo_key (cache demo_state) = (None, cache demo_state)"
    by (simp add: cache_lookup_def demo_state_def)
  ultimately show ?thesis
    using query_front_eq [of demo_query "demo_server r" "lit ''a.b''" 17 empty_trie now "demo_state\<lparr>hist := h\<rparr>"]
      demo_parse demo_length demo_question
    by simp
qed

lemma demo_front: "query_front (demo_server r) empty_trie now demo_query demo_state = Some (Ask (lit ''a.b'') demo_key, demo_state)"
  using demo_front_hist [of r now "hist demo_state"] by simp

lemma demo_ask_hist:
  "query_ask (demo_server r) t n False (V6 []) d demo_query (demo_state\<lparr>hist := h\<rparr>) =
     Some (if t = InTime then Inr r else Inl ResolveTimeout, demo_state\<lparr>hist := h\<rparr>)"
proof -
  have "starts_with (lit ''https://d'') HTTPS" by code_simp
  then have "resolve_from_upstream (network (demo_server r)) demo_query (lit ''https://d'') (V6 []) (doq_pool demo_state) =
      Some (Inr (r, length r), doq_pool demo_state)"
    by (simp add: resolve_from_upstream_def set_ecs_option_def resolve_via_doh_def is_success_def)
  moreover have "pick_doh_first False (resolver_pool demo_state) = Some (lit ''https://d'')"
    by (simp add: pick_doh_first_def pick_def demo_state_def)
  ultimately show ?thesis
    by (cases t) (simp_all add: query_ask_def demo_state_def)
qed

lemma demo_ask:
  "query_ask (demo_server r) t n False (V6 []) d demo_query demo_state =
     Some (if t = InTime then Inr r else Inl ResolveTimeout, demo_state)"
  using demo_ask_hist [of r t n d "hist demo_state"] by simp

lemma demo_run_sel [simp]:
  "lookup_time (demo_run t) = 0" "store_time (demo_run t) = 1" "wait_timing (demo_run t) = t"
  "ask_nonce (demo_run t) = replicate 12 0" "vpn_active (demo_run t) = False" "client (demo_run t) = V6 []"
  "others_push (demo_run t) = (\<lambda>_ h. h)"
  by (simp_all add: demo_run_def)

lemma demo_ttl: "min_answer_ttl (\<lambda>s. s) demo_reply = Some None" "cache_ttl (\<lambda>s. s) demo_reply = Some 60000000000"
proof -
  show "min_answer_ttl (\<lambda>s. s) demo_reply = Some None" by code_simp
  then show "cache_ttl (\<lambda>s. s) demo_reply = Some 60000000000" by (simp add: cache_ttl_def CACHE_TTL_FALLBACK_def)
qed

definition demo_state_after :: "((cache_key, cache_entry) recency, nat, u8) relay_state" where
  "demo_state_after = incr_resolved (demo_state\<lparr>cache :=
     (4095, [(demo_key, \<lparr>packet = stored_packet demo_reply, expires_at = 60000000001\<rparr>)])\<rparr>)"

lemma demo_resolve:
  "resolve_query (demo_server demo_reply) empty_trie (demo_run InTime) demo_query demo_state =
     Some (Some (with_txid demo_reply 0 7), demo_state_after)"
proof -
  have "parse_a_records demo_reply = Some []" by code_simp
  moreover have "rd demo_query 0 = Some 0" "rd demo_query (Suc 0) = Some 7" by code_simp+
  moreover have "cache demo_state = (4095, [])" by (simp add: demo_state_def)
  ultimately show ?thesis
    by (simp add: resolve_query_def demo_front demo_ask query_back_def query_settle_def cache_store_def demo_ttl
        history_entry_def push_history_def accepted_def demo_state_after_def)
qed

section \<open>Properties\<close>

text \<open>C4: When the name of a query can be read (no endless chain of pointers), the pool and the relays are there,
  and the TTL of every reply that comes back can be read, then nothing but the history can keep the call from
  returning: it returns exactly when either nothing is to be recorded, or one of the attempts of
  \<open>push_many\<close>, between which the other tasks work, finds room in the queue of 100 entries.\<close>

theorem resolve_query_returns:
  assumes "12 \<le> length p \<Longrightarrow> parse_domain (lower E) p 12 \<noteq> None"
    and "fit s" "aead_contract (cipher (relay_crates E))" "length (ask_nonce W) = 12" "length p < 65536"
    and "\<And>d k s1 reply s2. query_front E trie (lookup_time W) p s = Some (Ask d k, s1) \<Longrightarrow>
      query_ask E (wait_timing W) (ask_nonce W) (vpn_active W) (client W) d p s1 = Some (Inr reply, s2) \<Longrightarrow>
      min_answer_ttl (lower E) reply \<noteq> None"
  shows "(\<exists>x s'. resolve_query E trie W p s = Some (x, s')) \<longleftrightarrow>
    (\<forall>d k s1 reply s2 e. query_front E trie (lookup_time W) p s = Some (Ask d k, s1) \<longrightarrow>
      query_ask E (wait_timing W) (ask_nonce W) (vpn_active W) (client W) d p s1 = Some (Inr reply, s2) \<longrightarrow>
      history_entry E d reply = Some (Some e) \<longrightarrow> (\<exists>i. has_room (found_by (others_push W) (hist s) i)))"
proof -
  obtain f s1 where f: "query_front E trie (lookup_time W) p s = Some (f, s1)"
    using query_front_returns [OF assms(1)] by blast
  show ?thesis
  proof (cases f)
    case (Done y)
    with f show ?thesis by (simp add: resolve_query_def)
  next
    case (Ask d k)
    obtain qe c where front: "12 \<le> length p" "s1 = s\<lparr>cache := c\<rparr>"
      using f Ask by (auto elim: query_front_Ask)
    then have "fit s1" using assms(2) by (simp add: fit_def)
    from query_ask_returns [OF this assms(3-5)] obtain r s2 where
      ask: "query_ask E (wait_timing W) (ask_nonce W) (vpn_active W) (client W) d p s1 = Some (r, s2)" by blast
    have "hist s2 = hist s" using query_ask_hist [OF ask] front(2) by simp
    moreover have "(\<exists>x s'. query_back E (others_push W) (store_time W) d k p r s2 = Some (x, s')) \<longleftrightarrow>
        (\<forall>reply e. r = Inr reply \<longrightarrow> history_entry E d reply = Some (Some e) \<longrightarrow>
          (\<exists>i. has_room (found_by (others_push W) (hist s2) i)))"
      using f Ask ask assms(6) by (intro query_back_returns_iff [OF front(1)]) blast
    ultimately show ?thesis using f Ask ask by (simp add: resolve_query_def)
  qed
qed

text \<open>An answer with an address comes back while the queue is full: the call returns when another task takes an
  entry out before the third attempt, and never when no task does.\<close>

definition demo_address_reply :: bytes where
  "demo_address_reply = [0, 7, 0x81, 0x80, 0, 1, 0, 1, 0, 0, 0, 0] @ drop 12 demo_query @
     [0xC0, 12, 0, 1, 0, 1, 0, 0, 0, 60, 0, 4, 10, 0, 0, 1]"

definition demo_full_state :: "((cache_key, cache_entry) recency, nat, u8) relay_state" where
  "demo_full_state = demo_state\<lparr>hist := \<lparr>queue = replicate 100 ([98], [[50]]), flush_task = Collecting [], hist_file = None\<rparr>\<rparr>"

theorem resolve_query_returns_witness:
  "(\<exists>x s'. resolve_query (demo_server demo_address_reply) empty_trie
      ((demo_run InTime)\<lparr>others_push := \<lambda>i h. if i = 2 then h\<lparr>queue := tl (queue h)\<rparr> else h\<rparr>) demo_query demo_full_state = Some (x, s')) \<and>
   resolve_query (demo_server demo_address_reply) empty_trie (demo_run InTime) demo_query demo_full_state = None"
proof -
  let ?E = "demo_server demo_address_reply" and ?s = demo_full_state
  have front: "query_front ?E empty_trie 0 demo_query ?s = Some (Ask (lit ''a.b'') demo_key, ?s)"
    using demo_front_hist by (simp add: demo_full_state_def)
  have ask: "query_ask ?E InTime (replicate 12 0) False (V6 []) (lit ''a.b'') demo_query ?s = Some (Inr demo_address_reply, ?s)"
    using demo_ask_hist by (simp add: demo_full_state_def)
  have ttl: "min_answer_ttl (\<lambda>s. s) demo_address_reply \<noteq> None" by code_simp
  have "parse_a_records demo_address_reply = Some [(10, 0, 0, 1)]" by code_simp
  then have entry: "history_entry ?E (lit ''a.b'') demo_address_reply = Some (Some (lit ''a.b'', [show_ipv4 (10, 0, 0, 1)]))"
    by (simp add: history_entry_def accepted_def)
  have fit: "fit ?s" by (simp add: fit_def demo_full_state_def demo_state_def)
  have cipher: "aead_contract (cipher (relay_crates ?E))" by (simp add: demo_env_def xor.aead_contract_axioms)
  have iff: "(\<exists>x s'. resolve_query ?E empty_trie W demo_query ?s = Some (x, s')) \<longleftrightarrow>
      (\<exists>i. has_room (found_by (others_push W) (hist ?s) i))"
    if "lookup_time W = 0" "wait_timing W = InTime" "ask_nonce W = replicate 12 0" "vpn_active W = False" "client W = V6 []" for W
  proof -
    have "min_answer_ttl (lower ?E) reply \<noteq> None"
      if "query_front ?E empty_trie (lookup_time W) demo_query ?s = Some (Ask d k, s1)"
        "query_ask ?E (wait_timing W) (ask_nonce W) (vpn_active W) (client W) d demo_query s1 = Some (Inr reply, s2)" for d k s1 reply s2
      using that ttl by (auto simp: \<open>lookup_time W = 0\<close> \<open>wait_timing W = InTime\<close> \<open>ask_nonce W = replicate 12 0\<close>
        \<open>vpn_active W = False\<close> \<open>client W = V6 []\<close> front ask)
    from resolve_query_returns [where E = ?E and p = demo_query and trie = empty_trie and W = W, OF _ fit cipher _ _ this]
    show ?thesis by (simp add: that front ask entry demo_parse demo_length)
  qed
  have "has_room (found_by (\<lambda>i h. if i = 2 then h\<lparr>queue := tl (queue h)\<rparr> else h) (hist ?s) 2)"
    by (simp add: demo_full_state_def has_room_def CAP_def eval_nat_numeral try_spawn_flush_def)
  moreover have "queue (found_by (\<lambda>_ h. h) (hist ?s) i) = queue (hist ?s)" for i by (induction i) simp_all
  then have "\<not> has_room (found_by (\<lambda>_ h. h) (hist ?s) i)" for i
    by (simp add: has_room_def CAP_def demo_full_state_def)
  ultimately show ?thesis
    using iff [of "(demo_run InTime)\<lparr>others_push := \<lambda>i h. if i = 2 then h\<lparr>queue := tl (queue h)\<rparr> else h\<rparr>"] iff [of "demo_run InTime"]
    by (cases "resolve_query ?E empty_trie (demo_run InTime) demo_query ?s") auto
qed

text \<open>A dropped name gets NXDOMAIN and a redirected one the crafted reply, at once: nothing is sent
  to a resolver or a relay, and the only thing that changes is the counter.\<close>

theorem ruled_names_stay_local:
  assumes "12 \<le> length p" "parse_domain (lower E) p 12 = Some (Some (d, qe))"
  shows "(check_rules (lower E) d trie = RuleDrop \<longrightarrow>
      resolve_query E trie W p s = Some (Some (p[2 := 0x81, 3 := 0x83]), incr_drop s))
    \<and> (\<forall>ips r. check_rules (lower E) d trie = RuleRedirect ips \<longrightarrow>
      craft_redirect_response p qe ips = Some r \<longrightarrow>
      resolve_query E trie W p s = Some (r, if r = None then s else incr_redirect s))"
  by (auto simp: resolve_query_def query_front_eq [OF assms] split: option.splits)

theorem ruled_names_stay_local_witness:
  "resolve_query (demo_server demo_reply) (insert_drop (\<lambda>s. s) (lit ''b'') empty_trie) (demo_run InTime) demo_query demo_state =
     Some (Some (demo_query[2 := 0x81, 3 := 0x83]), incr_drop demo_state)"
proof -
  have "12 \<le> length demo_query" "parse_domain (lower (demo_server demo_reply)) demo_query 12 = Some (Some (lit ''a.b'', 17))"
    by (simp_all add: demo_length demo_parse)
  moreover have "check_rules (\<lambda>s. s) (lit ''a.b'') (insert_drop (\<lambda>s. s) (lit ''b'') empty_trie) = RuleDrop" by code_simp
  ultimately show ?thesis using ruled_names_stay_local by fastforce
qed

text \<open>Every reply of at least two bytes carries the transaction ID of the query it answers, whether
  it is crafted, comes from the cache or from a resolver or relay.\<close>

theorem reply_keeps_txid:
  assumes "resolve_query E trie W p s = Some (Some r, s')" "2 \<le> length r"
  shows "take 2 r = take 2 p"
  using assms(1)
proof (rule resolve_queryE)
  assume "query_front E trie (lookup_time W) p s = Some (Done (Some r), s')"
  then show ?thesis
  proof (rule query_front_Done)
    fix d qe ips
    assume "12 \<le> length p" "parse_domain (lower E) p 12 = Some (Some (d, qe))"
      "craft_redirect_response p qe ips = Some (Some r)"
    then show ?thesis using redirect_take2 parse_domain_end by blast
  qed (use assms(2) take2_txid in auto)
next
  fix d k s1 res s2
  assume front: "query_front E trie (lookup_time W) p s = Some (Ask d k, s1)"
    and bk: "query_back E (others_push W) (store_time W) d k p res s2 = Some (Some r, s')"
  have "12 \<le> length p" using front by (rule query_front_Ask)
  with bk show ?thesis
    by (elim query_back_cases) (use assms(2) take2_txid in auto)
qed

theorem reply_keeps_txid_witness:
  "take 2 (with_txid demo_reply 0 7) = take 2 demo_query"
proof -
  have "2 \<le> length (with_txid demo_reply 0 7)" by (simp add: demo_reply_def)
  from reply_keeps_txid [OF demo_resolve this] show ?thesis .
qed

text \<open>The counters account for every reply: with metrics on, exactly one of the six outcome
  counters goes up by one when a reply is given, and none when the query is dropped in silence.\<close>

theorem metrics_account_for_replies:
  assumes "resolve_query E trie W p s = Some (x, s')" "metric_wrapper s = Some m"
  shows "\<exists>m'. metric_wrapper s' = Some m' \<and> total_req m' = total_req m
    \<and> answered m' = answered m + (if x = None then 0 else 1)"
  using assms(1)
proof (rule resolve_queryE)
  assume front: "query_front E trie (lookup_time W) p s = Some (Done x, s')"
  show ?thesis
  proof (cases x)
    case None
    with front query_front_Done_None assms(2) show ?thesis by fastforce
  next
    case (Some r)
    with front have "query_front E trie (lookup_time W) p s = Some (Done (Some r), s')" by simp
    then show ?thesis
      by (rule query_front_Done) (use assms(2) Some in \<open>auto simp: incr_def answered_def\<close>)
  qed
next
  fix d k s1 res s2
  assume front: "query_front E trie (lookup_time W) p s = Some (Ask d k, s1)"
    and ask: "query_ask E (wait_timing W) (ask_nonce W) (vpn_active W) (client W) d p s1 = Some (res, s2)"
    and bk: "query_back E (others_push W) (store_time W) d k p res s2 = Some (x, s')"
  have len: "12 \<le> length p" and "metric_wrapper s1 = Some m"
    using front assms(2) by (auto elim: query_front_Ask)
  then have m: "metric_wrapper s2 = Some m" using query_ask_metrics [OF ask] by simp
  show ?thesis
    by (rule query_back_cases [OF bk len]) (use m in \<open>auto simp: incr_def answered_def\<close>)
qed

theorem metrics_account_for_replies_witness:
  "\<exists>m'. metric_wrapper demo_state_after = Some m' \<and> total_req m' = 1 \<and> answered m' = 1"
proof -
  have "metric_wrapper demo_state = Some \<lparr>total_req = 1, resolved_count = 0, failed_count = 0,
     timeout_count = 0, redirect_count = 0, drop_count = 0, cached_count = 0, relay_resolved_count = 0\<rparr>"
    by (simp add: demo_state_def)
  from metrics_account_for_replies [OF demo_resolve this] show ?thesis by (simp add: answered_def)
qed

text \<open>C29: When the wait fails, the client gets SERVFAIL with its question, and the timeout counter or
  the failure counter says why; nothing is cached.\<close>

theorem failure_gives_servfail:
  assumes "query_front E trie (lookup_time W) p s = Some (Ask d k, s1)"
    and "query_ask E (wait_timing W) (ask_nonce W) (vpn_active W) (client W) d p s1 = Some (Inl e, s2)"
  shows "resolve_query E trie W p s = Some (Some (p[2 := 0x81, 3 := 0x82]),
      if e = ResolveTimeout then incr_timeout s2 else incr_failed s2) \<and> cache s2 = cache s1"
proof -
  have "12 \<le> length p" using assms(1) by (rule query_front_Ask)
  moreover have "cache s2 = cache s1"
    using assms(2) by (cases "relay_picker s1"; cases "wait_timing W")
      (auto simp: query_ask_def bind_eq_Some_conv split: if_splits)
  ultimately show ?thesis
    using assms by (simp add: resolve_query_def query_back_def query_settle_def push_history_def craft_servfail_eq)
qed

theorem failure_gives_servfail_witness:
  "resolve_query (demo_server demo_reply) empty_trie (demo_run (TooLate False)) demo_query demo_state =
     Some (Some (demo_query[2 := 0x81, 3 := 0x82]), incr_timeout demo_state)"
proof -
  let ?W = "demo_run (TooLate False)" and ?E = "demo_server demo_reply"
  have ask: "query_ask ?E (wait_timing ?W) (ask_nonce ?W) (vpn_active ?W) (client ?W) (lit ''a.b'') demo_query demo_state =
    Some (Inl ResolveTimeout, demo_state)"
    by (simp add: demo_ask)
  show ?thesis using failure_gives_servfail [OF demo_front ask] by simp
qed

text \<open>An answer from a resolver or a relay serves later queries for the same name and type from the
  cache until its lifetime has passed: they get the same bytes with their own transaction ID, and
  nothing is asked.\<close>

theorem answer_serves_later_queries:
  assumes "cache_backend (lru_ops E) recents cap"
    and "query_front E trie (lookup_time W) p s = Some (Ask d k, s1)"
    and "query_ask E (wait_timing W) (ask_nonce W) (vpn_active W) (client W) d p s1 = Some (Inr reply, s2)"
    and "resolve_query E trie W p s = Some (x, s3)" "cache_ttl (lower E) reply = Some ttl"
    and "12 \<le> length p'" "parse_domain (lower E) p' 12 = Some (Some (d, qe'))" "qe' + 2 \<le> length p'"
    and "question_key p' d qe' = k" "lookup_time W' < store_time W + ttl"
  shows "\<exists>s4. resolve_query E trie W' p' s3 =
    Some (Some (with_txid (stored_packet reply) (p' ! 0) (p' ! 1)), s4)"
proof -
  have len: "12 \<le> length p" and rule: "check_rules (lower E) d trie = RuleNone"
    using assms(2) by (auto elim: query_front_Ask)
  have bk: "query_back E (others_push W) (store_time W) d k p (Inr reply) s2 = Some (x, s3)"
    using assms(2,3,4) by (simp add: resolve_query_def)
  have store: "cache_store (lru_ops E) (lower E) (store_time W) k reply (cache s2) = Some (cache s3)"
    by (rule query_back_cases [OF bk len]) auto
  have "fst (cache_lookup (lru_ops E) (lookup_time W') k (cache s3)) = Some (stored_packet reply)"
    using cache_backend.hit_until_expiry [OF assms(1) store assms(5)] assms(10) by simp
  then obtain c where "cache_lookup (lru_ops E) (lookup_time W') k (cache s3) = (Some (stored_packet reply), c)"
    by (metis prod.collapse)
  then show ?thesis
    using rule assms(8,9) by (simp add: resolve_query_def query_front_eq [OF assms(6,7)])
qed

theorem answer_serves_later_queries_witness:
  "\<exists>s4. resolve_query (demo_server demo_reply) empty_trie (demo_run InTime) demo_query demo_state_after =
     Some (Some (with_txid (stored_packet demo_reply) (demo_query ! 0) (demo_query ! 1)), s4)"
proof -
  let ?W = "demo_run InTime" and ?E = "demo_server demo_reply"
  have ask: "query_ask ?E (wait_timing ?W) (ask_nonce ?W) (vpn_active ?W) (client ?W) (lit ''a.b'') demo_query demo_state =
    Some (Inr demo_reply, demo_state)"
    by (simp add: demo_ask)
  have backend: "cache_backend (lru_ops ?E) snd (\<lambda>c. Suc (fst c))"
    by (simp add: list_cache.cache_backend_axioms)
  show ?thesis
    by (rule answer_serves_later_queries [OF backend demo_front ask demo_resolve, of 60000000000 _ 17])
      (simp_all add: demo_ttl demo_length demo_parse demo_question)
qed

text \<open>C40: A reply whose TTLs cannot be read, because its name is a pointer loop, is the end of the
  process: one answer of an upstream resolver stops the server.\<close>

theorem hostile_reply_aborts:
  assumes "query_front E trie (lookup_time W) p s = Some (Ask d k, s1)"
    and "query_ask E (wait_timing W) (ask_nonce W) (vpn_active W) (client W) d p s1 = Some (Inr reply, s2)"
    and "12 \<le> length reply" "be16 (reply ! 6) (reply ! 7) \<noteq> 0" "parse_domain (lower E) reply 12 = None"
  shows "resolve_query E trie W p s = None"
proof -
  have "min_answer_ttl (lower E) reply = None"
    using assms(3-5) by (simp add: min_answer_ttl_def run_simps)
  then have "cache_store (lru_ops E) (lower E) now k reply c = None" for now c
    by (simp add: cache_store_def cache_ttl_def)
  with assms(1,2) show ?thesis by (simp add: resolve_query_def query_back_def query_settle_def)
qed

text \<open>A reply that announces one answer and whose question name points at itself.\<close>

definition loop_reply :: bytes where
  "loop_reply = [0, 7, 0x81, 0x80, 0, 1, 0, 1, 0, 0, 0, 0, 0xC0, 12]"

theorem hostile_reply_aborts_witness:
  "resolve_query (demo_server loop_reply) empty_trie (demo_run InTime) demo_query demo_state = None"
proof -
  let ?W = "demo_run InTime" and ?E = "demo_server loop_reply"
  have ask: "query_ask ?E (wait_timing ?W) (ask_nonce ?W) (vpn_active ?W) (client ?W) (lit ''a.b'') demo_query demo_state =
    Some (Inr loop_reply, demo_state)"
    by (simp add: demo_ask)
  have "name_next loop_reply 12 = Some 12" by code_simp
  then have "name_walk loop_reply k 12 = Some 12" for k by (induction k) auto
  then have "name_walk loop_reply (Suc (length loop_reply)) 12 \<noteq> None" by (simp only: option.distinct not_False_eq_True)
  then have "parse_domain (lower ?E) loop_reply 12 = None"
    using parse_name_returns_iff [of "\<lambda>s. s" loop_reply 12 "[]"]
    by (cases "parse_domain (\<lambda>s. s) loop_reply 12") (auto simp: parse_domain_def)
  moreover have "be16 (loop_reply ! 6) (loop_reply ! 7) \<noteq> 0" by code_simp
  moreover have "12 \<le> length loop_reply" by (simp add: loop_reply_def)
  ultimately show ?thesis using hostile_reply_aborts [OF demo_front ask] by blast
qed

end
