(* ===== verification/Proxy_Handler.thy ===== *)
theory Proxy_Handler
  imports Query_Handler
begin

text \<open>
  The proxy resolver (\<open>resolver_proxy/src/handler.rs\<close>): reading its targets, the order in which they
  are tried, forwarding a query over plain or obfuscated UDP, and answering one query.

  The UDP exchange is that of \<open>net\<close>, with the time limit the code passes (\<open>RESOLVE_TIMEOUT\<close>);
  \<open>to_socket_addrs\<close> is the parameter \<open>lookup_addr\<close>.
\<close>

section \<open>Targets\<close>

datatype transport_mode = Plain | UdpObfs

record proxy_target =
  pt_name :: rstr
  pt_mode :: transport_mode
  pt_address :: rstr
  pt_shared_key :: "rstr option"

record 'k resolved_target =
  rt_name :: rstr
  rt_mode :: transport_mode
  rt_addr :: socket_addr
  rt_key :: "'k option"

datatype proxy_strategy = Ordered | RoundRobin

definition resolve_target ::
  "(rstr \<Rightarrow> socket_addr list option) \<Rightarrow> (rstr \<Rightarrow> obfs_error + 'k) \<Rightarrow> proxy_target \<Rightarrow> error + 'k resolved_target" where
  "resolve_target lookup_addr from_base64 t =
     (case lookup_addr (pt_address t) of
        None \<Rightarrow> Inl Config
      | Some [] \<Rightarrow> Inl Config
      | Some (addr # _) \<Rightarrow>
          try_then (case pt_mode t of
              UdpObfs \<Rightarrow>
                (case pt_shared_key t of
                   None \<Rightarrow> Inl Config
                 | Some k \<Rightarrow> (case from_base64 k of Inl _ \<Rightarrow> Inl Config | Inr key \<Rightarrow> Inr (Some key)))
            | Plain \<Rightarrow> Inr None)
            (\<lambda>key. Inr \<lparr>rt_name = pt_name t, rt_mode = pt_mode t, rt_addr = addr, rt_key = key\<rparr>))"

text \<open>Collecting into a \<open>Result\<close> stops at the first error.\<close>

fun resolve_targets ::
  "(rstr \<Rightarrow> socket_addr list option) \<Rightarrow> (rstr \<Rightarrow> obfs_error + 'k) \<Rightarrow> proxy_target list \<Rightarrow> error + 'k resolved_target list" where
  "resolve_targets lookup_addr from_base64 [] = Inr []"
| "resolve_targets lookup_addr from_base64 (t # ts) =
     try_then (resolve_target lookup_addr from_base64 t) (\<lambda>r.
     try_then (resolve_targets lookup_addr from_base64 ts) (\<lambda>rs. Inr (r # rs)))"

section \<open>The order of trying\<close>

record 'k target_picker =
  targets :: "'k resolved_target list"
  strategy :: proxy_strategy
  cursor :: u64

definition target_picker_new :: "'k resolved_target list \<Rightarrow> proxy_strategy \<Rightarrow> error + 'k target_picker" where
  "target_picker_new ts strat =
     (if ts = [] then Inl Config else Inr \<lparr>targets = ts, strategy = strat, cursor = 0\<rparr>)"

text \<open>The index \<open>start\<close>; \<open>%\<close> panics when there is no target.\<close>

definition start_ticket :: "'k target_picker \<Rightarrow> (nat \<times> 'k target_picker) run" where
  "start_ticket p =
     (if targets p = [] then None
      else Some (unat (cursor p) mod length (targets p), p\<lparr>cursor := cursor p + 1\<rparr>))"

definition try_order :: "'k target_picker \<Rightarrow> ('k resolved_target list \<times> 'k target_picker) run" where
  "try_order p =
     (case strategy p of
        Ordered \<Rightarrow> Some (targets p, p)
      | RoundRobin \<Rightarrow> do {
          (start, p) \<leftarrow> start_ticket p;
          Some (drop start (targets p) @ take start (targets p), p) })"

interpretation target_rotation: rotation "\<lambda>p. length (targets p)" cursor start_ticket
  by unfold_locales (simp add: start_ticket_def)

section \<open>Forwarding\<close>

definition send_plain :: "'conn net \<Rightarrow> socket_addr \<Rightarrow> bytes \<Rightarrow> error + bytes" where
  "send_plain net addr query =
     (case udp_exchange net addr query of
        SocketError \<Rightarrow> Inl Io
      | NoReply \<Rightarrow> Inl ResolveTimeout
      | Received d \<Rightarrow> Inr (take 4096 d))"

text \<open>The text of \<open>InvalidResolver\<close> also names the address.\<close>

definition undecodable :: error where
  "undecodable = InvalidResolver (lit ''undecodable obfs reply'')"

definition send_obfs ::
  "'conn net \<Rightarrow> 'k aead \<Rightarrow> socket_addr \<Rightarrow> 'k \<Rightarrow> obfs_random \<Rightarrow> bytes \<Rightarrow> (error + bytes) run" where
  "send_obfs net A addr key r query = do {
     encoded \<leftarrow> obfs_encode A key r query;
     (case udp_exchange net addr encoded of
        SocketError \<Rightarrow> Some (Inl Io)
      | NoReply \<Rightarrow> Some (Inl ResolveTimeout)
      | Received d \<Rightarrow> do {
          reply \<leftarrow> obfs_decode A key (take 4096 d);
          Some (case reply of None \<Rightarrow> Inl undecodable | Some q \<Rightarrow> Inr q) }) }"

definition try_target ::
  "'conn net \<Rightarrow> 'k aead \<Rightarrow> obfs_random \<Rightarrow> bytes \<Rightarrow> 'k resolved_target \<Rightarrow> (error + bytes) run" where
  "try_target net A r query target =
     (case rt_mode target of
        Plain \<Rightarrow> Some (send_plain net (rt_addr target) query)
      | UdpObfs \<Rightarrow> do {
          key \<leftarrow> rt_key target; \<comment> \<open>\<open>expect\<close> panics without a key\<close>
          send_obfs net A (rt_addr target) key r query })"

text \<open>The loop over the targets, with \<open>last_err\<close>; \<open>rnd i\<close> are the random values of attempt \<open>i\<close>.\<close>

fun forward_loop ::
  "'conn net \<Rightarrow> 'k aead \<Rightarrow> (nat \<Rightarrow> obfs_random) \<Rightarrow> bytes \<Rightarrow> error \<Rightarrow> nat \<Rightarrow> 'k resolved_target list \<Rightarrow> (error + bytes) run" where
  "forward_loop net A rnd query last_err i [] = Some (Inl last_err)"
| "forward_loop net A rnd query last_err i (target # ts) = do {
     result \<leftarrow> try_target net A (rnd i) query target;
     (case result of
        Inr reply \<Rightarrow> Some (Inr reply)
      | Inl err \<Rightarrow> forward_loop net A rnd query err (i + 1) ts) }"

definition forward_query ::
  "'conn net \<Rightarrow> 'k aead \<Rightarrow> (nat \<Rightarrow> obfs_random) \<Rightarrow> bytes \<Rightarrow> 'k target_picker \<Rightarrow> ((error + bytes) \<times> 'k target_picker) run" where
  "forward_query net A rnd query picker = do {
     (ts, picker) \<leftarrow> try_order picker;
     r \<leftarrow> forward_loop net A rnd query NoHealthyResolvers 0 ts;
     Some (r, picker) }"

section \<open>One query\<close>

record ('c, 'k) proxy_state =
  proxy_cache :: 'c
  proxy_metrics :: "metrics option"
  target_picker :: "'k target_picker"

record ('c, 'conn, 'k) proxy_server =
  proxy_lower :: "rstr \<Rightarrow> rstr"
  proxy_lru :: "'c cache_ops"
  proxy_net :: "'conn net"
  proxy_cipher :: "'k aead"

definition proxy_incr :: "(metrics \<Rightarrow> metrics) \<Rightarrow> ('c, 'k) proxy_state \<Rightarrow> ('c, 'k) proxy_state" where
  "proxy_incr f s = s\<lparr>proxy_metrics := map_option f (proxy_metrics s)\<rparr>"

text \<open>The datagrams sent to the client, and the state. On failure the SERVFAIL is crafted and
  dropped, as in the code.\<close>

definition proxy_handle_query ::
  "('c, 'conn, 'k) proxy_server \<Rightarrow> domain_trie \<Rightarrow> nat \<Rightarrow> nat \<Rightarrow> (nat \<Rightarrow> obfs_random) \<Rightarrow> bytes \<Rightarrow>
     ('c, 'k) proxy_state \<Rightarrow> (bytes list \<times> ('c, 'k) proxy_state) run" where
  "proxy_handle_query E rule_trie t_lookup t_store rnd payload s =
     (if length payload < 12 then Some ([], s)
      else do {
        parsed \<leftarrow> parse_domain (proxy_lower E) payload 12;
        case parsed of
          None \<Rightarrow> Some ([], s)
        | Some (domain, qname_end) \<Rightarrow>
            (case check_rules (proxy_lower E) domain rule_trie of
               RuleDrop \<Rightarrow> do {
                 resp \<leftarrow> craft_nxdomain_response payload;
                 Some (case resp of None \<Rightarrow> ([], s)
                   | Some r \<Rightarrow> ([r], proxy_incr (\<lambda>m. m\<lparr>drop_count := drop_count m + 1\<rparr>) s)) }
             | RuleRedirect ips \<Rightarrow> do {
                 resp \<leftarrow> craft_redirect_response payload qname_end ips;
                 Some (case resp of None \<Rightarrow> ([], s)
                   | Some r \<Rightarrow> ([r], proxy_incr (\<lambda>m. m\<lparr>redirect_count := redirect_count m + 1\<rparr>) s)) }
             | RuleNone \<Rightarrow> do {
                 key \<leftarrow> cache_key_from_query (proxy_lower E) payload;
                 case key of
                   None \<Rightarrow> Some ([], s)
                 | Some cache_key \<Rightarrow> do {
                     t0 \<leftarrow> rd payload 0;
                     t1 \<leftarrow> rd payload 1;
                     (case cache_lookup (proxy_lru E) t_lookup cache_key (proxy_cache s) of
                        (Some hit, c) \<Rightarrow>
                          Some ([with_txid hit t0 t1],
                            proxy_incr (\<lambda>m. m\<lparr>cached_count := cached_count m + 1\<rparr>) (s\<lparr>proxy_cache := c\<rparr>))
                      | (None, c) \<Rightarrow> do {
                          (r, picker) \<leftarrow> forward_query (proxy_net E) (proxy_cipher E) rnd payload (target_picker s);
                          let s = s\<lparr>proxy_cache := c, target_picker := picker\<rparr>;
                          (case r of
                             Inr reply_buf \<Rightarrow> do {
                               c \<leftarrow> cache_store (proxy_lru E) (proxy_lower E) t_store cache_key reply_buf (proxy_cache s);
                               Some ([with_txid reply_buf t0 t1],
                                 proxy_incr (\<lambda>m. m\<lparr>resolved_count := resolved_count m + 1\<rparr>) (s\<lparr>proxy_cache := c\<rparr>)) }
                           | Inl err \<Rightarrow> do {
                               _ \<leftarrow> craft_servfail_response payload;
                               Some ([], proxy_incr (\<lambda>m. m\<lparr>failed_count := failed_count m + 1\<rparr>) s) }) }) } }) })"

section \<open>Forwarding, step by step\<close>

text \<open>What start-up guarantees: an obfuscated target has a key.\<close>

definition keyed :: "'k resolved_target \<Rightarrow> bool" where
  "keyed t \<longleftrightarrow> (rt_mode t = UdpObfs \<longrightarrow> rt_key t \<noteq> None)"

lemma resolve_target_keyed: "resolve_target lookup_addr b64 t = Inr r \<Longrightarrow> keyed r \<and> rt_name r = pt_name t \<and> rt_mode r = pt_mode t"
  by (auto simp: resolve_target_def keyed_def try_then_Inr split: option.splits list.splits transport_mode.splits sum.splits)

lemma resolve_targets_keyed:
  "resolve_targets lookup_addr b64 ts = Inr rs \<Longrightarrow>
     list_all keyed rs \<and> list_all2 (\<lambda>t r. rt_name r = pt_name t \<and> rt_mode r = pt_mode t) ts rs"
  by (induction ts arbitrary: rs) (auto simp: try_then_Inr dest: resolve_target_keyed)

lemma try_target_returns:
  assumes "aead_contract A" "keyed t" "obfs_random_ok r" "length q < 65536"
  shows "\<exists>x. try_target net A r q t = Some x"
proof (cases "rt_mode t")
  case UdpObfs
  then obtain k where k: "rt_key t = Some k" using assms(2) by (auto simp: keyed_def)
  obtain d where "obfs_encode A k r q = Some d"
    using aead_contract.obfs_encode_total [OF assms(1,3,4)] by blast
  moreover have "\<exists>x. obfs_decode A k b = Some x" for b by (rule aead_contract.obfs_decode_total [OF assms(1)])
  then obtain dec where "obfs_decode A k b = Some (dec b)" for b by metis
  ultimately have "\<exists>x. send_obfs net A (rt_addr t) k r q = Some x"
    by (cases "udp_exchange net (rt_addr t) d") (simp_all add: send_obfs_def)
  then show ?thesis using UdpObfs k by (simp add: try_target_def)
qed (simp add: try_target_def)

lemma forward_loop_returns:
  assumes "aead_contract A" "list_all keyed ts" "\<And>i. obfs_random_ok (rnd i)" "length q < 65536"
  shows "\<exists>x. forward_loop net A rnd q e i ts = Some x"
  using assms(2)
proof (induction ts arbitrary: e i)
  case (Cons t ts)
  have "keyed t" using Cons.prems by simp
  then obtain x where "try_target net A (rnd i) q t = Some x"
    using try_target_returns [OF assms(1) _ assms(3,4)] by blast
  with Cons show ?case by (auto split: sum.split)
qed simp

lemma forward_loop_failed:
  assumes "\<And>j. j < length ts \<Longrightarrow> \<exists>e. try_target net A (rnd (i + j)) q (ts ! j) = Some (Inl e)"
  shows "\<exists>e'. forward_loop net A rnd q e i ts = Some (Inl e')"
  using assms
proof (induction ts arbitrary: e i)
  case (Cons t ts)
  obtain e1 where e1: "try_target net A (rnd i) q t = Some (Inl e1)" using Cons.prems [of 0] by auto
  have "\<exists>e'. forward_loop net A rnd q e1 (i + 1) ts = Some (Inl e')"
    using Cons.prems [of "Suc _"] by (intro Cons.IH) simp
  with e1 show ?case by simp
qed simp

lemma forward_loop_first:
  assumes "\<And>j. j < length before \<Longrightarrow> \<exists>e. try_target net A (rnd (i + j)) q (before ! j) = Some (Inl e)"
    and "try_target net A (rnd (i + length before)) q t = Some (Inr r)"
  shows "forward_loop net A rnd q e i (before @ t # after) = Some (Inr r)"
  using assms
proof (induction before arbitrary: e i)
  case (Cons b before)
  obtain e1 where e1: "try_target net A (rnd i) q b = Some (Inl e1)" using Cons.prems(1) [of 0] by auto
  have "forward_loop net A rnd q e1 (i + 1) (before @ t # after) = Some (Inr r)"
    using Cons.prems(1) [of "Suc _"] Cons.prems(2) by (intro Cons.IH) simp_all
  with e1 show ?case by simp
qed simp

lemma try_order_mset: "try_order p = Some (ts, p') \<Longrightarrow> mset ts = mset (targets p) \<and> targets p' = targets p \<and> strategy p' = strategy p"
proof (cases "strategy p")
  case RoundRobin
  assume "try_order p = Some (ts, p')"
  then obtain start where st: "start_ticket p = Some (start, p')" "ts = drop start (targets p') @ take start (targets p')"
    using RoundRobin by (auto simp: try_order_def bind_eq_Some_conv)
  then have "targets p' = targets p" "strategy p' = strategy p"
    by (auto simp: start_ticket_def split: if_splits)
  moreover have "mset (drop start (targets p)) + mset (take start (targets p)) = mset (targets p)"
    by (metis append_take_drop_id mset_append union_commute)
  ultimately show ?thesis using st by simp
qed (auto simp: try_order_def)


text \<open>What one pass over the targets gives: the first reply, and why the others failed.\<close>

lemma forward_loop_outcome:
  assumes "\<And>j. j < length ts \<Longrightarrow> \<exists>x. try_target net A (rnd (i + j)) q (ts ! j) = Some x"
  shows "\<exists>r. forward_loop net A rnd q e i ts = Some r \<and>
    (case r of
       Inr reply \<Rightarrow> \<exists>j < length ts. try_target net A (rnd (i + j)) q (ts ! j) = Some (Inr reply) \<and>
         (\<forall>l < j. \<exists>e. try_target net A (rnd (i + l)) q (ts ! l) = Some (Inl e))
     | Inl err \<Rightarrow> (\<forall>l < length ts. \<exists>e. try_target net A (rnd (i + l)) q (ts ! l) = Some (Inl e)) \<and>
         (if ts = [] then err = e else try_target net A (rnd (i + (length ts - 1))) q (last ts) = Some (Inl err)))"
  using assms
proof (induction ts arbitrary: e i)
  case (Cons t ts)
  obtain x where x: "try_target net A (rnd i) q t = Some x" using Cons.prems [of 0] by auto
  show ?case
  proof (cases x)
    case (Inr reply)
    then show ?thesis using x by (auto intro: exI [of _ 0])
  next
    case (Inl e1)
    have "\<And>j. j < length ts \<Longrightarrow> \<exists>x. try_target net A (rnd (Suc i + j)) q (ts ! j) = Some x"
      using Cons.prems [of "Suc _"] by simp
    from Cons.IH [of "Suc i" e1, OF this] obtain r where r: "forward_loop net A rnd q e1 (Suc i) ts = Some r"
      and out: "case r of
         Inr reply \<Rightarrow> \<exists>j < length ts. try_target net A (rnd (Suc i + j)) q (ts ! j) = Some (Inr reply) \<and>
           (\<forall>l < j. \<exists>e. try_target net A (rnd (Suc i + l)) q (ts ! l) = Some (Inl e))
       | Inl err \<Rightarrow> (\<forall>l < length ts. \<exists>e. try_target net A (rnd (Suc i + l)) q (ts ! l) = Some (Inl e)) \<and>
           (if ts = [] then err = e1 else try_target net A (rnd (Suc i + (length ts - 1))) q (last ts) = Some (Inl err))"
      by blast
    have step: "forward_loop net A rnd q e i (t # ts) = Some r" using x Inl r by simp
    show ?thesis
    proof (cases r)
      case (Inr reply)
      with out obtain j where "j < length ts" "try_target net A (rnd (Suc i + j)) q (ts ! j) = Some (Inr reply)"
        "\<forall>l < j. \<exists>e. try_target net A (rnd (Suc i + l)) q (ts ! l) = Some (Inl e)" by auto
      then have "Suc j < length (t # ts) \<and> try_target net A (rnd (i + Suc j)) q ((t # ts) ! Suc j) = Some (Inr reply) \<and>
          (\<forall>l < Suc j. \<exists>e. try_target net A (rnd (i + l)) q ((t # ts) ! l) = Some (Inl e))"
        using x \<open>x = Inl e1\<close> by (simp add: All_less_Suc2)
      then show ?thesis using step Inr by auto
    next
      case (Inl err)
      then show ?thesis using step out x \<open>x = Inl e1\<close>
        by (cases ts) (auto simp: less_Suc_eq_0_disj)
    qed
  qed
qed simp

lemma try_order_returns: "targets p \<noteq> [] \<Longrightarrow> \<exists>ts p'. try_order p = Some (ts, p')"
  by (cases "strategy p") (simp_all add: try_order_def start_ticket_def)

text \<open>The first choice of as many consecutive queries as \<open>n\<close>.\<close>

fun first_targets :: "nat \<Rightarrow> 'k target_picker \<Rightarrow> 'k resolved_target list run" where
  "first_targets 0 p = Some []"
| "first_targets (Suc n) p = do { (ts, p) \<leftarrow> try_order p; rest \<leftarrow> first_targets n p; Some (hd ts # rest) }"

lemma first_targets_choices:
  assumes "targets p \<noteq> []" "strategy p = RoundRobin" "target_rotation.choices n p = Some is"
  shows "first_targets n p = Some (map (\<lambda>i. targets p ! i) is)"
  using assms
proof (induction n arbitrary: p "is")
  case (Suc n)
  then obtain i p' is' where t: "start_ticket p = Some (i, p')" "target_rotation.choices n p' = Some is'" "is = i # is'"
    by (auto simp: bind_eq_Some_conv)
  then have p': "targets p' = targets p" "strategy p' = strategy p" and i: "i < length (targets p)"
    using Suc.prems(1) by (auto simp: start_ticket_def split: if_splits)
  have "first_targets n p' = Some (map (\<lambda>i. targets p' ! i) is')"
    using Suc.IH [of p' is'] Suc.prems t p' by simp
  then show ?case
    using t p' i Suc.prems by (simp add: try_order_def hd_append hd_drop_conv_nth)
qed simp

text \<open>The handler on a query that must be forwarded.\<close>

lemma proxy_handle_ask:
  assumes "12 \<le> length p" "parse_domain (proxy_lower E) p 12 = Some (Some (d, qe))"
    and "check_rules (proxy_lower E) d trie = RuleNone" "qe + 2 \<le> length p"
    and "cache_lookup (proxy_lru E) t_l (question_key p d qe) (proxy_cache s) = (None, c)"
    and "forward_query (proxy_net E) (proxy_cipher E) rnd p (target_picker s) = Some (r, picker)"
  shows "proxy_handle_query E trie t_l t_s rnd p s =
    (case r of
       Inr reply \<Rightarrow> map_option (\<lambda>c. ([with_txid reply (p ! 0) (p ! 1)],
          proxy_incr (\<lambda>m. m\<lparr>resolved_count := resolved_count m + 1\<rparr>) (s\<lparr>target_picker := picker, proxy_cache := c\<rparr>)))
          (cache_store (proxy_lru E) (proxy_lower E) t_s (question_key p d qe) reply c)
     | Inl err \<Rightarrow> Some ([],
          proxy_incr (\<lambda>m. m\<lparr>failed_count := failed_count m + 1\<rparr>) (s\<lparr>proxy_cache := c, target_picker := picker\<rparr>)))"
proof -
  have map_bind: "Option.bind x (\<lambda>y. Some (f y)) = map_option f x" for x :: "'x option" and f :: "'x \<Rightarrow> 'y"
    by (cases x) simp_all
  have key: "cache_key_from_query (proxy_lower E) p = Some (Some (question_key p d qe))"
    using assms(2,4) by (simp add: cache_key_of_parse question_key_def)
  show ?thesis
    using assms(1-3,5,6) rd_header [OF assms(1)] key
    by (cases r) (simp_all add: proxy_handle_query_def craft_servfail_eq map_bind)
qed

lemma forward_query_silent:
  assumes "targets p \<noteq> []" "\<And>j t. t \<in> set (targets p) \<Longrightarrow> \<exists>e. try_target net A (rnd j) q t = Some (Inl e)"
  shows "\<exists>e p'. forward_query net A rnd q p = Some (Inl e, p')"
proof -
  obtain ts p' where t: "try_order p = Some (ts, p')" using try_order_returns [OF assms(1)] by blast
  then have "set ts = set (targets p)" by (metis try_order_mset set_mset_mset)
  then have "\<exists>e. try_target net A (rnd (0 + j)) q (ts ! j) = Some (Inl e)" if "j < length ts" for j
    using assms(2) that nth_mem by blast
  then obtain e where "forward_loop net A rnd q NoHealthyResolvers 0 ts = Some (Inl e)"
    using forward_loop_failed [of ts net A rnd 0 q NoHealthyResolvers] by blast
  with t show ?thesis by (simp add: forward_query_def)
qed

section \<open>A small proxy for the witnesses\<close>

definition demo_random :: "nat \<Rightarrow> obfs_random" where
  "demo_random i = \<lparr>pad_rand = of_nat i, pad_byte = of_nat, obfs_nonce = replicate 12 1\<rparr>"

definition demo_target :: "u8 resolved_target" where
  "demo_target = \<lparr>rt_name = lit ''r'', rt_mode = UdpObfs, rt_addr = SockV4 (10, 0, 0, 1) 5353, rt_key = Some 7\<rparr>"

definition demo_picker :: "u8 target_picker" where
  "demo_picker = \<lparr>targets = [demo_target], strategy = RoundRobin, cursor = 0\<rparr>"

definition demo_proxy :: "((cache_key, cache_entry) recency, nat, u8) proxy_server" where
  "demo_proxy = \<lparr>proxy_lower = (\<lambda>s. s), proxy_lru = list_lru, proxy_net = silent_net, proxy_cipher = xor_aead\<rparr>"

definition demo_proxy_state :: "((cache_key, cache_entry) recency, u8) proxy_state" where
  "demo_proxy_state = \<lparr>proxy_cache = (4095, []), proxy_metrics = metric_wrapper demo_state, target_picker = demo_picker\<rparr>"

lemma demo_random_ok: "obfs_random_ok (demo_random i)"
  by (simp add: obfs_random_ok_def demo_random_def)

lemma demo_target_silent:
  "length q < 65536 \<Longrightarrow> try_target silent_net xor_aead (demo_random i) q demo_target = Some (Inl ResolveTimeout)"
  using xor.obfs_encode_total [OF demo_random_ok [of i], of q 7]
  by (auto simp: try_target_def demo_target_def send_obfs_def silent_net_def)

lemma demo_resolve_targets:
  "resolve_targets (\<lambda>_. Some [SockV4 (10, 0, 0, 1) 5353]) (\<lambda>_. Inr 7)
     [\<lparr>pt_name = lit ''r'', pt_mode = UdpObfs, pt_address = lit ''10.0.0.1:5353'', pt_shared_key = Some (lit ''k'')\<rparr>]
   = Inr [demo_target]"
  by (simp add: resolve_target_def demo_target_def)

section \<open>Properties\<close>

text \<open>C17: With the targets that start-up accepts, forwarding always returns: it tries every target, in
  an order of its own, until one replies, and gives that reply; only when all failed it gives an
  error, that of the last one. A target that failed the queries before is tried again like the others: the README's
  \<open>health_check_interval\<close>, by which such a target is skipped, does not exist.\<close>

theorem forward_query_outcome:
  assumes "aead_contract A" "\<And>i. obfs_random_ok (rnd i)" "length q < 65536"
    and "resolve_targets look b64 conf = Inr rs" "target_picker_new rs strat = Inr p0"
    and "p = p0\<lparr>cursor := c\<rparr>"
  shows "\<exists>ts p' r. try_order p = Some (ts, p') \<and> mset ts = mset rs \<and> forward_query net A rnd q p = Some (r, p') \<and>
    (case r of
       Inr reply \<Rightarrow> \<exists>j < length ts. try_target net A (rnd j) q (ts ! j) = Some (Inr reply) \<and>
         (\<forall>l < j. \<exists>e. try_target net A (rnd l) q (ts ! l) = Some (Inl e))
     | Inl err \<Rightarrow> (\<forall>l < length ts. \<exists>e. try_target net A (rnd l) q (ts ! l) = Some (Inl e)) \<and>
         try_target net A (rnd (length ts - 1)) q (last ts) = Some (Inl err))"
proof -
  have p: "targets p = rs" "rs \<noteq> []" using assms(5,6) by (auto simp: target_picker_new_def split: if_splits)
  then obtain ts p' where t: "try_order p = Some (ts, p')" using try_order_returns by blast
  then have m: "mset ts = mset rs" using p try_order_mset by blast
  then have "ts \<noteq> []" "set ts = set rs" using p by (auto dest: mset_eq_setD)
  then have "\<exists>x. try_target net A (rnd (0 + j)) q (ts ! j) = Some x" if "j < length ts" for j
    using resolve_targets_keyed [OF assms(4)] that
    by (intro try_target_returns [OF assms(1) _ assms(2,3)]) (auto simp: list_all_iff)
  then obtain r where "forward_loop net A rnd q NoHealthyResolvers 0 ts = Some r" and
    "case r of
       Inr reply \<Rightarrow> \<exists>j < length ts. try_target net A (rnd j) q (ts ! j) = Some (Inr reply) \<and>
         (\<forall>l < j. \<exists>e. try_target net A (rnd l) q (ts ! l) = Some (Inl e))
     | Inl err \<Rightarrow> (\<forall>l < length ts. \<exists>e. try_target net A (rnd l) q (ts ! l) = Some (Inl e)) \<and>
         try_target net A (rnd (length ts - 1)) q (last ts) = Some (Inl err)"
    using forward_loop_outcome [of ts net A rnd 0 q NoHealthyResolvers,
        unfolded add_0_left if_not_P [OF \<open>ts \<noteq> []\<close>]] unfolding add_0_left by blast
  moreover from this(1) have "forward_query net A rnd q p = Some (r, p')" using t by (simp add: forward_query_def)
  ultimately show ?thesis using t m by blast
qed

theorem forward_query_outcome_witness:
  "forward_query silent_net xor_aead demo_random [1, 2, 3] demo_picker = Some (Inl ResolveTimeout, demo_picker\<lparr>cursor := 1\<rparr>)"
proof -
  let ?attempt = "\<lambda>j t. try_target silent_net xor_aead (demo_random j) [1, 2, 3] t"
  have new: "target_picker_new [demo_target] RoundRobin = Inr demo_picker"
    by (simp add: target_picker_new_def demo_picker_def)
  have q: "length [1, 2, 3 :: u8] < 65536" by simp
  have "demo_picker = demo_picker\<lparr>cursor := 0\<rparr>" by (simp add: demo_picker_def)
  from forward_query_outcome [where rnd = demo_random and net = silent_net,
      OF xor.aead_contract_axioms demo_random_ok q demo_resolve_targets new this]
  obtain ts p' r where t: "try_order demo_picker = Some (ts, p')" "mset ts = mset [demo_target]"
    and f: "forward_query silent_net xor_aead demo_random [1, 2, 3] demo_picker = Some (r, p')"
    and out: "case r of
       Inr reply \<Rightarrow> \<exists>j < length ts. ?attempt j (ts ! j) = Some (Inr reply) \<and> (\<forall>l < j. \<exists>e. ?attempt l (ts ! l) = Some (Inl e))
     | Inl err \<Rightarrow> (\<forall>l < length ts. \<exists>e. ?attempt l (ts ! l) = Some (Inl e)) \<and> ?attempt (length ts - 1) (last ts) = Some (Inl err)"
    by blast
  from t have "ts = [demo_target]" by simp
  with out have "r = Inl ResolveTimeout" by (cases r) (auto simp: demo_target_silent)
  with t f show ?thesis by (auto simp: try_order_def demo_picker_def start_ticket_def)
qed

text \<open>With the round-robin strategy, as many consecutive queries as there are targets give every
  target the first place once; with the ordered strategy the configured order is always used.\<close>

theorem try_order_fair:
  assumes "targets p \<noteq> []" "unat (cursor p) + length (targets p) < 2 ^ 64"
  shows "case strategy p of
      RoundRobin \<Rightarrow> \<exists>ts. first_targets (length (targets p)) p = Some ts \<and> mset ts = mset (targets p)
    | Ordered \<Rightarrow> try_order p = Some (targets p, p)"
proof (cases "strategy p")
  case RoundRobin
  obtain "is" where c: "target_rotation.choices (length (targets p)) p = Some is" "distinct is"
    "set is = {..<length (targets p)}"
    using target_rotation.choices_fair [of p] assms by auto
  then have "set is = set [0..<length (targets p)]" by (simp add: lessThan_atLeast0)
  then have "mset is = mset [0..<length (targets p)]"
    using set_eq_iff_mset_eq_distinct [OF c(2) distinct_upt] by blast
  then have "mset (map (\<lambda>i. targets p ! i) is) = mset (map (\<lambda>i. targets p ! i) [0..<length (targets p)])"
    by (metis mset_map)
  then show ?thesis
    using first_targets_choices [OF assms(1) RoundRobin c(1)] RoundRobin by (simp add: map_nth)
qed (simp add: try_order_def)

theorem try_order_fair_witness: "first_targets 1 demo_picker = Some [demo_target]"
proof -
  have "targets demo_picker \<noteq> []" "unat (cursor demo_picker) + length (targets demo_picker) < 2 ^ 64"
    by (simp_all add: demo_picker_def)
  from try_order_fair [OF this] show ?thesis by (auto simp: demo_picker_def)
qed

text \<open>When no target replies, the client gets nothing: the SERVFAIL that the handler crafts is
  not sent, and only the failure counter tells.\<close>

theorem proxy_failure_is_silent:
  assumes "12 \<le> length p" "parse_domain (proxy_lower E) p 12 = Some (Some (d, qe))"
    and "check_rules (proxy_lower E) d trie = RuleNone" "qe + 2 \<le> length p"
    and "cache_lookup (proxy_lru E) t_l (question_key p d qe) (proxy_cache s) = (None, c)"
    and "targets (target_picker s) \<noteq> []"
    and "\<And>j t. t \<in> set (targets (target_picker s)) \<Longrightarrow>
      \<exists>e. try_target (proxy_net E) (proxy_cipher E) (rnd j) p t = Some (Inl e)"
  shows "\<exists>s'. proxy_handle_query E trie t_l t_s rnd p s = Some ([], s')
    \<and> proxy_metrics s' = map_option (\<lambda>m. m\<lparr>failed_count := failed_count m + 1\<rparr>) (proxy_metrics s)
    \<and> craft_servfail_response p = Some (Some (p[2 := 0x81, 3 := 0x82]))"
proof -
  obtain e p' where "forward_query (proxy_net E) (proxy_cipher E) rnd p (target_picker s) = Some (Inl e, p')"
    using forward_query_silent [OF assms(6), of "proxy_net E" "proxy_cipher E" rnd p] assms(7) by blast
  from proxy_handle_ask [OF assms(1-5) this] show ?thesis
    using assms(1) by (simp add: craft_servfail_eq proxy_incr_def)
qed

theorem proxy_failure_is_silent_witness:
  "\<exists>s'. proxy_handle_query demo_proxy empty_trie 0 1 demo_random demo_query demo_proxy_state = Some ([], s')"
proof -
  have sel: "proxy_lower demo_proxy = (\<lambda>s. s)" "proxy_lru demo_proxy = list_lru" "proxy_net demo_proxy = silent_net"
    "proxy_cipher demo_proxy = xor_aead" "proxy_cache demo_proxy_state = (4095, [])"
    "targets (target_picker demo_proxy_state) = [demo_target]"
    by (simp_all add: demo_proxy_def demo_proxy_state_def demo_picker_def)
  have len: "12 \<le> length demo_query" "17 + 2 \<le> length demo_query" by (simp_all add: demo_length)
  have parse: "parse_domain (proxy_lower demo_proxy) demo_query 12 = Some (Some (lit ''a.b'', 17))"
    using demo_parse sel by simp
  have rules: "check_rules (proxy_lower demo_proxy) (lit ''a.b'') empty_trie = RuleNone"
    by (simp add: check_rules_def lookup_def trie.look_empty)
  have miss: "cache_lookup (proxy_lru demo_proxy) 0 (question_key demo_query (lit ''a.b'') 17) (proxy_cache demo_proxy_state)
      = (None, (4095, []))"
    by (simp add: sel cache_lookup_def)
  have ne: "targets (target_picker demo_proxy_state) \<noteq> []" by (simp add: sel)
  have fail: "\<exists>e. try_target (proxy_net demo_proxy) (proxy_cipher demo_proxy) (demo_random j) demo_query t = Some (Inl e)"
    if "t \<in> set (targets (target_picker demo_proxy_state))" for j t
    using that by (simp add: sel demo_target_silent demo_length)
  from proxy_failure_is_silent [where rnd = demo_random and t_s = 1, OF len(1) parse rules len(2) miss ne fail] show ?thesis by blast
qed

text \<open>What a handled query may leave behind: no datagram and at most a counted failure, or one reply
  under the transaction ID of the query and one counter of a success.\<close>

definition accounted :: "bytes \<Rightarrow> metrics \<Rightarrow> bytes list \<Rightarrow> ('c, 'k) proxy_state \<Rightarrow> bool" where
  "accounted p m out s' =
     ((out = [] \<and> (proxy_metrics s' = Some m \<or> proxy_metrics s' = Some (m\<lparr>failed_count := failed_count m + 1\<rparr>))) \<or>
      (\<exists>reply. out = [reply] \<and> (2 \<le> length reply \<longrightarrow> take 2 reply = take 2 p) \<and>
        (proxy_metrics s' = Some (m\<lparr>drop_count := drop_count m + 1\<rparr>) \<or>
         proxy_metrics s' = Some (m\<lparr>redirect_count := redirect_count m + 1\<rparr>) \<or>
         proxy_metrics s' = Some (m\<lparr>cached_count := cached_count m + 1\<rparr>) \<or>
         proxy_metrics s' = Some (m\<lparr>resolved_count := resolved_count m + 1\<rparr>))))"

lemma ruled_accounted:
  assumes run: "proxy_handle_query E trie t_l t_s rnd p s = Some (out, s')" and m: "proxy_metrics s = Some m"
    and d: "12 \<le> length p" "parse_domain (proxy_lower E) p 12 = Some (Some (d, qe))"
    and rule: "check_rules (proxy_lower E) d trie \<noteq> RuleNone"
  shows "accounted p m out s'"
proof (cases "check_rules (proxy_lower E) d trie")
  case RuleDrop
  then show ?thesis using run m d
    by (auto simp: accounted_def proxy_handle_query_def craft_nxdomain_eq proxy_incr_def take2_update)
next
  case (RuleRedirect ips)
  then obtain resp where "craft_redirect_response p qe ips = Some resp"
    and "(out, s') = (case resp of None \<Rightarrow> ([], s)
      | Some r \<Rightarrow> ([r], proxy_incr (\<lambda>m. m\<lparr>redirect_count := redirect_count m + 1\<rparr>) s))"
    using run d by (auto simp: proxy_handle_query_def bind_eq_Some_conv)
  then show ?thesis using m redirect_take2 [OF d(1) parse_domain_end [OF d(2)]]
    by (cases resp) (auto simp: accounted_def proxy_incr_def)
next
  case RuleNone
  then show ?thesis using rule by simp
qed

lemma unruled_accounted:
  assumes run: "proxy_handle_query E trie t_l t_s rnd p s = Some (out, s')" and m: "proxy_metrics s = Some m"
    and d: "12 \<le> length p" "parse_domain (proxy_lower E) p 12 = Some (Some (d, qe))"
    and rule: "check_rules (proxy_lower E) d trie = RuleNone" and q: "qe + 2 \<le> length p"
  shows "accounted p m out s'"
proof -
  obtain hit c where l: "cache_lookup (proxy_lru E) t_l (question_key p d qe) (proxy_cache s) = (hit, c)"
    by fastforce
  have key: "cache_key_from_query (proxy_lower E) p = Some (Some (question_key p d qe))"
    using q by (simp add: cache_key_of_parse [OF d(2)] question_key_def)
  show ?thesis
  proof (cases hit)
    case (Some h)
    have "out = [with_txid h (p ! 0) (p ! 1)]
        \<and> s' = proxy_incr (\<lambda>m. m\<lparr>cached_count := cached_count m + 1\<rparr>) (s\<lparr>proxy_cache := c\<rparr>)"
      using run d rule l Some key rd_header [OF d(1)] by (simp add: proxy_handle_query_def)
    then show ?thesis using m take2_txid [OF d(1), of h] by (auto simp: accounted_def proxy_incr_def)
  next
    case None
    then obtain r picker where
      fwd: "forward_query (proxy_net E) (proxy_cipher E) rnd p (target_picker s) = Some (r, picker)"
      using run d rule l key rd_header [OF d(1)]
      by (cases "forward_query (proxy_net E) (proxy_cipher E) rnd p (target_picker s)")
        (auto simp: proxy_handle_query_def)
    from proxy_handle_ask [OF d rule q l [unfolded None] fwd, of t_s, unfolded run, symmetric]
    show ?thesis
      using m take2_txid [OF d(1)] by (cases r) (auto simp: accounted_def proxy_incr_def)
  qed
qed

text \<open>The proxy sends at most one datagram per query, under the transaction ID of the query; the
  counters tell what happened: a datagram is counted as dropped, redirected, cached or resolved, and
  only a failed query without a datagram is counted.\<close>

theorem proxy_reply_accounted:
  assumes "proxy_handle_query E trie t_l t_s rnd p s = Some (out, s')" "proxy_metrics s = Some m"
  shows "(out = [] \<and> (proxy_metrics s' = Some m \<or> proxy_metrics s' = Some (m\<lparr>failed_count := failed_count m + 1\<rparr>))) \<or>
    (\<exists>reply. out = [reply] \<and> (2 \<le> length reply \<longrightarrow> take 2 reply = take 2 p) \<and>
      (proxy_metrics s' = Some (m\<lparr>drop_count := drop_count m + 1\<rparr>) \<or>
       proxy_metrics s' = Some (m\<lparr>redirect_count := redirect_count m + 1\<rparr>) \<or>
       proxy_metrics s' = Some (m\<lparr>cached_count := cached_count m + 1\<rparr>) \<or>
       proxy_metrics s' = Some (m\<lparr>resolved_count := resolved_count m + 1\<rparr>)))"
proof (cases "12 \<le> length p \<and> parse_domain (proxy_lower E) p 12 \<noteq> Some None")
  case False
  then have "proxy_handle_query E trie t_l t_s rnd p s = Some ([], s)" by (auto simp: proxy_handle_query_def)
  then show ?thesis using assms by simp
next
  case True
  then obtain d qe where d: "12 \<le> length p" "parse_domain (proxy_lower E) p 12 = Some (Some (d, qe))"
    using assms(1) by (auto simp: proxy_handle_query_def bind_eq_Some_conv)
  show ?thesis
  proof (cases "check_rules (proxy_lower E) d trie = RuleNone \<and> length p < qe + 2")
    case True
    then show ?thesis using assms d by (simp add: proxy_handle_query_def cache_key_of_parse [OF d(2)])
  next
    case False
    then have "accounted p m out s'"
      using ruled_accounted [OF assms d] unruled_accounted [OF assms d] by force
    then show ?thesis by (simp add: accounted_def)
  qed
qed

theorem proxy_reply_accounted_witness:
  "take 2 (demo_query[2 := 0x81, 3 := 0x83]) = take 2 demo_query
   \<and> proxy_handle_query demo_proxy (insert_drop (\<lambda>s. s) (lit ''a.b'') empty_trie) 0 1 demo_random demo_query demo_proxy_state
     = Some ([demo_query[2 := 0x81, 3 := 0x83]],
         proxy_incr (\<lambda>m. m\<lparr>drop_count := drop_count m + 1\<rparr>) demo_proxy_state)"
proof -
  have "check_rules (\<lambda>s. s) (lit ''a.b'') (insert_drop (\<lambda>s. s) (lit ''a.b'') empty_trie) = RuleDrop" by code_simp
  then have run: "proxy_handle_query demo_proxy (insert_drop (\<lambda>s. s) (lit ''a.b'') empty_trie) 0 1 demo_random demo_query demo_proxy_state
      = Some ([demo_query[2 := 0x81, 3 := 0x83]], proxy_incr (\<lambda>m. m\<lparr>drop_count := drop_count m + 1\<rparr>) demo_proxy_state)"
    by (simp add: proxy_handle_query_def demo_proxy_def demo_parse demo_length craft_nxdomain_eq)
  obtain m where m: "proxy_metrics demo_proxy_state = Some m" by (simp add: demo_proxy_state_def demo_state_def)
  show ?thesis
    using proxy_reply_accounted [OF run m] run by (simp add: demo_length)
qed

end
