(* ===== verification/Server_Loop.thy ===== *)
theory Server_Loop
  imports Query_Handler
begin

text \<open>
  How both programs admit queries (\<open>run_server\<close> of \<open>dns_relay/src/main.rs\<close> and of
  \<open>resolver_proxy/src/main.rs\<close>, \<open>run_obfs_listener\<close>): the listener drains its socket into a batch
  and admits each query if a permit of the semaphore is free, puts it into the bounded backlog
  otherwise, and refuses it when that is full; one task takes queries from the backlog, drops stale
  ones and waits for a permit. A handler keeps its permit until it ends.

  The tasks interleave freely: \<open>server_step\<close> has one rule for every atomic action of a task. When
  the backlog task waits for a permit and another task asks for one, either may get it.
\<close>

section \<open>Receiving a batch\<close>

definition RESOLVE_SEMAPHORE :: nat where "RESOLVE_SEMAPHORE = 512"
definition BACKLOG_CAPACITY :: nat where "BACKLOG_CAPACITY = 1024"
definition PAYLOAD_BUF_SIZE :: nat where "PAYLOAD_BUF_SIZE = 1024"
definition RECV_BATCH_MAX :: nat where "RECV_BATCH_MAX = 256"
definition MAX_BACKLOG_AGE_MS :: nat where "MAX_BACKLOG_AGE_MS = 800"

definition OBFS_PAYLOAD_BUF_SIZE :: nat where
  "OBFS_PAYLOAD_BUF_SIZE = PAYLOAD_BUF_SIZE + NONCE_LEN + TAG_LEN + LEN_PREFIX + PAD_MAX + 64"

definition OBFS_RECV_BATCH_MAX :: nat where "OBFS_RECV_BATCH_MAX = 64"

lemmas loop_constants = RESOLVE_SEMAPHORE_def BACKLOG_CAPACITY_def PAYLOAD_BUF_SIZE_def RECV_BATCH_MAX_def
  MAX_BACKLOG_AGE_MS_def OBFS_RECV_BATCH_MAX_def OBFS_PAYLOAD_BUF_SIZE_def

text \<open>What \<open>try_recv_from\<close> gives: a datagram, or \<open>WouldBlock\<close> or another error, which ends the
  draining. The buffer cuts a datagram that is longer.\<close>

datatype recv_result = Datagram bytes socket_addr | RecvError

fun drain :: "nat \<Rightarrow> nat \<Rightarrow> recv_result list \<Rightarrow> (bytes \<times> socket_addr) list" where
  "drain buf (Suc room) (Datagram d addr # rs) = (take buf d, addr) # drain buf room rs"
| "drain buf room rs = []"

text \<open>The batch of one turn: the datagram that \<open>recv_from\<close> waited for, and what is there besides.\<close>

definition receive_batch :: "nat \<Rightarrow> nat \<Rightarrow> bytes \<times> socket_addr \<Rightarrow> recv_result list \<Rightarrow> (bytes \<times> socket_addr) list" where
  "receive_batch buf max_len head_msg rs =
     (take buf (fst head_msg), snd head_msg) # drain buf (max_len - 1) rs"

definition count_batch :: "'q list \<Rightarrow> metrics option \<Rightarrow> metrics option" where
  "count_batch qs = map_option (\<lambda>m. m\<lparr>total_req := total_req m + of_nat (length qs)\<rparr>)"

section \<open>Admission\<close>

record 'q admission =
  clock :: nat
  permits :: nat \<comment> \<open>free permits of \<open>resolve_sem\<close>\<close>
  running :: "'q list" \<comment> \<open>the handlers that were spawned, each with its permit\<close>
  batch :: "'q list" \<comment> \<open>the part of the listener's batch still to admit\<close>
  backlog :: "('q \<times> nat) list" \<comment> \<open>the channel: a query and its \<open>enqueued_at\<close>\<close>
  worker :: "'q option" \<comment> \<open>the query for which the backlog task waits for a permit\<close>

definition server_start :: "'q admission" where
  "server_start = \<lparr>clock = 0, permits = RESOLVE_SEMAPHORE, running = [], batch = [], backlog = [], worker = None\<rparr>"

datatype 'q event =
    Tick nat | Arrived "'q list" | Admitted 'q | Enqueued 'q | Refused 'q
  | Stale 'q | Taken 'q | Resumed 'q | ObfsAdmitted 'q | ObfsRefused 'q | Finished 'q

definition spawn :: "'q \<Rightarrow> 'q admission \<Rightarrow> 'q admission" where
  "spawn q s = s\<lparr>permits := permits s - 1, running := running s @ [q]\<rparr>"

text \<open>The loop body over a batch: \<open>try_acquire_owned\<close>, then \<open>try_send\<close>.\<close>

definition admit :: "'q \<Rightarrow> 'q admission \<Rightarrow> 'q event \<times> 'q admission" where
  "admit q s =
     (if 0 < permits s then (Admitted q, spawn q s)
      else if length (backlog s) < BACKLOG_CAPACITY
        then (Enqueued q, s\<lparr>backlog := backlog s @ [(q, clock s)]\<rparr>)
      else (Refused q, s))"

text \<open>The obfuscated listener has no backlog.\<close>

definition obfs_admit :: "'q \<Rightarrow> 'q admission \<Rightarrow> 'q event \<times> 'q admission" where
  "obfs_admit q s = (if 0 < permits s then (ObfsAdmitted q, spawn q s) else (ObfsRefused q, s))"

text \<open>One \<open>backlog_rx.recv()\<close> of the inner loop: a query older than the limit is dropped.\<close>

definition take_backlog :: "'q admission \<Rightarrow> ('q event \<times> 'q admission) option" where
  "take_backlog s =
     (case (worker s, backlog s) of
        (None, (q, enqueued_at) # rest) \<Rightarrow>
          Some (if MAX_BACKLOG_AGE_MS * 1000000 < clock s - enqueued_at
                  then (Stale q, s\<lparr>backlog := rest\<rparr>)
                else (Taken q, s\<lparr>backlog := rest, worker := Some q\<rparr>))
      | _ \<Rightarrow> None)"

text \<open>\<open>acquire_owned\<close> got a permit.\<close>

definition resume :: "'q admission \<Rightarrow> ('q event \<times> 'q admission) option" where
  "resume s =
     (case worker s of
        Some q \<Rightarrow> if 0 < permits s then Some (Resumed q, spawn q (s\<lparr>worker := None\<rparr>)) else None
      | None \<Rightarrow> None)"

text \<open>A handler ends and its permit is dropped.\<close>

definition finish :: "'q \<Rightarrow> 'q admission \<Rightarrow> 'q admission" where
  "finish q s = s\<lparr>permits := permits s + 1, running := remove1 q (running s)\<rparr>"

inductive server_step :: "'q admission \<Rightarrow> 'q event \<Rightarrow> 'q admission \<Rightarrow> bool" where
  tick: "clock s \<le> t \<Longrightarrow> server_step s (Tick t) (s\<lparr>clock := t\<rparr>)"
| arrive: "batch s = [] \<Longrightarrow> qs \<noteq> [] \<Longrightarrow> length qs \<le> RECV_BATCH_MAX \<Longrightarrow> server_step s (Arrived qs) (s\<lparr>batch := qs\<rparr>)"
| listen: "batch s = q # qs \<Longrightarrow> admit q (s\<lparr>batch := qs\<rparr>) = (e, s') \<Longrightarrow> server_step s e s'"
| obfs_listen: "obfs_admit q s = (e, s') \<Longrightarrow> server_step s e s'"
| dequeue: "take_backlog s = Some (e, s') \<Longrightarrow> server_step s e s'"
| serve: "resume s = Some (e, s') \<Longrightarrow> server_step s e s'"
| finished: "q \<in> set (running s) \<Longrightarrow> server_step s (Finished q) (finish q s)"

inductive server_trace :: "'q admission \<Rightarrow> 'q event list \<Rightarrow> 'q admission \<Rightarrow> bool" where
  start: "server_trace s [] s"
| step: "server_trace s es s' \<Longrightarrow> server_step s' e s'' \<Longrightarrow> server_trace s (es @ [e]) s''"

inductive_cases trace_nilE: "server_trace s [] s'"

text \<open>The effect of a step, event by event.\<close>

lemma server_step_effect:
  assumes "server_step s e s'"
  obtains
    (Tick) t where "e = Tick t" "clock s \<le> t" "s' = s\<lparr>clock := t\<rparr>"
  | (Arrived) qs where "e = Arrived qs" "batch s = []" "qs \<noteq> []" "length qs \<le> RECV_BATCH_MAX" "s' = s\<lparr>batch := qs\<rparr>"
  | (Admitted) q qs where "e = Admitted q" "batch s = q # qs" "0 < permits s" "s' = spawn q (s\<lparr>batch := qs\<rparr>)"
  | (Enqueued) q qs where "e = Enqueued q" "batch s = q # qs" "permits s = 0" "length (backlog s) < BACKLOG_CAPACITY"
      "s' = s\<lparr>batch := qs, backlog := backlog s @ [(q, clock s)]\<rparr>"
  | (Refused) q qs where "e = Refused q" "batch s = q # qs" "permits s = 0" "BACKLOG_CAPACITY \<le> length (backlog s)"
      "s' = s\<lparr>batch := qs\<rparr>"
  | (ObfsAdmitted) q where "e = ObfsAdmitted q" "0 < permits s" "s' = spawn q s"
  | (ObfsRefused) q where "e = ObfsRefused q" "permits s = 0" "s' = s"
  | (Stale) q t rest where "e = Stale q" "worker s = None" "backlog s = (q, t) # rest"
      "MAX_BACKLOG_AGE_MS * 1000000 < clock s - t" "s' = s\<lparr>backlog := rest\<rparr>"
  | (Taken) q t rest where "e = Taken q" "worker s = None" "backlog s = (q, t) # rest"
      "clock s - t \<le> MAX_BACKLOG_AGE_MS * 1000000" "s' = s\<lparr>backlog := rest, worker := Some q\<rparr>"
  | (Resumed) q where "e = Resumed q" "worker s = Some q" "0 < permits s" "s' = spawn q (s\<lparr>worker := None\<rparr>)"
  | (Finished) q where "e = Finished q" "q \<in> set (running s)" "s' = finish q s"
  using assms
proof (cases rule: server_step.cases)
  case (listen q qs)
  then show ?thesis using that(3-5) by (auto simp: admit_def split: if_splits)
next
  case (obfs_listen q)
  then show ?thesis using that(6,7) by (auto simp: obfs_admit_def split: if_splits)
next
  case dequeue
  then show ?thesis using that(8,9) by (auto simp: take_backlog_def split: option.splits list.splits if_splits)
next
  case serve
  then show ?thesis using that(10) by (auto simp: resume_def split: option.splits if_splits)
next
  case (tick t)
  then show ?thesis by (intro that(1))
next
  case (arrive qs)
  then show ?thesis by (intro that(2))
next
  case (finished q)
  then show ?thesis by (intro that(11))
qed

section \<open>Invariants\<close>

lemmas effect_simps = spawn_def finish_def loop_constants

definition admission_ok :: "'q admission \<Rightarrow> bool" where
  "admission_ok s \<longleftrightarrow> permits s + length (running s) = RESOLVE_SEMAPHORE
     \<and> length (backlog s) \<le> BACKLOG_CAPACITY \<and> length (batch s) \<le> RECV_BATCH_MAX"

lemma length_remove1_in: "q \<in> set xs \<Longrightarrow> length xs = Suc (length (remove1 q xs))"
  by (induction xs) auto

lemma sum_step:
  fixes a :: "'a :: ab_semigroup_add"
  shows "a + b = c + w \<Longrightarrow> w + x = y + v \<Longrightarrow> a + (b + x) = (c + y) + v"
  by (metis add.assoc)

lemma server_step_ok: "server_step s e s' \<Longrightarrow> admission_ok s \<Longrightarrow> admission_ok s'"
proof (erule server_step_effect)
  fix q
  assume "admission_ok s" "q \<in> set (running s)" "s' = finish q s"
  then show ?thesis
    using length_remove1_in [of q "running s"] by (simp add: admission_ok_def finish_def)
qed (auto simp: admission_ok_def effect_simps)

lemma server_trace_ok: "server_trace s es s' \<Longrightarrow> admission_ok s \<Longrightarrow> admission_ok s'"
  by (induction rule: server_trace.induct) (auto dest: server_step_ok)

lemma server_start_ok [simp]: "admission_ok server_start"
  by (simp add: admission_ok_def server_start_def loop_constants)

text \<open>What an event says of the queries.\<close>

fun offered :: "'q event \<Rightarrow> 'q list" where
  "offered (Arrived qs) = qs"
| "offered (ObfsAdmitted q) = [q]"
| "offered (ObfsRefused q) = [q]"
| "offered _ = []"

fun started :: "'q event \<Rightarrow> 'q list" where
  "started (Admitted q) = [q]"
| "started (Resumed q) = [q]"
| "started (ObfsAdmitted q) = [q]"
| "started _ = []"

fun dropped :: "'q event \<Rightarrow> 'q list" where
  "dropped (Refused q) = [q]"
| "dropped (Stale q) = [q]"
| "dropped (ObfsRefused q) = [q]"
| "dropped _ = []"

fun ended :: "'q event \<Rightarrow> 'q list" where
  "ended (Finished q) = [q]"
| "ended _ = []"

fun enqueued :: "'q event \<Rightarrow> 'q list" where
  "enqueued (Enqueued q) = [q]"
| "enqueued _ = []"

fun dequeued :: "'q event \<Rightarrow> 'q list" where
  "dequeued (Stale q) = [q]"
| "dequeued (Taken q) = [q]"
| "dequeued _ = []"

fun taken :: "'q event \<Rightarrow> 'q list" where
  "taken (Taken q) = [q]"
| "taken _ = []"

fun resumed :: "'q event \<Rightarrow> 'q list" where
  "resumed (Resumed q) = [q]"
| "resumed _ = []"

abbreviation all_of :: "('q event \<Rightarrow> 'q list) \<Rightarrow> 'q event list \<Rightarrow> 'q list" where
  "all_of f es \<equiv> concat (map f es)"

abbreviation held :: "'q admission \<Rightarrow> 'q list" where
  "held s \<equiv> (case worker s of None \<Rightarrow> [] | Some q \<Rightarrow> [q])"

definition waiting :: "'q admission \<Rightarrow> 'q list" where
  "waiting s = batch s @ map fst (backlog s) @ held s"

lemma server_step_conserves:
  "server_step s e s' \<Longrightarrow>
     mset (waiting s) + mset (offered e) = mset (started e) + mset (dropped e) + mset (waiting s')
     \<and> mset (running s) + mset (started e) = mset (ended e) + mset (running s')"
  by (erule server_step_effect) (auto simp: waiting_def spawn_def finish_def)

lemma server_trace_conserves:
  "server_trace s es s' \<Longrightarrow>
     mset (waiting s) + mset (all_of offered es) = mset (all_of started es) + mset (all_of dropped es) + mset (waiting s')
     \<and> mset (running s) + mset (all_of started es) = mset (all_of ended es) + mset (running s')"
proof (induction rule: server_trace.induct)
  case (step s es s' e s'')
  note one = server_step_conserves [OF step.hyps(2)]
  show ?case
    using sum_step [OF step.IH [THEN conjunct1] one [THEN conjunct1]]
      sum_step [OF step.IH [THEN conjunct2] one [THEN conjunct2]] by (simp add: ac_simps)
qed simp

lemma server_step_fifo:
  "server_step s e s' \<Longrightarrow>
     map fst (backlog s) @ enqueued e = dequeued e @ map fst (backlog s') \<and> held s @ taken e = resumed e @ held s'"
  by (erule server_step_effect) (auto simp: spawn_def finish_def)

lemma server_trace_fifo:
  "server_trace s es s' \<Longrightarrow>
     map fst (backlog s) @ all_of enqueued es = all_of dequeued es @ map fst (backlog s')
     \<and> held s @ all_of taken es = all_of resumed es @ held s'"
proof (induction rule: server_trace.induct)
  case (step s es s' e s'')
  from server_step_fifo [OF step.hyps(2)] step.IH show ?case
    unfolding map_append concat_append list.map concat.simps append_Nil2 by (metis append.assoc)
qed simp

text \<open>The work that is left, in steps.\<close>

definition load :: "'q admission \<Rightarrow> nat" where
  "load s = 4 * length (batch s) + 3 * length (backlog s) + 2 * length (held s) + length (running s)"

fun inner :: "'q event \<Rightarrow> bool" where
  "inner (Tick t) = False"
| "inner (Arrived qs) = False"
| "inner (ObfsAdmitted q) = False"
| "inner (ObfsRefused q) = False"
| "inner _ = True"

lemma server_step_load: "server_step s e s' \<Longrightarrow> inner e \<Longrightarrow> load s' < load s"
proof (erule server_step_effect)
  fix q
  assume "q \<in> set (running s)" "s' = finish q s"
  then show ?thesis
    using length_remove1_in [of q "running s"] by (simp add: load_def finish_def)
qed (auto simp: load_def spawn_def)

lemma server_trace_load: "server_trace s es s' \<Longrightarrow> list_all inner es \<Longrightarrow> load s' + length es \<le> load s"
  by (induction rule: server_trace.induct) (fastforce dest: server_step_load)+

lemma server_progress:
  assumes "admission_ok s" "0 < load s"
  shows "\<exists>e s'. server_step s e s' \<and> inner e"
proof (cases "running s")
  case (Cons q qs)
  then have "server_step s (Finished q) (finish q s)" by (intro server_step.finished) simp
  then show ?thesis by (intro exI conjI) auto
next
  case Nil
  then have free: "0 < permits s" using assms(1) by (simp add: admission_ok_def loop_constants)
  consider q qs where "batch s = q # qs" | q where "worker s = Some q" | x rest where "worker s = None" "backlog s = x # rest"
    using assms(2) Nil by (cases "batch s"; cases "worker s"; cases "backlog s") (auto simp: load_def)
  then show ?thesis
  proof cases
    case 1
    then have "server_step s (Admitted q) (spawn q (s\<lparr>batch := qs\<rparr>))"
      using free by (intro server_step.listen) (auto simp: admit_def)
    then show ?thesis by (intro exI conjI) auto
  next
    case 2
    then have "server_step s (Resumed q) (spawn q (s\<lparr>worker := None\<rparr>))"
      using free by (intro server_step.serve) (auto simp: resume_def)
    then show ?thesis by (intro exI conjI) auto
  next
    case 3
    have "\<exists>e s'. take_backlog s = Some (e, s') \<and> inner e" using 3 by (cases x) (simp add: take_backlog_def)
    then show ?thesis by (blast intro: server_step.dequeue)
  qed
qed

section \<open>A full server\<close>

lemma trace_append: "server_trace t es' u \<Longrightarrow> server_trace s es t \<Longrightarrow> server_trace s (es @ es') u"
proof (induction rule: server_trace.induct)
  case (step t es' t' e u)
  then show ?case using server_trace.step [of s "es @ es'" t' e u] by simp
qed simp

lemma trace_one: "server_step s e t \<Longrightarrow> server_trace s [e] t"
  using server_trace.step [OF server_trace.start, of s e t] by simp

lemma admit_all:
  assumes "length qs \<le> permits s" "batch s = qs"
  shows "\<exists>es. server_trace s es (s\<lparr>permits := permits s - length qs, running := running s @ qs, batch := []\<rparr>)"
  using assms
proof (induction qs arbitrary: s)
  case Nil
  then have "s = s\<lparr>permits := permits s - length [], running := running s @ [], batch := []\<rparr>" by simp
  then show ?case using server_trace.start by metis
next
  case (Cons q qs)
  let ?t = "spawn q (s\<lparr>batch := qs\<rparr>)"
  have one: "server_step s (Admitted q) ?t"
    using Cons.prems by (intro server_step.listen) (auto simp: admit_def)
  have "length qs \<le> permits ?t" "batch ?t = qs" using Cons.prems by (simp_all add: spawn_def)
  from Cons.IH [OF this] obtain es where
    "server_trace ?t es (?t\<lparr>permits := permits ?t - length qs, running := running ?t @ qs, batch := []\<rparr>)"
    by blast
  from trace_append [OF this trace_one [OF one]] show ?case by (auto simp: spawn_def)
qed

lemma arrive_and_admit:
  assumes "length qs \<le> permits s" "batch s = []" "qs \<noteq> []" "length qs \<le> RECV_BATCH_MAX"
  shows "\<exists>es. server_trace s es (s\<lparr>permits := permits s - length qs, running := running s @ qs\<rparr>)"
proof -
  have one: "server_trace s [Arrived qs] (s\<lparr>batch := qs\<rparr>)"
    using assms by (intro trace_one server_step.arrive)
  obtain es where "server_trace (s\<lparr>batch := qs\<rparr>) es
      (s\<lparr>batch := qs\<rparr>\<lparr>permits := permits s - length qs, running := running s @ qs, batch := []\<rparr>)"
    using admit_all [of qs "s\<lparr>batch := qs\<rparr>"] assms(1) by auto
  moreover have "s\<lparr>batch := qs\<rparr>\<lparr>permits := permits s - length qs, running := running s @ qs, batch := []\<rparr> =
      s\<lparr>permits := permits s - length qs, running := running s @ qs\<rparr>"
    using assms(2) by simp
  ultimately show ?thesis using trace_append [OF _ one] by metis
qed

definition full_server :: "'q \<Rightarrow> 'q admission" where
  "full_server q = server_start\<lparr>permits := 0, running := replicate 512 q\<rparr>"

lemma full_server_reached: "\<exists>es. server_trace server_start es (full_server q)"
proof -
  let ?half = "server_start\<lparr>permits := 256, running := replicate 256 q\<rparr>"
  obtain es where one: "server_trace server_start es ?half"
    using arrive_and_admit [of "replicate 256 q" server_start] by (auto simp: server_start_def loop_constants)
  obtain es' where two: "server_trace ?half es'
      (?half\<lparr>permits := permits ?half - 256, running := running ?half @ replicate 256 q\<rparr>)"
    using arrive_and_admit [of "replicate 256 q" ?half] by (auto simp: server_start_def loop_constants)
  have "replicate 256 q @ replicate 256 q = replicate 512 q"
    by (simp only: replicate_add [symmetric]) simp
  then have "?half\<lparr>permits := permits ?half - 256, running := running ?half @ replicate 256 q\<rparr> = full_server q"
    by (simp add: full_server_def)
  with trace_append [OF two one] show ?thesis by metis
qed

section \<open>Properties\<close>

text \<open>C15: Whatever the interleaving of the listeners, the backlog task and the handlers, the free permits
  and the running handlers add up to 512, and at most 1024 queries wait in the backlog and 256 in
  the batch.\<close>

theorem admission_bounded:
  assumes "server_trace server_start es s"
  shows "permits s + length (running s) = 512 \<and> length (backlog s) \<le> 1024 \<and> length (batch s) \<le> 256"
  using server_trace_ok [OF assms server_start_ok] by (simp add: admission_ok_def loop_constants)

theorem admission_bounded_witness:
  "permits (full_server (0::nat)) + length (running (full_server (0::nat))) = 512"
proof -
  from full_server_reached [of "0::nat"] obtain es where "server_trace server_start es (full_server (0::nat))" ..
  from admission_bounded [OF this] show ?thesis by blast
qed

text \<open>No query is lost or served twice: each one that arrived has been given to exactly one handler,
  or refused or dropped as stale, or still waits; and each handler that was started has ended or
  runs.\<close>

theorem queries_conserved:
  assumes "server_trace server_start es s"
  shows "mset (all_of offered es) = mset (all_of started es) + mset (all_of dropped es) + mset (waiting s)
    \<and> mset (all_of started es) = mset (all_of ended es) + mset (running s)"
  using server_trace_conserves [OF assms] by (simp add: server_start_def waiting_def)

theorem queries_conserved_witness:
  "\<exists>es. mset (all_of started es) = mset (all_of ended es) + mset (replicate 512 (0::nat)) \<and>
     mset (all_of offered es) = mset (all_of started es) + mset (all_of dropped es)"
proof -
  from full_server_reached [of "0::nat"] obtain es where "server_trace server_start es (full_server (0::nat))" ..
  from queries_conserved [OF this] show ?thesis by (auto simp: full_server_def waiting_def server_start_def)
qed

text \<open>The backlog is served in the order of arrival: what left it, served or stale, followed by what
  it holds, is what entered it, and the backlog task starts what it took in that order.\<close>

theorem backlog_in_order:
  assumes "server_trace server_start es s"
  shows "all_of enqueued es = all_of dequeued es @ map fst (backlog s)
    \<and> all_of taken es = all_of resumed es @ held s"
  using server_trace_fifo [OF assms] by (simp add: server_start_def)

theorem backlog_in_order_witness:
  "\<exists>es. server_trace server_start es (full_server (0::nat)) \<and> all_of enqueued es = all_of dequeued es"
proof -
  from full_server_reached [of "0::nat"] obtain es where t: "server_trace server_start es (full_server (0::nat))" ..
  from backlog_in_order [OF this] t show ?thesis by (auto simp: full_server_def server_start_def)
qed

text \<open>A query is turned away only under full load: the plain listener refuses one only while 512
  handlers run and 1024 queries wait, the obfuscated listener while 512 handlers run; a query that
  is dropped from the backlog has waited more than 800 milliseconds.\<close>

theorem refused_only_under_load:
  assumes "server_trace server_start es s" "server_step s e s'"
  shows "(\<forall>q. e = Refused q \<longrightarrow> length (running s) = 512 \<and> length (backlog s) = 1024)
    \<and> (\<forall>q. e = ObfsRefused q \<longrightarrow> length (running s) = 512)
    \<and> (\<forall>q. e = Stale q \<longrightarrow> (\<exists>t. (q, t) \<in> set (backlog s) \<and> clock s - t > 800 * 1000000))"
  using assms(2) server_trace_ok [OF assms(1) server_start_ok]
  by (elim server_step_effect) (auto simp: admission_ok_def loop_constants)

theorem refused_only_under_load_witness: "length (running (full_server (0::nat))) = 512"
proof -
  from full_server_reached [of "0::nat"] obtain es where t: "server_trace server_start es (full_server (0::nat))" ..
  have "server_step (full_server (0::nat)) (ObfsRefused (0::nat)) (full_server (0::nat))"
    by (intro server_step.obfs_listen) (simp add: obfs_admit_def full_server_def)
  from refused_only_under_load [OF t this] show ?thesis by simp
qed



text \<open>The age of a query is checked when it leaves the backlog, not when it is served: with all
  permits taken, a query that was taken in time may start any time later.\<close>

theorem taken_query_may_start_late:
  assumes "server_trace server_start es s" "worker s = Some q" "permits s = 0"
  shows "\<exists>es' s'. server_trace s es' s' \<and> clock s' = clock s + delay \<and> last es' = Resumed q \<and> q \<in> set (running s')"
proof -
  obtain r where r: "r \<in> set (running s)"
    using admission_bounded [OF assms(1)] assms(3) by (cases "running s") auto
  let ?t = "s\<lparr>clock := clock s + delay\<rparr>"
  let ?u = "finish r ?t"
  let ?v = "spawn q (?u\<lparr>worker := None\<rparr>)"
  have "server_step s (Tick (clock s + delay)) ?t" by (rule server_step.tick) simp
  moreover have "server_step ?t (Finished r) ?u" using r by (intro server_step.finished) simp
  moreover have "server_step ?u (Resumed q) ?v"
    using assms(2) by (intro server_step.serve) (simp add: resume_def finish_def)
  ultimately have "server_trace s [Tick (clock s + delay), Finished r, Resumed q] ?v"
    using server_trace.step [OF server_trace.step [OF trace_one]] by fastforce
  then show ?thesis by (intro exI conjI) (auto simp: spawn_def finish_def)
qed

theorem taken_query_may_start_late_witness:
  "\<exists>es s'. server_trace (full_server (0::nat)\<lparr>worker := Some (0::nat)\<rparr>) es s' \<and> clock s' = 5000000000 \<and> last es = Resumed (0::nat)"
proof -
  let ?s = "full_server (0::nat)\<lparr>batch := [(0::nat)]\<rparr>"
  let ?t = "full_server (0::nat)\<lparr>backlog := [((0::nat), 0)]\<rparr>"
  let ?u = "full_server (0::nat)\<lparr>worker := Some (0::nat)\<rparr>"
  have "server_step (full_server (0::nat)) (Arrived [(0::nat)]) ?s"
    by (intro server_step.arrive) (simp_all add: full_server_def server_start_def loop_constants)
  moreover have "server_step ?s (Enqueued (0::nat)) ?t"
    by (intro server_step.listen) (simp_all add: admit_def full_server_def server_start_def loop_constants)
  moreover have "server_step ?t (Taken (0::nat)) ?u"
    by (intro server_step.dequeue) (simp add: take_backlog_def full_server_def server_start_def)
  ultimately have u: "server_trace (full_server (0::nat)) [Arrived [(0::nat)], Enqueued (0::nat), Taken (0::nat)] ?u"
    using server_trace.step [OF server_trace.step [OF trace_one]] by fastforce
  from full_server_reached [of "0::nat"] obtain es where "server_trace server_start es (full_server (0::nat))" ..
  from trace_append [OF u this] have t: "server_trace server_start (es @ [Arrived [(0::nat)], Enqueued (0::nat), Taken (0::nat)]) ?u" .
  have "worker ?u = Some (0::nat)" "permits ?u = 0" "clock ?u = 0" by (simp_all add: full_server_def server_start_def)
  from taken_query_may_start_late [OF t this(1,2), of 5000000000] this(3) show ?thesis
    unfolding \<open>clock ?u = 0\<close> add_0_left by blast
qed

end
