(* ===== verification/Obfs_Path.thy ===== *)
theory Obfs_Path
  imports Proxy_Handler Server_Loop
begin

text \<open>
  A query on its way through both programs: the proxy obfuscates it (\<open>send_obfs\<close> of
  \<open>resolver_proxy/src/handler.rs\<close>), the relay's listener tries its keys on the datagram, resolves the
  query and obfuscates the reply (\<open>run_obfs_listener\<close> of \<open>dns_relay/src/main.rs\<close>).
\<close>

section \<open>The listener's side\<close>

definition obfs_keys :: "(rstr \<Rightarrow> obfs_error + 'k) \<Rightarrow> rstr list \<Rightarrow> 'k list" where
  "obfs_keys from_base64 keys = List.map_filter (\<lambda>k. case from_base64 k of Inl _ \<Rightarrow> None | Inr key \<Rightarrow> Some key) keys"

text \<open>\<open>find_map\<close> over the keys; a datagram that no key opens is dropped.\<close>

fun find_key :: "'k aead \<Rightarrow> 'k list \<Rightarrow> bytes \<Rightarrow> ('k \<times> bytes) option run" where
  "find_key A [] datagram = Some None"
| "find_key A (key # keys) datagram = do {
     r \<leftarrow> obfs_decode A key datagram;
     (case r of Some q \<Rightarrow> Some (Some (key, q)) | None \<Rightarrow> find_key A keys datagram) }"

text \<open>The task of one query: \<open>resolve_query\<close>, then \<open>encode\<close>.\<close>

definition obfs_task ::
  "('c, 'conn, 'k) relay_server \<Rightarrow> domain_trie \<Rightarrow> circumstances \<Rightarrow> 'o aead \<Rightarrow> obfs_random \<Rightarrow> 'o \<Rightarrow> bytes \<Rightarrow>
     ('c, 'conn, 'k) relay_state \<Rightarrow> (bytes option \<times> ('c, 'conn, 'k) relay_state) run" where
  "obfs_task E rule_trie W A r key query s = do {
     (reply, s) \<leftarrow> resolve_query E rule_trie W query s;
     (case reply of
        None \<Rightarrow> Some (None, s)
      | Some resp \<Rightarrow> do { encoded \<leftarrow> obfs_encode A key r resp; Some (Some encoded, s) }) }"

text \<open>What happens to a datagram: it is cut by the buffer, its key is found, and a task answers it if
  a permit is free (\<open>has_permit\<close>).\<close>

definition obfs_datagram ::
  "('c, 'conn, 'k) relay_server \<Rightarrow> domain_trie \<Rightarrow> circumstances \<Rightarrow> 'o aead \<Rightarrow> obfs_random \<Rightarrow> 'o list \<Rightarrow> bool \<Rightarrow> bytes \<Rightarrow>
     ('c, 'conn, 'k) relay_state \<Rightarrow> (bytes option \<times> ('c, 'conn, 'k) relay_state) run" where
  "obfs_datagram E rule_trie W A r keys has_permit datagram s = do {
     found \<leftarrow> find_key A keys (take OBFS_PAYLOAD_BUF_SIZE datagram);
     (case found of
        None \<Rightarrow> Some (None, s)
      | Some (key, query) \<Rightarrow>
          if has_permit then obfs_task E rule_trie W A r key query s else Some (None, s)) }"

section \<open>Finding the key\<close>

context aead_contract
begin

lemma obfs_opens:
  assumes "obfs_random_ok r" "length m < 65536"
  shows "\<exists>d. obfs_encode A k r m = Some d \<and> obfs_decode A k d = Some (Some m)"
  using obfs.roundtrip [OF assms] .

lemma find_key_total: "\<exists>x. find_key A keys d = Some x"
proof (induction keys)
  case (Cons k keys)
  obtain r where "obfs_decode A k d = Some r" using obfs_decode_total by blast
  with Cons show ?case by (cases r) auto
qed simp

lemma find_key_first:
  assumes "\<forall>k' \<in> set before. obfs_decode A k' d = Some None" "obfs_decode A k d = Some (Some q)"
  shows "find_key A (before @ k # after) d = Some (Some (k, q))"
  using assms by (induction before) auto

lemma find_key_opened:
  "find_key A keys d = Some (Some (k, q)) \<Longrightarrow> k \<in> set keys \<and> obfs_decode A k d = Some (Some q)"
  by (induction keys) (auto simp: bind_eq_Some_conv split: option.splits)

end

text \<open>Through both programs and back.\<close>

lemma obfs_exchange:
  assumes "aead_contract A" "obfs_random_ok rq" "obfs_random_ok rr"
    and "length q \<le> 1024" "obfs_encode A k rq q = Some d" "\<forall>k' \<in> set before. obfs_decode A k' d = Some None"
    and "resolve_query E rule_trie W q s = Some (Some resp, s')" "length resp \<le> 3874"
    and "udp_exchange net addr d =
      (case obfs_datagram E rule_trie W A rr (before @ k # after) True d s of
         Some (Some e, _) \<Rightarrow> Received e | _ \<Rightarrow> NoReply)"
  shows "send_obfs net A addr k rq q = Some (Inr resp)"
proof -
  have "length d \<le> 1310"
    using aead_contract.obfs_encode_length [OF assms(1,2,5)] obfs_pad_len_bounds [of "pad_rand rq"] assms(4) by simp
  then have cut: "take OBFS_PAYLOAD_BUF_SIZE d = d" by (simp add: loop_constants obfs_constants)
  have "obfs_decode A k d = Some (Some q)"
    using aead_contract.obfs_opens [OF assms(1,2), of q k] assms(4,5) by simp
  then have found: "find_key A (before @ k # after) d = Some (Some (k, q))"
    by (rule aead_contract.find_key_first [OF assms(1,6)])
  obtain e where e: "obfs_encode A k rr resp = Some e" "obfs_decode A k e = Some (Some resp)"
    using aead_contract.obfs_opens [OF assms(1,3), of resp k] assms(8) by auto
  have "length e \<le> 4096"
    using aead_contract.obfs_encode_length [OF assms(1,3) e(1)] obfs_pad_len_bounds [of "pad_rand rr"] assms(8) by simp
  moreover have "obfs_datagram E rule_trie W A rr (before @ k # after) True d s = Some (Some e, s')"
    using cut found e(1) assms(7) by (simp add: obfs_datagram_def obfs_task_def)
  ultimately show ?thesis using assms(5,9) e(2) by (simp add: send_obfs_def)
qed

section \<open>Properties\<close>

text \<open>C5: A query that the proxy sends obfuscated to the relay gets exactly the reply that the relay
  would give it in plain: no byte is lost in either direction, as long as the query fits the 1024
  bytes of the proxy's buffer and the reply 3874 bytes, and no earlier key of the relay opens the
  datagram.\<close>

theorem obfs_end_to_end:
  assumes "aead_contract A" "obfs_random_ok rq" "obfs_random_ok rr"
    and "length q \<le> 1024" "obfs_encode A k rq q = Some d" "\<forall>k' \<in> set before. obfs_decode A k' d = Some None"
    and "resolve_query E rule_trie W q s = Some (Some resp, s')" "length resp \<le> 3874"
    and "udp_exchange net addr d =
      (case obfs_datagram E rule_trie W A rr (before @ k # after) True d s of
         Some (Some e, _) \<Rightarrow> Received e | _ \<Rightarrow> NoReply)"
  shows "send_obfs net A addr k rq q = Some (Inr resp)"
  by (rule obfs_exchange [OF assms])

text \<open>Whatever a target sends, the proxy never hands on an obfuscated reply of more than 4066 bytes,
  although the relay obfuscates replies of any length: a longer one is lost.\<close>

theorem obfs_reply_bounded:
  assumes "aead_contract A" "send_obfs net A addr k r q = Some (Inr reply)"
  shows "length reply \<le> 4066"
proof -
  obtain d where "obfs_encode A k r q = Some d" using assms(2) by (auto simp: send_obfs_def bind_eq_Some_conv)
  then obtain b where "obfs_decode A k (take 4096 b) = Some (Some reply)"
    using assms(2) by (cases "udp_exchange net addr d") (auto simp: send_obfs_def bind_eq_Some_conv split: option.splits)
  from aead_contract.obfs_decode_length [OF assms(1) this] show ?thesis by simp
qed

text \<open>The obfuscated listener answers nothing to a datagram that none of its keys opens, and the
  handling of no datagram panics before its query is resolved.\<close>

theorem obfs_listener_silent:
  assumes "aead_contract A"
  shows "if \<forall>k \<in> set keys. obfs_decode A k (take 1310 d) = Some None
    then obfs_datagram E rule_trie W A r keys has_permit d s = Some (None, s)
    else \<exists>k q. k \<in> set keys \<and> obfs_decode A k (take 1310 d) = Some (Some q) \<and>
      obfs_datagram E rule_trie W A r keys has_permit d s =
        (if has_permit then obfs_task E rule_trie W A r k q s else Some (None, s))"
proof -
  have buf: "OBFS_PAYLOAD_BUF_SIZE = 1310" by (simp add: loop_constants obfs_constants)
  obtain x where x: "find_key A keys (take 1310 d) = Some x" using aead_contract.find_key_total [OF assms] by blast
  have none: "find_key A ks b = Some None \<longleftrightarrow> (\<forall>k \<in> set ks. obfs_decode A k b = Some None)" for ks b
  proof (induction ks)
    case (Cons k ks)
    obtain r where "obfs_decode A k b = Some r" using aead_contract.obfs_decode_total [OF assms] by blast
    with Cons show ?case by (cases r) auto
  qed simp
  show ?thesis
  proof (cases x)
    case None
    with x have f: "find_key A keys (take 1310 d) = Some None" by simp
    then have "\<forall>k \<in> set keys. obfs_decode A k (take 1310 d) = Some None" using none by blast
    then show ?thesis unfolding obfs_datagram_def buf f by simp
  next
    case (Some kq)
    obtain k q where kq: "kq = (k, q)" by (cases kq)
    then have "k \<in> set keys \<and> obfs_decode A k (take 1310 d) = Some (Some q)"
      using aead_contract.find_key_opened [OF assms] x Some by blast
    moreover from this have "\<not> (\<forall>k \<in> set keys. obfs_decode A k (take 1310 d) = Some None)" by fastforce
    ultimately show ?thesis using x Some kq unfolding obfs_datagram_def buf by auto
  qed
qed

section \<open>Witnesses\<close>

text \<open>The relay behind one address: it answers what \<open>obfs_datagram\<close> gives.\<close>

definition relay_net :: "(bytes \<Rightarrow> bytes option) \<Rightarrow> nat net" where
  "relay_net answer = silent_net\<lparr>udp_exchange := \<lambda>_ d. (case answer d of Some e \<Rightarrow> Received e | None \<Rightarrow> NoReply)\<rparr>"

definition demo_relay :: "bytes \<Rightarrow> bytes option" where
  "demo_relay d =
     (case obfs_datagram (demo_server demo_reply) empty_trie (demo_run InTime) xor_aead (demo_random 1) [7] True d demo_state of
        Some (Some e, _) \<Rightarrow> Some e | _ \<Rightarrow> None)"

theorem obfs_end_to_end_witness:
  "send_obfs (relay_net demo_relay) xor_aead (SockV4 (10, 0, 0, 1) 53) 7 (demo_random 0) demo_query = Some (Inr (with_txid demo_reply 0 7))"
proof -
  have len: "length demo_query \<le> 1024" "length (with_txid demo_reply 0 7) \<le> 3874"
    by (simp_all add: demo_length demo_reply_def)
  obtain d where d: "obfs_encode xor_aead 7 (demo_random 0) demo_query = Some d"
    using xor.obfs_encode_total [OF demo_random_ok, of demo_query 7 0] by (auto simp: demo_length)
  have none: "\<forall>k' \<in> set []. obfs_decode xor_aead k' d = Some None" by simp
  have net: "udp_exchange (relay_net demo_relay) (SockV4 (10, 0, 0, 1) 53) d =
      (case obfs_datagram (demo_server demo_reply) empty_trie (demo_run InTime) xor_aead (demo_random 1) ([] @ 7 # []) True d demo_state of
         Some (Some e, _) \<Rightarrow> Received e | _ \<Rightarrow> NoReply)"
    by (auto simp: relay_net_def demo_relay_def split: option.split)
  show ?thesis
    by (rule obfs_end_to_end [OF xor.aead_contract_axioms demo_random_ok demo_random_ok len(1) d none demo_resolve len(2) net])
qed

theorem obfs_reply_bounded_witness: "length (with_txid demo_reply 0 7) \<le> 4066"
proof -
  have "send_obfs (relay_net (\<lambda>_. obfs_encode xor_aead 7 (demo_random 1) (with_txid demo_reply 0 7))) xor_aead
      (SockV4 (10, 0, 0, 1) 53) 7 (demo_random 0) demo_query = Some (Inr (with_txid demo_reply 0 7))"
  proof -
    obtain d where d: "obfs_encode xor_aead 7 (demo_random 0) demo_query = Some d"
      using xor.obfs_encode_total [OF demo_random_ok, of demo_query 7 0] by (auto simp: demo_length)
    obtain e where e: "obfs_encode xor_aead 7 (demo_random 1) (with_txid demo_reply 0 7) = Some e"
      "obfs_decode xor_aead 7 e = Some (Some (with_txid demo_reply 0 7))"
      using xor.obfs_opens [OF demo_random_ok, of "with_txid demo_reply 0 7" 7 1] by (auto simp: demo_reply_def)
    have "length e \<le> 4096"
      using xor.obfs_encode_length [OF demo_random_ok e(1)] obfs_pad_len_bounds [of "pad_rand (demo_random 1)"]
      by (simp add: demo_reply_def)
    with d e show ?thesis by (simp add: send_obfs_def relay_net_def)
  qed
  from obfs_reply_bounded [OF xor.aead_contract_axioms this] show ?thesis .
qed

theorem obfs_listener_silent_witness:
  "obfs_datagram (demo_server demo_reply) empty_trie (demo_run InTime) xor_aead (demo_random 1) [7] True [1, 2, 3] demo_state
   = Some (None, demo_state)"
proof -
  have "\<forall>k \<in> set [7]. obfs_decode xor_aead k (take 1310 [1, 2, 3]) = Some None"
    by (simp add: obfs_decode_def obfs_constants)
  then show ?thesis
    using obfs_listener_silent [OF xor.aead_contract_axioms, of "[7]" "[1, 2, 3]" "demo_server demo_reply" empty_trie
        "demo_run InTime" "demo_random 1" True demo_state] by (simp only: if_True)
qed

end
