(* ===== verification/Metric_Report.thy ===== *)
theory Metric_Report
  imports Query_Handler
begin

text \<open>
  The reports of the counters (\<open>shared/src/metric_wrapper.rs\<close>): the snapshot, the log reporter that
  is silent while no query arrives, and the HTTP endpoint that answers one request per connection.

  \<open>serde_json::to_string\<close> is the parameter \<open>to_json\<close>. A client is what it sends before the first line
  is complete or its side of the connection is closed.
\<close>

section \<open>The snapshot\<close>

record metric_report =
  r_total_req :: u64
  r_resolved_count :: u64
  r_failed_count :: u64
  r_timeout_count :: u64
  r_redirect_count :: u64
  r_drop_count :: u64
  r_cached_count :: u64
  r_relay_resolved_count :: u64

text \<open>The eight loads are relaxed and handlers run in between: load \<open>i\<close> sees the counters \<open>at i\<close>.\<close>

definition prepare_report :: "(nat \<Rightarrow> metrics) \<Rightarrow> metric_report" where
  "prepare_report at =
     \<lparr>r_total_req = total_req (at 0),
      r_resolved_count = resolved_count (at 1),
      r_failed_count = failed_count (at 2),
      r_timeout_count = timeout_count (at 3),
      r_redirect_count = redirect_count (at 4),
      r_drop_count = drop_count (at 5),
      r_cached_count = cached_count (at 6),
      r_relay_resolved_count = relay_resolved_count (at 7)\<rparr>"

section \<open>Log reports\<close>

text \<open>The loop of \<open>start_log_reporting\<close> over the reports its ticks prepare; the result are those that
  are written, \<open>last_total_count\<close> starts at 0.\<close>

fun log_loop :: "u64 \<Rightarrow> metric_report list \<Rightarrow> metric_report list" where
  "log_loop last_total_count [] = []"
| "log_loop last_total_count (report # ticks) =
     (if r_total_req report = last_total_count then log_loop last_total_count ticks
      else report # log_loop (r_total_req report) ticks)"

definition start_log_reporting :: "metric_report list \<Rightarrow> metric_report list" where
  "start_log_reporting = log_loop 0"

section \<open>HTTP reports\<close>

text \<open>\<open>usize\<close>'s \<open>Display\<close>.\<close>

fun show_nat :: "nat \<Rightarrow> rstr" where
  "show_nat n = (if n < 10 then [of_nat (48 + n)] else show_nat (n div 10) @ [of_nat (48 + n mod 10)])"

declare show_nat.simps [simp del]

abbreviation crlf :: rstr where "crlf \<equiv> [13, 10]"

definition route :: "(metric_report \<Rightarrow> rstr option) \<Rightarrow> metric_report \<Rightarrow> rstr \<Rightarrow> rstr \<times> rstr \<times> rstr" where
  "route to_json report path =
     (if path = lit ''/metrics'' then
        (case to_json report of
           Some json \<Rightarrow> (lit ''HTTP/1.1 200 OK'', lit ''application/json'', json)
         | None \<Rightarrow> (lit ''HTTP/1.1 500 INTERNAL SERVER ERROR'', lit ''text/plain'', lit ''failed to serialize metrics''))
      else if path = lit ''/health'' then (lit ''HTTP/1.1 200 Healthy'', lit ''text/plain'', lit ''ok'')
      else (lit ''HTTP/1.1 404 NOT FOUND'', lit ''text/plain'', lit ''not found''))"

definition http_response :: "rstr \<times> rstr \<times> rstr \<Rightarrow> rstr" where
  "http_response r =
     (case r of (status_line, content_type, body) \<Rightarrow>
        status_line @ crlf @ lit ''Content-Type: '' @ content_type @ crlf
        @ lit ''Content-Length: '' @ show_nat (length body) @ crlf
        @ lit ''Connection: close'' @ crlf @ crlf @ body)"

text \<open>\<open>read_line\<close>: up to and with the first line feed, an error when that is not UTF-8.\<close>

definition read_line :: "bytes option \<Rightarrow> rstr option" where
  "read_line stream = do {
     sent \<leftarrow> stream;
     (let line = (case split_once newline sent of None \<Rightarrow> sent | Some (l, _) \<Rightarrow> l @ [newline])
      in if utf8_valid line then Some line else None) }"

definition request_path :: "rstr \<Rightarrow> rstr" where
  "request_path request_line = (case split_whitespace request_line of _ # path # _ \<Rightarrow> path | _ \<Rightarrow> [])"

text \<open>What is written to the connection, \<open>None\<close> when it is closed without a word. \<open>stream\<close> is
  \<open>None\<close> when the connection breaks first.\<close>

definition handle_metrics_connection ::
  "(metric_report \<Rightarrow> rstr option) \<Rightarrow> (nat \<Rightarrow> metrics) \<Rightarrow> bytes option \<Rightarrow> rstr option" where
  "handle_metrics_connection to_json at stream =
     (case read_line stream of
        None \<Rightarrow> None
      | Some request_line \<Rightarrow>
          if request_line = [] then None
          else Some (http_response (route to_json (prepare_report at) (request_path request_line))))"

text \<open>The accept loop: nothing is served when the address cannot be bound, a failed accept is passed over,
  and each connection is handled on its own. The counters are those that its handler reads.\<close>

definition start_http_reporting ::
  "(metric_report \<Rightarrow> rstr option) \<Rightarrow> bool \<Rightarrow> ((nat \<Rightarrow> metrics) \<times> bytes option) option list \<Rightarrow> rstr option list" where
  "start_http_reporting to_json bound conns =
     (if bound then map (\<lambda>(at, stream). handle_metrics_connection to_json at stream) (List.map_filter (\<lambda>c. c) conns)
      else [])"

section \<open>Counters\<close>

definition metrics_new :: metrics where
  "metrics_new = \<lparr>total_req = 0, resolved_count = 0, failed_count = 0, timeout_count = 0, redirect_count = 0,
     drop_count = 0, cached_count = 0, relay_resolved_count = 0\<rparr>"

text \<open>Counters of one resolver, which no program uses.\<close>

record resolver_metrics =
  rm_resolver :: rstr
  rm_resolved_count :: u64
  rm_failed_count :: u64

definition resolver_metrics_new :: "rstr \<Rightarrow> resolver_metrics" where
  "resolver_metrics_new resolver = \<lparr>rm_resolver = resolver, rm_resolved_count = 0, rm_failed_count = 0\<rparr>"

section \<open>A client's view\<close>

text \<open>A reader of responses: the header lines up to the empty line, the length they announce, and as
  many bytes of body.\<close>

definition cut_line :: "rstr \<Rightarrow> (rstr \<times> rstr) option" where
  "cut_line s =
     (case split_once newline s of
        Some (l, r) \<Rightarrow> if l \<noteq> [] \<and> last l = 13 then Some (butlast l, r) else None
      | None \<Rightarrow> None)"

lemma cut_line_shorter: "cut_line s = Some (l, r) \<Longrightarrow> length r < length s"
  by (auto simp: cut_line_def split_once_Some split: option.splits prod.splits if_splits)

function read_head :: "rstr \<Rightarrow> (rstr list \<times> rstr) option" where
  "read_head s =
     (case cut_line s of
        None \<Rightarrow> None
      | Some (l, r) \<Rightarrow>
          if l = [] then Some ([], r)
          else map_option (\<lambda>(ls, b). (l # ls, b)) (read_head r))"
  by pat_completeness auto
termination by (relation "measure length") (auto intro: cut_line_shorter)

declare read_head.simps [simp del]

definition announced_length :: "rstr list \<Rightarrow> nat option" where
  "announced_length hs =
     (case List.map_filter (strip_prefix (lit ''Content-Length: '')) hs of
        [ds] \<Rightarrow> if ds \<noteq> [] \<and> list_all is_digit ds then Some (dec_val ds) else None
      | _ \<Rightarrow> None)"

definition read_response :: "rstr \<Rightarrow> (rstr \<times> rstr) option" where
  "read_response s = do {
     (hs, rest) \<leftarrow> read_head s;
     n \<leftarrow> announced_length hs;
     (case hs of status # _ \<Rightarrow> if length rest = n then Some (status, rest) else None | [] \<Rightarrow> None) }"

lemma show_nat_digits: "list_all is_digit (show_nat n) \<and> show_nat n \<noteq> [] \<and> dec_val (show_nat n) = n"
proof (induction n rule: show_nat.induct)
  case (1 n)
  have digit: "is_digit (of_nat (48 + k)) \<and> unat (of_nat (48 + k) :: u8) - 48 = k" if "k < 10" for k
    using that by (simp add: is_digit_def word_le_nat_alt unat_of_nat_u8 del: of_nat_add)
  show ?case
  proof (cases "n < 10")
    case True
    then show ?thesis using digit [of n] by (simp add: show_nat.simps [of n] dec_val_def del: of_nat_add)
  next
    case False
    with 1 [OF this] digit [of "n mod 10"] show ?thesis
      by (simp add: show_nat.simps [of n] dec_val_def del: of_nat_add)
  qed
qed

lemma cut_line_crlf: "newline \<notin> set l \<Longrightarrow> cut_line (l @ crlf @ r) = Some (l, r)"
  using split_once_Some [of newline "l @ crlf @ r" "l @ [13]" r] by (simp add: cut_line_def)

lemma read_head_line: "newline \<notin> set l \<Longrightarrow> l \<noteq> [] \<Longrightarrow>
    read_head (l @ crlf @ r) = map_option (\<lambda>(ls, b). (l # ls, b)) (read_head r)"
  by (subst read_head.simps) (simp add: cut_line_crlf [simplified])

lemma read_head_end: "read_head (crlf @ r) = Some ([], r)"
  using cut_line_crlf [of "[]" r] by (subst read_head.simps) simp

definition header_text :: "rstr \<Rightarrow> bool" where
  "header_text s \<longleftrightarrow> newline \<notin> set s \<and> s \<noteq> [] \<and> strip_prefix (lit ''Content-Length: '') s = None"

lemma route_headers:
  assumes "route to_json report path = (status, content_type, body)"
  shows "header_text status" "newline \<notin> set content_type"
proof -
  have texts: "header_text (lit ''HTTP/1.1 200 OK'')" "header_text (lit ''HTTP/1.1 500 INTERNAL SERVER ERROR'')"
    "header_text (lit ''HTTP/1.1 200 Healthy'')" "header_text (lit ''HTTP/1.1 404 NOT FOUND'')"
    "newline \<notin> set (lit ''application/json'')" "newline \<notin> set (lit ''text/plain'')"
    by code_simp+
  show "header_text status" "newline \<notin> set content_type"
    using assms texts by (auto simp: route_def split: option.splits if_splits)
qed

lemma read_http_response:
  assumes "header_text status" "newline \<notin> set content_type"
  shows "read_response (http_response (status, content_type, body)) = Some (status, body)"
proof -
  let ?n = "show_nat (length body)"
  let ?t = "lit ''Content-Type: '' @ content_type" and ?l = "lit ''Content-Length: '' @ ?n" and ?c = "lit ''Connection: close''"
  have digits: "list_all is_digit ?n" "?n \<noteq> []" "dec_val ?n = length body" using show_nat_digits by blast+
  have status: "newline \<notin> set status" "status \<noteq> []" "strip_prefix (lit ''Content-Length: '') status = None"
    using assms(1) by (simp_all add: header_text_def)
  have "newline \<notin> set ?n" using digits(1) by (auto simp: list_all_iff is_digit_def)
  then have clean: "newline \<notin> set ?t" "newline \<notin> set ?l" "newline \<notin> set ?c" "?t \<noteq> []" "?l \<noteq> []" "?c \<noteq> []"
    using assms(2) by (simp_all add: lit_def)
  have eq: "http_response (status, content_type, body) =
      status @ crlf @ (?t @ crlf @ (?l @ crlf @ (?c @ crlf @ (crlf @ body))))"
    by (simp add: http_response_def)
  have head: "read_head (http_response (status, content_type, body)) = Some ([status, ?t, ?l, ?c], body)"
    unfolding eq read_head_line [OF status(1,2)] read_head_line [OF clean(1,4)] read_head_line [OF clean(2,5)]
      read_head_line [OF clean(3,6)] read_head_end by simp
  have "strip_prefix (lit ''Content-Length: '') ?t = None" "strip_prefix (lit ''Content-Length: '') ?c = None"
    "strip_prefix (lit ''Content-Length: '') ?l = Some ?n"
    by (simp_all add: strip_prefix_def starts_with_def lit_def)
  then have "announced_length [status, ?t, ?l, ?c] = Some (length body)"
    using digits status(3) by (simp add: announced_length_def map_filter_simps)
  with head show ?thesis by (simp add: read_response_def)
qed

text \<open>Every response of the metrics endpoint is one that a client reads back: its header ends with
  an empty line, announces the length of the body, and what follows is exactly the body that the
  path of the request selects; a connection that breaks, sends nothing or sends a first line that is
  not UTF-8 gets no answer.\<close>

theorem metrics_endpoint_reads_back:
  "Option.bind (handle_metrics_connection to_json at stream) read_response =
     (case read_line stream of
        None \<Rightarrow> None
      | Some line \<Rightarrow>
          if line = [] then None
          else (case route to_json (prepare_report at) (request_path line) of (status, _, body) \<Rightarrow> Some (status, body)))"
  using read_http_response [OF route_headers]
  by (auto simp: handle_metrics_connection_def split: option.split prod.split)

text \<open>The log reporter writes a report exactly when the number of queries has changed since the tick
  before (since the start, for the first): outcomes that are counted while no query arrives are
  written with the next query's report only.\<close>

theorem log_reports_exact:
  "start_log_reporting reports =
     map fst (filter (\<lambda>(r, before). r_total_req r \<noteq> before) (zip reports (0 # map r_total_req reports)))"
proof -
  have "log_loop c rs = map fst (filter (\<lambda>(r, before). r_total_req r \<noteq> before) (zip rs (c # map r_total_req rs)))" for c rs
    by (induction rs arbitrary: c) auto
  then show ?thesis by (simp add: start_log_reporting_def)
qed

end
