(* ===== verification/Listener_Turn.thy ===== *)
theory Listener_Turn
  imports Obfs_Path Metric_Report
begin

text \<open>
  One turn of a listener's loop from end to end: the plain loop of \<open>run_server\<close> and the loop of
  \<open>run_obfs_listener\<close> (\<open>dns_relay/src/main.rs\<close>) drain their socket into a batch, count it, and take its
  members one after the other. Theory \<open>Server_Loop\<close> has the steps of this loop, between which other tasks
  may run; here is what a turn does that no other task interrupts, and that it is a trace of those steps.
\<close>

section \<open>The plain listener\<close>

fun admit_all :: "'q list \<Rightarrow> 'q admission \<Rightarrow> 'q event list \<times> 'q admission" where
  "admit_all [] s = ([], s)"
| "admit_all (q # qs) s =
     (let (e, s) = admit q s; (es, s) = admit_all qs s in (e # es, s))"

definition plain_turn ::
  "bytes \<times> socket_addr \<Rightarrow> recv_result list \<Rightarrow> metrics option \<Rightarrow> (bytes \<times> socket_addr) admission \<Rightarrow>
     metrics option \<times> (bytes \<times> socket_addr) event list \<times> (bytes \<times> socket_addr) admission" where
  "plain_turn head_msg rs m s =
     (let msgs = receive_batch PAYLOAD_BUF_SIZE RECV_BATCH_MAX head_msg rs
      in (count_batch msgs m, admit_all msgs s))"

section \<open>The obfuscated listener\<close>

text \<open>A query of this listener carries the key that opened its datagram.\<close>

fun obfs_admit_all ::
  "'o aead \<Rightarrow> 'o list \<Rightarrow> (bytes \<times> socket_addr) list \<Rightarrow> ('o \<times> bytes \<times> socket_addr) admission \<Rightarrow>
     (('o \<times> bytes \<times> socket_addr) event list \<times> ('o \<times> bytes \<times> socket_addr) admission) run" where
  "obfs_admit_all A keys [] s = Some ([], s)"
| "obfs_admit_all A keys ((datagram, src_addr) # ds) s = do {
     found \<leftarrow> find_key A keys datagram;
     (case found of
        None \<Rightarrow> obfs_admit_all A keys ds s
      | Some (key, query) \<Rightarrow>
          let (e, s) = obfs_admit (key, query, src_addr) s
          in do { (es, s) \<leftarrow> obfs_admit_all A keys ds s; Some (e # es, s) }) }"

definition obfs_turn ::
  "'o aead \<Rightarrow> 'o list \<Rightarrow> bytes \<times> socket_addr \<Rightarrow> recv_result list \<Rightarrow> metrics option \<Rightarrow>
     ('o \<times> bytes \<times> socket_addr) admission \<Rightarrow>
     (metrics option \<times> ('o \<times> bytes \<times> socket_addr) event list \<times> ('o \<times> bytes \<times> socket_addr) admission) run" where
  "obfs_turn A keys head_msg rs m s =
     (let msgs = receive_batch OBFS_PAYLOAD_BUF_SIZE OBFS_RECV_BATCH_MAX head_msg rs
      in do { out \<leftarrow> obfs_admit_all A keys msgs s; Some (count_batch msgs m, out) })"

section \<open>Lemmas\<close>

lemma drain_length: "length (drain buf room rs) \<le> room"
  by (induction buf room rs rule: drain.induct) auto

lemma receive_batch_length: "0 < n \<Longrightarrow> length (receive_batch buf n h rs) \<in> {1..n}"
  using drain_length [of buf "n - 1" rs] by (auto simp: receive_batch_def)

text \<open>The first queries get the free permits, the next ones the free places of the backlog.\<close>

definition admitted_part :: "'q admission \<Rightarrow> 'q list \<Rightarrow> 'q list" where
  "admitted_part s qs = take (permits s) qs"

definition queued_part :: "'q admission \<Rightarrow> 'q list \<Rightarrow> 'q list" where
  "queued_part s qs = take (BACKLOG_CAPACITY - length (backlog s)) (drop (permits s) qs)"

definition refused_part :: "'q admission \<Rightarrow> 'q list \<Rightarrow> 'q list" where
  "refused_part s qs = drop (BACKLOG_CAPACITY - length (backlog s)) (drop (permits s) qs)"

lemmas parts = admitted_part_def queued_part_def refused_part_def

lemma parts_together: "admitted_part s qs @ queued_part s qs @ refused_part s qs = qs"
  by (simp add: parts del: drop_drop)

lemma admit_all_exact:
  "admit_all qs s =
     (map Admitted (admitted_part s qs) @ map Enqueued (queued_part s qs) @ map Refused (refused_part s qs),
      s\<lparr>permits := permits s - length qs, running := running s @ admitted_part s qs,
        backlog := backlog s @ map (\<lambda>q. (q, clock s)) (queued_part s qs)\<rparr>)"
proof (induction qs arbitrary: s)
  case (Cons q qs)
  consider (free) n where "permits s = Suc n" | (room) n where "permits s = 0" "BACKLOG_CAPACITY - length (backlog s) = Suc n"
    | (full) "permits s = 0" "BACKLOG_CAPACITY \<le> length (backlog s)"
    by (cases "permits s"; cases "BACKLOG_CAPACITY - length (backlog s)") auto
  then show ?case
  proof cases
    case free
    then show ?thesis by (simp add: admit_def Cons.IH spawn_def parts)
  next
    case room
    then have "BACKLOG_CAPACITY - Suc (length (backlog s)) = n" "length (backlog s) < BACKLOG_CAPACITY" by auto
    with room show ?thesis by (simp add: admit_def Cons.IH parts)
  next
    case full
    then show ?thesis by (simp add: admit_def Cons.IH parts)
  qed
qed (simp add: parts)

lemma admit_all_trace:
  "server_trace s0 es (s\<lparr>batch := qs\<rparr>) \<Longrightarrow> admit_all qs (s\<lparr>batch := []\<rparr>) = (es', s') \<Longrightarrow> server_trace s0 (es @ es') s'"
proof (induction qs arbitrary: s es es')
  case (Cons q qs)
  obtain e s1 where a: "admit q (s\<lparr>batch := qs\<rparr>) = (e, s1)" by (cases "admit q (s\<lparr>batch := qs\<rparr>)")
  then have a': "admit q (s\<lparr>batch := []\<rparr>) = (e, s1\<lparr>batch := []\<rparr>)" "s1\<lparr>batch := qs\<rparr> = s1"
    by (auto simp: admit_def spawn_def split: if_splits)
  obtain es1 where es1: "admit_all qs (s1\<lparr>batch := []\<rparr>) = (es1, s')" "es' = e # es1"
    using Cons.prems(2) a'(1) by (auto split: prod.splits)
  have "server_step (s\<lparr>batch := q # qs\<rparr>) e s1" using a by (intro server_step.listen) auto
  then have "server_trace s0 (es @ [e]) (s1\<lparr>batch := qs\<rparr>)"
    using server_trace.step [OF Cons.prems(1)] a'(2) by simp
  from Cons.IH [OF this es1(1)] es1(2) show ?case by simp
qed simp

text \<open>The queries that the keys open, in their order.\<close>

definition opened :: "'o aead \<Rightarrow> 'o list \<Rightarrow> (bytes \<times> socket_addr) list \<Rightarrow> ('o \<times> bytes \<times> socket_addr) list" where
  "opened A keys ds =
     List.map_filter (\<lambda>(d, addr). case find_key A keys d of Some (Some (key, q)) \<Rightarrow> Some (key, q, addr) | _ \<Rightarrow> None) ds"

lemma opened_simps [simp]:
  "opened A keys [] = []"
  "opened A keys ((d, addr) # ds) =
     (case find_key A keys d of Some (Some (key, q)) \<Rightarrow> [(key, q, addr)] | _ \<Rightarrow> []) @ opened A keys ds"
  by (auto simp: opened_def List.map_filter_def split: option.splits)

lemma obfs_admit_all_exact:
  assumes "aead_contract A"
  shows "obfs_admit_all A keys ds s =
    Some (map ObfsAdmitted (admitted_part s (opened A keys ds)) @ map ObfsRefused (drop (permits s) (opened A keys ds)),
      s\<lparr>permits := permits s - length (opened A keys ds), running := running s @ admitted_part s (opened A keys ds)\<rparr>)"
proof (induction ds arbitrary: s)
  case (Cons d ds)
  obtain b addr where d: "d = (b, addr)" by (cases d)
  obtain found where f: "find_key A keys b = Some found" using aead_contract.find_key_total [OF assms] by blast
  show ?case
  proof (cases found)
    case None
    then show ?thesis by (simp add: d f Cons.IH)
  next
    case (Some kq)
    obtain k q where "kq = (k, q)" by (cases kq)
    with Some show ?thesis
      by (cases "permits s") (simp_all add: d f Cons.IH obfs_admit_def spawn_def parts)
  qed
qed (simp add: parts)

section \<open>Properties\<close>

text \<open>C30: A turn of the plain listener gives the free permits to the first queries of its batch, the free
  places of the backlog to the next and refuses the others: it counts all of them, keeps their order, and
  is one of the traces that the steps of the server allow.\<close>

theorem plain_turn_refines:
  assumes "server_trace s0 es s" "batch s = []" "plain_turn h rs m s = (m', es', s')"
  shows "\<exists>qs. 1 \<le> length qs \<and> length qs \<le> 256 \<and> m' = count_batch qs m \<and>
    admitted_part s qs @ queued_part s qs @ refused_part s qs = qs \<and>
    es' = map Admitted (admitted_part s qs) @ map Enqueued (queued_part s qs) @ map Refused (refused_part s qs) \<and>
    server_trace s0 (es @ Arrived qs # es') s'"
proof -
  define qs where "qs = receive_batch PAYLOAD_BUF_SIZE RECV_BATCH_MAX h rs"
  have len: "1 \<le> length qs" "length qs \<le> 256"
    using receive_batch_length [of RECV_BATCH_MAX PAYLOAD_BUF_SIZE h rs] by (auto simp: qs_def loop_constants)
  then have "server_step s (Arrived qs) (s\<lparr>batch := qs\<rparr>)"
    using assms(2) by (intro server_step.arrive) (auto simp: loop_constants)
  from server_trace.step [OF assms(1) this] have "server_trace s0 (es @ [Arrived qs]) (s\<lparr>batch := qs\<rparr>)" .
  moreover have r: "admit_all qs s = (es', s')" "m' = count_batch qs m"
    using assms(3) by (auto simp: plain_turn_def qs_def Let_def)
  moreover have "s\<lparr>batch := []\<rparr> = s" using assms(2) by simp
  ultimately have "server_trace s0 (es @ Arrived qs # es') s'"
    using admit_all_trace [where s = s and qs = qs and s0 = s0 and es = "es @ [Arrived qs]" and es' = es' and s' = s'] by simp
  with len r show ?thesis using admit_all_exact [of qs s] parts_together [of s qs] by (metis prod.inject)
qed

text \<open>With one free permit the second of two queries waits.\<close>

definition one_permit :: "(bytes \<times> socket_addr) admission" where
  "one_permit = server_start\<lparr>permits := 1\<rparr>"

theorem plain_turn_refines_witness:
  "\<exists>m es s' qs. plain_turn ([1], SockV4 (10, 0, 0, 1) 53) [Datagram [2] (SockV4 (10, 0, 0, 2) 53)] None one_permit = (m, es, s') \<and>
     server_trace one_permit (Arrived qs # es) s' \<and> length (backlog s') = 1"
proof -
  let ?t = "plain_turn ([1], SockV4 (10, 0, 0, 1) 53) [Datagram [2] (SockV4 (10, 0, 0, 2) 53)] None one_permit"
  obtain m es s' where t: "?t = (m, es, s')" by (cases ?t)
  have "batch one_permit = []" by (simp add: one_permit_def server_start_def)
  from plain_turn_refines [OF server_trace.start this t]
  obtain qs where "server_trace one_permit (Arrived qs # es) s'" by auto
  moreover have "length (backlog s') = 1"
    using t by (simp add: plain_turn_def receive_batch_def loop_constants numeral_nat one_permit_def server_start_def
        admit_def spawn_def split: prod.splits) auto
  ultimately show ?thesis using t by blast
qed

text \<open>A turn of the obfuscated listener never panics. It gives the free permits to the first queries that
  a key opens and refuses the others, without a backlog; a datagram that no key opens takes no permit, but
  it is counted as a request.\<close>

theorem obfs_turn_exact:
  assumes "aead_contract A"
  shows "\<exists>ds. 1 \<le> length ds \<and> length ds \<le> 64 \<and>
    obfs_turn A keys h rs m s =
      Some (count_batch ds m,
        map ObfsAdmitted (admitted_part s (opened A keys ds)) @ map ObfsRefused (drop (permits s) (opened A keys ds)),
        s\<lparr>permits := permits s - length (opened A keys ds), running := running s @ admitted_part s (opened A keys ds)\<rparr>)"
proof -
  define ds where "ds = receive_batch OBFS_PAYLOAD_BUF_SIZE OBFS_RECV_BATCH_MAX h rs"
  have "1 \<le> length ds" "length ds \<le> 64"
    using receive_batch_length [of OBFS_RECV_BATCH_MAX OBFS_PAYLOAD_BUF_SIZE h rs] by (auto simp: ds_def loop_constants)
  then show ?thesis by (intro exI [of _ ds]) (simp add: obfs_turn_def obfs_admit_all_exact [OF assms] flip: ds_def)
qed

theorem obfs_turn_exact_witness:
  "\<exists>m es s'. obfs_turn xor_aead [7] ([1, 2, 3], SockV4 (10, 0, 0, 1) 53) [] (Some metrics_new) server_start = Some (m, es, s') \<and>
     m = count_batch [()] (Some metrics_new) \<and> es = []"
proof -
  obtain ds where ds: "obfs_turn xor_aead [7] ([1, 2, 3], SockV4 (10, 0, 0, 1) 53) [] (Some metrics_new) server_start =
      Some (count_batch ds (Some metrics_new),
        map ObfsAdmitted (admitted_part server_start (opened xor_aead [7] ds)) @
        map ObfsRefused (drop (permits (server_start :: (u8 \<times> bytes \<times> socket_addr) admission)) (opened xor_aead [7] ds)),
        server_start\<lparr>permits := permits (server_start :: (u8 \<times> bytes \<times> socket_addr) admission) - length (opened xor_aead [7] ds),
          running := running server_start @ admitted_part server_start (opened xor_aead [7] ds)\<rparr>)"
    using obfs_turn_exact [OF xor.aead_contract_axioms, of "[7]" "([1, 2, 3], SockV4 (10, 0, 0, 1) 53)" "[]" "Some metrics_new" server_start]
    by blast
  have "obfs_turn xor_aead [7] ([1, 2, 3], SockV4 (10, 0, 0, 1) 53) [] (Some metrics_new) server_start =
      Some (count_batch [()] (Some metrics_new), [], server_start)"
    by (simp add: obfs_turn_def receive_batch_def loop_constants obfs_constants numeral_nat obfs_decode_def count_batch_def)
  with ds show ?thesis by auto
qed

end
