(* ===== verification/Config_Reload.thy ===== *)
theory Config_Reload
  imports Response_Cache Domain_Trie
begin

text \<open>
  Hot reload (\<open>watch_conf_and_reload\<close> of \<open>dns_relay/src/conf.rs\<close> and \<open>resolver_proxy/src/conf.rs\<close>): every
  tick compares the modification time of the configuration file with the last one seen and, when it
  differs, reads the file; what it says replaces the rules, and the relay purges its cache.

  Reading and parsing the file (\<open>load_conf\<close>) is the parameter \<open>loaded\<close> of a tick, \<open>metadata\<close> its
  modification time unless \<open>stat\<close> failed. Of the configuration only the rule lists matter here.
\<close>

record conf =
  drop_list :: "rstr list"
  redirect_list :: "(rstr \<times> rstr) list"

record 'c watched =
  last_mtime :: "nat option"
  current_conf :: conf
  rule_trie :: domain_trie
  rule_cache :: 'c

definition conf_rules :: "(rstr \<Rightarrow> rstr) \<Rightarrow> (rstr \<Rightarrow> rstr option) \<Rightarrow> conf \<Rightarrow> domain_trie" where
  "conf_rules uni fs c = build uni fs (drop_list c) (redirect_list c)"

definition watch_tick ::
  "'c cache_ops \<Rightarrow> (rstr \<Rightarrow> rstr) \<Rightarrow> (rstr \<Rightarrow> rstr option) \<Rightarrow> nat option \<Rightarrow> conf option \<Rightarrow> 'c watched \<Rightarrow> 'c watched" where
  "watch_tick L uni fs metadata loaded w =
     (case metadata of
        None \<Rightarrow> w
      | Some mtime \<Rightarrow>
          if Some mtime = last_mtime w then w
          else
            let w = w\<lparr>last_mtime := Some mtime\<rparr> in
            (case loaded of
               Some new_conf \<Rightarrow>
                 w\<lparr>rule_trie := conf_rules uni fs new_conf,
                   rule_cache := remove_domains_from_cache L uni (drop_list new_conf) (rule_cache w),
                   current_conf := new_conf\<rparr>
             | None \<Rightarrow> w))"

text \<open>The proxy leaves its cache alone.\<close>

definition proxy_watch_tick ::
  "(rstr \<Rightarrow> rstr) \<Rightarrow> (rstr \<Rightarrow> rstr option) \<Rightarrow> nat option \<Rightarrow> conf option \<Rightarrow> 'c watched \<Rightarrow> 'c watched" where
  "proxy_watch_tick uni fs metadata loaded w =
     (case metadata of
        None \<Rightarrow> w
      | Some mtime \<Rightarrow>
          if Some mtime = last_mtime w then w
          else
            let w = w\<lparr>last_mtime := Some mtime\<rparr> in
            (case loaded of
               Some new_conf \<Rightarrow> w\<lparr>rule_trie := conf_rules uni fs new_conf, current_conf := new_conf\<rparr>
             | None \<Rightarrow> w))"

definition in_force :: "(rstr \<Rightarrow> rstr) \<Rightarrow> (rstr \<Rightarrow> rstr option) \<Rightarrow> 'c watched \<Rightarrow> bool" where
  "in_force uni fs w \<longleftrightarrow> rule_trie w = conf_rules uni fs (current_conf w)"

lemma watch_tick_same: "metadata = last_mtime w \<Longrightarrow> watch_tick L uni fs metadata loaded w = w"
  by (auto simp: watch_tick_def split: option.split)

lemma watch_tick_seen:
  "metadata \<noteq> None \<Longrightarrow> last_mtime (watch_tick L uni fs metadata loaded w) = metadata"
  by (auto simp: watch_tick_def Let_def split: option.split)

lemma proxy_tick_rules:
  "rule_trie (proxy_watch_tick uni fs metadata loaded w) = rule_trie (watch_tick L uni fs metadata loaded w)
   \<and> current_conf (proxy_watch_tick uni fs metadata loaded w) = current_conf (watch_tick L uni fs metadata loaded w)
   \<and> rule_cache (proxy_watch_tick uni fs metadata loaded w) = rule_cache w"
  by (auto simp: watch_tick_def proxy_watch_tick_def Let_def split: option.split)

section \<open>Properties\<close>

text \<open>C25: After a tick that saw a new modification time, the rules in force are those of the new file
  and no question on its drop patterns is served from the cache, while other cached answers stay; a
  file that cannot be read or parsed changes nothing but is not read again until it is touched.\<close>

theorem reload_takes_effect:
  assumes "cache_backend L recents cap" "Some mtime \<noteq> last_mtime w"
  shows "watch_tick L uni fs (Some mtime) loaded' (watch_tick L uni fs (Some mtime) loaded w)
      = watch_tick L uni fs (Some mtime) loaded w \<and>
    (case loaded of
       Some c \<Rightarrow> in_force uni fs (watch_tick L uni fs (Some mtime) loaded w) \<and>
         current_conf (watch_tick L uni fs (Some mtime) loaded w) = c \<and>
         fst (cache_lookup L now k (rule_cache (watch_tick L uni fs (Some mtime) loaded w))) =
           (if list_ex (\<lambda>pattern. matches_domain_pattern uni (key_name k) pattern) (drop_list c) then None
            else fst (cache_lookup L now k (rule_cache w)))
     | None \<Rightarrow> watch_tick L uni fs (Some mtime) loaded w = w\<lparr>last_mtime := Some mtime\<rparr>)"
proof -
  have "watch_tick L uni fs (Some mtime) loaded' (watch_tick L uni fs (Some mtime) loaded w)
      = watch_tick L uni fs (Some mtime) loaded w"
    by (rule watch_tick_same) (simp add: watch_tick_seen)
  moreover have "fst (cache_lookup L now k (remove_domains_from_cache L uni (drop_list c) (rule_cache w))) =
      (if list_ex (\<lambda>pattern. matches_domain_pattern uni (key_name k) pattern) (drop_list c) then None
       else fst (cache_lookup L now k (rule_cache w)))" for c :: conf
    by (simp add: cache_backend.cache_lookup_cached [OF assms(1)] cached_def
        cache_backend.map_of_remove_domains [OF assms(1)])
  ultimately show ?thesis
    using assms(2) by (cases loaded) (simp_all add: watch_tick_def in_force_def)
qed

theorem reload_takes_effect_witness:
  "in_force (\<lambda>s. s) (\<lambda>_. None) (watch_tick list_lru (\<lambda>s. s) (\<lambda>_. None) (Some 2)
     (Some \<lparr>drop_list = [lit ''a.b''], redirect_list = []\<rparr>)
     \<lparr>last_mtime = Some 1, current_conf = \<lparr>drop_list = [], redirect_list = []\<rparr>, rule_trie = empty_trie, rule_cache = (3, [])\<rparr>)"
proof -
  let ?w = "\<lparr>last_mtime = Some 1, current_conf = \<lparr>drop_list = [], redirect_list = []\<rparr>, rule_trie = empty_trie,
    rule_cache = (3, [])\<rparr> :: (cache_key, cache_entry) recency watched"
  have "Some 2 \<noteq> last_mtime ?w" by simp
  from reload_takes_effect [OF list_cache.cache_backend_axioms this, of "\<lambda>s. s" "\<lambda>_. None" None
      "Some \<lparr>drop_list = [lit ''a.b''], redirect_list = []\<rparr>"]
  show ?thesis unfolding option.case by blast
qed

end
