(* ===== verification/Interleaving.thy ===== *)
theory Interleaving
  imports Server_Loop Config_Reload
begin

text \<open>
  The handlers of many queries, the flush task of the history and the reloads of the rules, interleaved over the
  state they share (\<open>dns_relay/src/handler.rs\<close>, \<open>resolve_query\<close> and \<open>handle_query\<close>, run by the tasks that
  \<open>run_server\<close> spawns; \<open>watch_conf_and_reload\<close> of \<open>dns_relay/src/conf.rs\<close>). A task keeps the rules that were in
  force when it was spawned (\<open>rule_trie.load_full()\<close>). It is cut where it waits and where it meets the
  others: \<open>query_front\<close>, \<open>query_ask\<close>, \<open>query_settle\<close>, each attempt of \<open>push_many\<close>, and the sending of the reply,
  which comes after the reply has been counted.

  \<open>answers\<close> and \<open>conf_reads\<close> are ghosts: every reply an upstream or a relay gave, with the question it was for;
  what every load of the configuration found in its file and in the list files that the rules name.
\<close>

section \<open>Tasks\<close>

datatype phase =
    Fresh
  | Asking rstr cache_key
  | Answering rstr cache_key "error + bytes"
  | Recording entry bytes \<comment> \<open>in the loop of \<open>push_many\<close>\<close>
  | Replying bytes \<comment> \<open>\<open>resolve_query\<close> has returned, the reply is not sent yet\<close>

record task =
  payload :: bytes
  task_rules :: domain_trie
  phase :: phase

type_synonym conf_read = "rstr option \<times> (rstr \<Rightarrow> rstr option)"

record ('c, 'conn, 'k) world =
  shared :: "('c, 'conn, 'k) relay_state"
  current_rules :: domain_trie
  tasks :: "task list"
  replies :: "(bytes \<times> domain_trie \<times> bytes) list"
  answers :: "(cache_key \<times> bytes) list"
  conf_file :: "rstr option"
  conf_reads :: "conf_read list"

abbreviation answer_of :: "cache_key \<Rightarrow> error + bytes \<Rightarrow> (cache_key \<times> bytes) list" where
  "answer_of k r \<equiv> (case r of Inl e \<Rightarrow> [] | Inr b \<Rightarrow> [(k, b)])"

text \<open>The task after its answer has been settled; without a reply it has ended.\<close>

definition settled_task :: "task \<Rightarrow> entry option \<Rightarrow> bytes option \<Rightarrow> task list" where
  "settled_task t e r =
     (case r of
        None \<Rightarrow> []
      | Some b \<Rightarrow> [t\<lparr>phase := (case e of None \<Rightarrow> Replying b | Some e \<Rightarrow> Recording e b)\<rparr>])"

text \<open>\<open>ld\<close> is \<open>load_conf\<close> on the content of the file. A reload replaces the rules, then purges the cache.\<close>

inductive world_step ::
  "('c, 'conn, 'k) relay_server \<Rightarrow> (rstr option \<Rightarrow> conf option) \<Rightarrow> ('c, 'conn, 'k) world \<Rightarrow> ('c, 'conn, 'k) world \<Rightarrow> bool"
  for E ld where
  accept: "world_step E ld w (w\<lparr>tasks := tasks w @ [\<lparr>payload = p, task_rules = current_rules w, phase = Fresh\<rparr>]\<rparr>)"
| front_silent: "tasks w = ts @ t # ts' \<Longrightarrow> phase t = Fresh \<Longrightarrow>
    query_front E (task_rules t) now (payload t) (shared w) = Some (Done None, s') \<Longrightarrow>
    world_step E ld w (w\<lparr>shared := s', tasks := ts @ ts'\<rparr>)"
| front_reply: "tasks w = ts @ t # ts' \<Longrightarrow> phase t = Fresh \<Longrightarrow>
    query_front E (task_rules t) now (payload t) (shared w) = Some (Done (Some b), s') \<Longrightarrow>
    world_step E ld w (w\<lparr>shared := s', tasks := ts @ t\<lparr>phase := Replying b\<rparr> # ts'\<rparr>)"
| front_ask: "tasks w = ts @ t # ts' \<Longrightarrow> phase t = Fresh \<Longrightarrow>
    query_front E (task_rules t) now (payload t) (shared w) = Some (Ask d k, s') \<Longrightarrow>
    world_step E ld w (w\<lparr>shared := s', tasks := ts @ t\<lparr>phase := Asking d k\<rparr> # ts'\<rparr>)"
| ask: "tasks w = ts @ t # ts' \<Longrightarrow> phase t = Asking d k \<Longrightarrow>
    query_ask E timing nonce vpn src d (payload t) (shared w) = Some (r, s') \<Longrightarrow>
    world_step E ld w (w\<lparr>shared := s', tasks := ts @ t\<lparr>phase := Answering d k r\<rparr> # ts',
      answers := answers w @ answer_of k r\<rparr>)"
| settle: "tasks w = ts @ t # ts' \<Longrightarrow> phase t = Answering d k result \<Longrightarrow>
    query_settle E now d k (payload t) result (shared w) = Some ((e, r), s') \<Longrightarrow>
    world_step E ld w (w\<lparr>shared := s', tasks := ts @ settled_task t e r @ ts'\<rparr>)"
| record_try: "tasks w = ts @ t # ts' \<Longrightarrow> phase t = Recording e b \<Longrightarrow>
    push_attempt e (hist (shared w)) = (ok, h) \<Longrightarrow>
    world_step E ld w (w\<lparr>shared := (shared w)\<lparr>hist := h\<rparr>,
      tasks := ts @ t\<lparr>phase := (if ok then Replying b else Recording e b)\<rparr> # ts'\<rparr>)"
| flush: "flush_step (max_lines E) (hist (shared w)) written lost h \<Longrightarrow>
    world_step E ld w (w\<lparr>shared := (shared w)\<lparr>hist := h\<rparr>\<rparr>)"
| reply_sent: "tasks w = ts @ t # ts' \<Longrightarrow> phase t = Replying b \<Longrightarrow>
    world_step E ld w (w\<lparr>tasks := ts @ ts', replies := replies w @ [(payload t, task_rules t, b)]\<rparr>)"
| edit: "world_step E ld w (w\<lparr>conf_file := content\<rparr>)"
| new_rules: "ld (conf_file w) = Some c \<Longrightarrow>
    world_step E ld w (w\<lparr>current_rules := conf_rules (lower E) fs c, conf_reads := conf_reads w @ [(conf_file w, fs)]\<rparr>)"
| purge: "(content, fs) \<in> set (conf_reads w) \<Longrightarrow> ld content = Some c \<Longrightarrow>
    world_step E ld w (w\<lparr>shared := (shared w)\<lparr>cache :=
      remove_domains_from_cache (lru_ops E) (lower E) (drop_list c) (cache (shared w))\<rparr>\<rparr>)"

abbreviation world_steps where "world_steps E ld \<equiv> (world_step E ld)\<^sup>*\<^sup>*"

section \<open>What holds in every interleaving\<close>

definition question_of :: "('c, 'conn, 'k) relay_server \<Rightarrow> task \<Rightarrow> rstr \<Rightarrow> cache_key \<Rightarrow> bool" where
  "question_of E t d k \<longleftrightarrow> 12 \<le> length (payload t) \<and> (\<exists>qe. parse_domain (lower E) (payload t) 12 = Some (Some (d, qe))
     \<and> k = question_key (payload t) d qe) \<and> check_rules (lower E) d (task_rules t) = RuleNone"

text \<open>Where a reply to the query \<open>p\<close> under the rules \<open>tr\<close> may come from.\<close>

definition justified ::
  "('c, 'conn, 'k) relay_server \<Rightarrow> (cache_key \<times> bytes) list \<Rightarrow> bytes \<times> domain_trie \<times> bytes \<Rightarrow> bool" where
  "justified E given = (\<lambda>(p, tr, r). 12 \<le> length p \<and> (\<exists>d qe. parse_domain (lower E) p 12 = Some (Some (d, qe)) \<and>
     (case check_rules (lower E) d tr of
        RuleDrop \<Rightarrow> r = p[2 := 0x81, 3 := 0x83]
      | RuleRedirect ips \<Rightarrow> craft_redirect_response p qe ips = Some (Some r)
      | RuleNone \<Rightarrow> r = p[2 := 0x81, 3 := 0x82] \<or>
          (\<exists>b. (question_key p d qe, b) \<in> set given \<and> r = with_txid b (p ! 0) (p ! 1)))))"

definition task_ok :: "('c, 'conn, 'k) relay_server \<Rightarrow> (cache_key \<times> bytes) list \<Rightarrow> task \<Rightarrow> bool" where
  "task_ok E given t \<longleftrightarrow>
     (case phase t of
        Fresh \<Rightarrow> True
      | Asking d k \<Rightarrow> question_of E t d k
      | Answering d k r \<Rightarrow> question_of E t d k \<and> (\<forall>b. r = Inr b \<longrightarrow> (k, b) \<in> set given)
      | Recording e b \<Rightarrow> justified E given (payload t, task_rules t, b)
      | Replying b \<Rightarrow> justified E given (payload t, task_rules t, b))"

definition cache_ok ::
  "('c \<Rightarrow> (cache_key \<times> cache_entry) list) \<Rightarrow> (cache_key \<times> bytes) list \<Rightarrow> 'c \<Rightarrow> bool" where
  "cache_ok recents given c \<longleftrightarrow>
     (\<forall>k e. map_of (recents c) k = Some e \<longrightarrow> (\<exists>b. (k, b) \<in> set given \<and> packet e = stored_packet b))"

definition world_ok ::
  "('c, 'conn, 'k) relay_server \<Rightarrow> ('c \<Rightarrow> (cache_key \<times> cache_entry) list) \<Rightarrow> ('c, 'conn, 'k) world \<Rightarrow> bool" where
  "world_ok E recents w \<longleftrightarrow> list_all (task_ok E (answers w)) (tasks w) \<and> list_all (justified E (answers w)) (replies w)
     \<and> cache_ok recents (answers w) (cache (shared w))"

lemma with_txid_stored [simp]: "with_txid (stored_packet b) t0 t1 = with_txid b t0 t1"
  by (simp add: with_txid_def stored_packet_def list_update_swap)

lemma justified_mono: "set given \<subseteq> set given' \<Longrightarrow> justified E given x \<Longrightarrow> justified E given' x"
  by (auto simp: justified_def split: rule_match.splits prod.splits)

lemma given_mono:
  assumes "set given \<subseteq> set given'"
  shows "task_ok E given t \<Longrightarrow> task_ok E given' t" "justified E given x \<Longrightarrow> justified E given' x"
    "cache_ok recents given c \<Longrightarrow> cache_ok recents given' c"
proof -
  show "task_ok E given t \<Longrightarrow> task_ok E given' t"
    using assms justified_mono [OF assms] by (auto simp: task_ok_def split: phase.splits)
  show "justified E given x \<Longrightarrow> justified E given' x" by (rule justified_mono [OF assms])
  show "cache_ok recents given c \<Longrightarrow> cache_ok recents given' c"
    unfolding cache_ok_def using assms by blast
qed

lemma query_ask_cache: "query_ask E tm nonce vpn src d p s = Some (r, s') \<Longrightarrow> cache s' = cache s"
  by (cases "relay_picker s"; cases tm) (auto simp: query_ask_def bind_eq_Some_conv split: if_splits)

context cache_backend
begin

lemma cache_ok_lookup: "cache_ok recents given c \<Longrightarrow> cache_ok recents given (snd (cache_lookup L now k c))"
  by (auto simp: cache_ok_def map_of_lookup split: option.splits if_splits)

lemma cache_ok_hit:
  assumes "cache_ok recents given c" "cache_lookup L now k c = (Some hit, c')"
  shows "\<exists>b. (k, b) \<in> set given \<and> hit = stored_packet b"
  using assms cache_lookup_cached [of now k c]
  by (auto simp: cache_ok_def cached_def split: option.splits if_splits)

lemma cache_ok_store:
  assumes "cache_ok recents given c" "cache_store L uni now k b c = Some c'" "(k, b) \<in> set given"
  shows "cache_ok recents given c'"
  unfolding cache_ok_def
proof (intro allI impI)
  fix k' e
  assume e: "map_of (recents c') k' = Some e"
  obtain ttl where c': "c' = lru_put L k \<lparr>packet = stored_packet b, expires_at = now + ttl\<rparr> c"
    using assms(2) by (auto simp: cache_store_Some)
  show "\<exists>b. (k', b) \<in> set given \<and> packet e = stored_packet b"
  proof (cases "k' = k")
    case True
    then show ?thesis using e c' map_of_put_same assms(3) by auto
  next
    case False
    then have "map_of (recents c) k' = Some e" using e c' map_of_put_other by blast
    then show ?thesis using assms(1) by (auto simp: cache_ok_def)
  qed
qed

lemma cache_ok_purge: "cache_ok recents given c \<Longrightarrow> cache_ok recents given (remove_domains_from_cache L uni ps c)"
  by (simp add: cache_ok_def map_of_remove_domains)

end

text \<open>One step, task by task.\<close>

lemma front_justified:
  assumes "query_front E tr now p s = Some (Done (Some r), s')" "cache_backend (lru_ops E) recents cap"
    and "cache_ok recents given (cache s)"
  shows "justified E given (p, tr, r) \<and> cache_ok recents given (cache s')"
  using assms(1)
proof (rule query_front_Done)
  fix d qe hit c
  assume a: "12 \<le> length p" "parse_domain (lower E) p 12 = Some (Some (d, qe))" "check_rules (lower E) d tr = RuleNone"
    "cache_lookup (lru_ops E) now (question_key p d qe) (cache s) = (Some hit, c)"
    "r = with_txid hit (p ! 0) (p ! 1)" "s' = incr_cached (s\<lparr>cache := c\<rparr>)"
  obtain b where "(question_key p d qe, b) \<in> set given" "hit = stored_packet b"
    using cache_backend.cache_ok_hit [OF assms(2,3) a(4)] by blast
  moreover have "cache_ok recents given c"
    using cache_backend.cache_ok_lookup [OF assms(2,3), of now "question_key p d qe"] a(4) by simp
  ultimately show ?thesis using a by (auto simp: justified_def incr_def)
qed (use assms(3) in \<open>auto simp: justified_def incr_def\<close>)

lemma settle_justified:
  assumes "query_settle E now d k (payload t) r s = Some ((e, x), s')" "question_of E t d k"
    and "\<forall>b. r = Inr b \<longrightarrow> (k, b) \<in> set given"
    and "cache_backend (lru_ops E) recents cap" "cache_ok recents given (cache s)"
  shows "list_all (task_ok E given) (settled_task t e x) \<and> cache_ok recents given (cache s')"
proof -
  have len: "12 \<le> length (payload t)" using assms(2) by (simp add: question_of_def)
  from assms(1) len show ?thesis
  proof (cases rule: query_settle_cases)
    case (1 reply c)
    then have "(k, reply) \<in> set given" using assms(3) by simp
    moreover from this have "cache_ok recents given c"
      using cache_backend.cache_ok_store [OF assms(4,5) 1(2)] by blast
    moreover have "justified E given (payload t, task_rules t, with_txid reply (payload t ! 0) (payload t ! 1))"
      using \<open>(k, reply) \<in> set given\<close> assms(2) by (auto simp: justified_def question_of_def)
    ultimately show ?thesis using 1
      by (simp add: settled_task_def task_ok_def justified_def incr_def split: option.split)
  next
    case (2 err)
    then show ?thesis using assms(2,5)
      by (auto simp: settled_task_def task_ok_def justified_def question_of_def incr_def)
  qed
qed

lemma world_step_answers: "world_step E ld w w' \<Longrightarrow> set (answers w) \<subseteq> set (answers w')"
  by (induction rule: world_step.induct) auto

lemma world_step_ok:
  assumes "world_step E ld w w'" "cache_backend (lru_ops E) recents cap" "world_ok E recents w"
  shows "world_ok E recents w'"
  using assms(1)
proof cases
  case (front_silent ts t ts' now s')
  then show ?thesis using query_front_Done_None [OF front_silent(4)] assms(3) by (simp add: world_ok_def)
next
  case (front_reply ts t ts' now b s')
  then have "justified E (answers w) (payload t, task_rules t, b) \<and> cache_ok recents (answers w) (cache s')"
    using front_justified [OF _ assms(2)] assms(3) by (simp add: world_ok_def)
  then show ?thesis using front_reply assms(3) by (simp add: world_ok_def task_ok_def)
next
  case (front_ask ts t ts' now d k s')
  then obtain qe c where q: "12 \<le> length (payload t)" "parse_domain (lower E) (payload t) 12 = Some (Some (d, qe))"
    "check_rules (lower E) d (task_rules t) = RuleNone" "k = question_key (payload t) d qe" "s' = (shared w)\<lparr>cache := c\<rparr>"
    "cache_lookup (lru_ops E) now k (cache (shared w)) = (None, c)"
    using query_front_Ask by blast
  then have "task_ok E (answers w) (t\<lparr>phase := Asking d k\<rparr>)" by (auto simp: task_ok_def question_of_def)
  moreover have "cache_ok recents (answers w) c"
    using cache_backend.cache_ok_lookup [OF assms(2), of "answers w" "cache (shared w)" now k] assms(3) q(6)
    by (simp add: world_ok_def)
  ultimately show ?thesis using front_ask q assms(3) by (simp add: world_ok_def)
next
  case (ask ts t ts' d k timing nonce vpn src r s')
  have mono: "set (answers w) \<subseteq> set (answers w @ answer_of k r)" by simp
  have "task_ok E (answers w) t" using ask assms(3) by (simp add: world_ok_def)
  then have "task_ok E (answers w @ answer_of k r) (t\<lparr>phase := Answering d k r\<rparr>)"
    using ask by (auto simp: task_ok_def question_of_def)
  moreover have "list_all (task_ok E (answers w @ answer_of k r)) (ts @ ts')"
    "list_all (justified E (answers w @ answer_of k r)) (replies w)"
    "cache_ok recents (answers w @ answer_of k r) (cache (shared w))"
    using ask assms(3) by (auto simp: world_ok_def list_all_iff intro: given_mono [OF mono])
  moreover have "cache s' = cache (shared w)" using ask query_ask_cache by blast
  ultimately show ?thesis using ask by (simp add: world_ok_def)
next
  case (settle ts t ts' d k result now e r s')
  then have "question_of E t d k" "\<forall>b. result = Inr b \<longrightarrow> (k, b) \<in> set (answers w)"
    using assms(3) by (auto simp: world_ok_def task_ok_def)
  then have "list_all (task_ok E (answers w)) (settled_task t e r) \<and> cache_ok recents (answers w) (cache s')"
    using settle_justified [OF _ _ _ assms(2)] settle assms(3) by (simp add: world_ok_def)
  then show ?thesis using settle assms(3) by (simp add: world_ok_def)
qed (use assms(3) cache_backend.cache_ok_purge [OF assms(2)] in \<open>auto simp: world_ok_def task_ok_def\<close>)

text \<open>The counters, when metrics are on. A reply is counted before it is sent.\<close>

definition outcomes :: "('c, 'conn, 'k) world \<Rightarrow> u64 option" where
  "outcomes w = map_option answered (metric_wrapper (shared w))"

definition unsent :: "task \<Rightarrow> bool" where
  "unsent t \<longleftrightarrow> (case phase t of Recording _ _ \<Rightarrow> True | Replying _ \<Rightarrow> True | _ \<Rightarrow> False)"

definition counted_replies :: "('c, 'conn, 'k) world \<Rightarrow> nat" where
  "counted_replies w = length (replies w) + length (filter unsent (tasks w))"

lemma unsent_simps [simp]:
  "phase t = Fresh \<Longrightarrow> \<not> unsent t" "phase t = Asking d k \<Longrightarrow> \<not> unsent t" "phase t = Answering d k r \<Longrightarrow> \<not> unsent t"
  "phase t = Recording e b \<Longrightarrow> unsent t" "phase t = Replying b \<Longrightarrow> unsent t"
  by (simp_all add: unsent_def)

lemma front_metrics:
  "query_front E tr now p s = Some (Done (Some r), s') \<Longrightarrow>
     map_option answered (metric_wrapper s') = map_option (\<lambda>m. answered m + 1) (metric_wrapper s)"
  by (erule query_front_Done; cases "metric_wrapper s") (auto simp: incr_def answered_def)

lemma settle_metrics:
  assumes "query_settle E now d k p r s = Some ((e, x), s')" "12 \<le> length p"
  shows "map_option answered (metric_wrapper s') = map_option (\<lambda>m. answered m + 1) (metric_wrapper s) \<and> x \<noteq> None"
  using assms by (elim query_settle_cases; cases "metric_wrapper s") (auto simp: incr_def answered_def)

lemma settled_unsent: "x \<noteq> None \<Longrightarrow> length (filter unsent (settled_task t e x)) = 1"
  by (auto simp: settled_task_def unsent_def split: option.split)

lemma world_step_outcomes:
  assumes "world_step E ld w w'" "cache_backend (lru_ops E) recents cap" "world_ok E recents w"
  shows "outcomes w' = map_option (\<lambda>n. n + of_nat (counted_replies w' - counted_replies w)) (outcomes w)
    \<and> counted_replies w \<le> counted_replies w'"
  using assms(1)
proof cases
  case (front_silent ts t ts' now s')
  then show ?thesis using query_front_Done_None [OF front_silent(4)]
    by (simp add: outcomes_def counted_replies_def option.map_ident)
next
  case (front_reply ts t ts' now b s')
  with front_metrics have
    "map_option answered (metric_wrapper s') = map_option (\<lambda>m. answered m + 1) (metric_wrapper (shared w))"
    by blast
  with front_reply show ?thesis by (simp add: outcomes_def counted_replies_def option.map_comp comp_def)
next
  case (front_ask ts t ts' now d k s')
  then have "metric_wrapper s' = metric_wrapper (shared w)"
    using query_front_Ask by (metis relay_state.simps(2) relay_state.surjective relay_state.update_convs(1))
  with front_ask show ?thesis by (simp add: outcomes_def counted_replies_def option.map_ident)
next
  case (ask ts t ts' d k timing nonce vpn src r s')
  then have "metric_wrapper s' = metric_wrapper (shared w)" using query_ask_metrics by blast
  with ask show ?thesis by (simp add: outcomes_def counted_replies_def option.map_ident)
next
  case (settle ts t ts' d k result now e r s')
  have "12 \<le> length (payload t)" using settle assms(3) by (simp add: world_ok_def task_ok_def question_of_def)
  with settle settle_metrics have m:
    "map_option answered (metric_wrapper s') = map_option (\<lambda>m. answered m + 1) (metric_wrapper (shared w))" "r \<noteq> None"
    by blast+
  with settled_unsent [OF m(2), of t e] settle show ?thesis
    by (simp add: outcomes_def counted_replies_def option.map_comp comp_def)
next
  case (record_try ts t ts' e b ok h)
  then show ?thesis by (simp add: outcomes_def counted_replies_def option.map_ident)
qed (simp_all add: outcomes_def counted_replies_def option.map_ident)

text \<open>\<open>reads\<close> is what \<open>run_server\<close> has loaded before.\<close>

definition world_start :: "('c, 'conn, 'k) relay_state \<Rightarrow> domain_trie \<Rightarrow> conf_read list \<Rightarrow> ('c, 'conn, 'k) world" where
  "world_start s tr reads = \<lparr>shared = s, current_rules = tr, tasks = [], replies = [], answers = [],
     conf_file = (if reads = [] then None else fst (last reads)), conf_reads = reads\<rparr>"

lemma world_start_ok: "recents (cache s) = [] \<Longrightarrow> world_ok E recents (world_start s tr reads)"
  by (simp add: world_ok_def world_start_def cache_ok_def)

text \<open>All rules in play were built from a configuration that was read.\<close>

definition rules_read ::
  "('c, 'conn, 'k) relay_server \<Rightarrow> (rstr option \<Rightarrow> conf option) \<Rightarrow> conf_read list \<Rightarrow> domain_trie \<Rightarrow> bool" where
  "rules_read E ld reads tr \<longleftrightarrow>
     (\<exists>content fs c. (content, fs) \<in> set reads \<and> ld content = Some c \<and> tr = conf_rules (lower E) fs c)"

definition rules_loaded :: "('c, 'conn, 'k) relay_server \<Rightarrow> (rstr option \<Rightarrow> conf option) \<Rightarrow> ('c, 'conn, 'k) world \<Rightarrow> bool" where
  "rules_loaded E ld w \<longleftrightarrow> rules_read E ld (conf_reads w) (current_rules w) \<and>
     list_all (\<lambda>t. rules_read E ld (conf_reads w) (task_rules t)) (tasks w) \<and>
     list_all (\<lambda>(p, tr, r). rules_read E ld (conf_reads w) tr) (replies w)"

lemma rules_read_more: "rules_read E ld reads tr \<Longrightarrow> rules_read E ld (reads @ reads') tr"
  by (auto simp: rules_read_def)

lemma world_step_rules: "world_step E ld w w' \<Longrightarrow> rules_loaded E ld w \<Longrightarrow> rules_loaded E ld w'"
proof (induction rule: world_step.induct)
  case (settle w ts t ts' d k result now e r s')
  then show ?case by (auto simp: rules_loaded_def settled_task_def split: option.split)
next
  case (new_rules w c fs)
  then have "rules_read E ld (conf_reads w @ [(conf_file w, fs)]) (conf_rules (lower E) fs c)"
    by (auto simp: rules_read_def)
  with new_rules show ?case
    by (auto simp: rules_loaded_def list_all_iff intro: rules_read_more)
qed (auto simp: rules_loaded_def)

lemma world_steps_rules: "world_steps E ld w w' \<Longrightarrow> rules_loaded E ld w \<Longrightarrow> rules_loaded E ld w'"
  by (induction rule: rtranclp_induct) (auto intro: world_step_rules)

text \<open>What was read stays known, and the first read is that of the start.\<close>

lemma world_steps_reads: "world_steps E ld w w' \<Longrightarrow> prefix (conf_reads w) (conf_reads w')"
proof (induction rule: rtranclp_induct)
  case (step v v')
  from step.hyps(2) have "prefix (conf_reads v) (conf_reads v')" by cases auto
  with step.IH show ?case by (rule prefix_order.trans)
qed simp

lemma world_steps_ok:
  assumes "world_steps E ld w w'" "cache_backend (lru_ops E) recents cap" "world_ok E recents w"
  shows "world_ok E recents w' \<and> counted_replies w \<le> counted_replies w' \<and>
    outcomes w' = map_option (\<lambda>n. n + of_nat (counted_replies w' - counted_replies w)) (outcomes w)"
  using assms(1)
proof induction
  case base
  then show ?case using assms(3) by (simp add: option.map_ident)
next
  case (step u v)
  then have "world_ok E recents u" by simp
  with step show ?case
    using world_step_ok [OF step.hyps(2) assms(2)] world_step_outcomes [OF step.hyps(2) assms(2)]
    by (simp add: option.map_comp comp_def of_nat_diff)
qed

section \<open>A small run for the witnesses\<close>

definition demo_task :: task where
  "demo_task = \<lparr>payload = demo_query, task_rules = empty_trie, phase = Fresh\<rparr>"

text \<open>The reply is counted and not sent yet; then it is sent.\<close>

definition demo_counted_world :: "((cache_key, cache_entry) recency, nat, u8) world" where
  "demo_counted_world = (world_start demo_state_after empty_trie [])
     \<lparr>tasks := [demo_task\<lparr>phase := Replying (with_txid demo_reply 0 7)\<rparr>], answers := [(demo_key, demo_reply)]\<rparr>"

definition demo_world :: "((cache_key, cache_entry) recency, nat, u8) world" where
  "demo_world = (world_start demo_state_after empty_trie [])
     \<lparr>replies := [(demo_query, empty_trie, with_txid demo_reply 0 7)], answers := [(demo_key, demo_reply)]\<rparr>"

lemma demo_settle:
  "query_settle (demo_server demo_reply) 1 (lit ''a.b'') demo_key demo_query (Inr demo_reply) demo_state =
     Some ((None, Some (with_txid demo_reply 0 7)), demo_state_after)"
proof -
  have "parse_a_records demo_reply = Some []" by code_simp
  moreover have "rd demo_query 0 = Some 0" "rd demo_query (Suc 0) = Some 7" by code_simp+
  moreover have "cache demo_state = (4095, [])" by (simp add: demo_state_def)
  ultimately show ?thesis
    by (simp add: query_settle_def cache_store_def demo_ttl history_entry_def accepted_def demo_state_after_def)
qed

lemma demo_counted_reached:
  "world_steps (demo_server demo_reply) ld (world_start demo_state empty_trie []) demo_counted_world"
proof -
  let ?E = "demo_server demo_reply" and ?w0 = "world_start demo_state empty_trie []"
  let ?w1 = "?w0\<lparr>tasks := [demo_task]\<rparr>"
  let ?w2 = "?w1\<lparr>tasks := [demo_task\<lparr>phase := Asking (lit ''a.b'') demo_key\<rparr>]\<rparr>"
  let ?w3 = "?w2\<lparr>tasks := [demo_task\<lparr>phase := Answering (lit ''a.b'') demo_key (Inr demo_reply)\<rparr>], answers := [(demo_key, demo_reply)]\<rparr>"
  have "world_step ?E ld ?w0 ?w1"
    using world_step.accept [of ?E ld ?w0 demo_query] by (simp add: world_start_def demo_task_def)
  moreover have "world_step ?E ld ?w1 ?w2"
    using world_step.front_ask [of ?w1 "[]" demo_task "[]" ?E 0 "lit ''a.b''" demo_key demo_state ld]
    by (simp add: world_start_def demo_front demo_task_def)
  moreover have "world_step ?E ld ?w2 ?w3"
    using world_step.ask [of ?w2 "[]" "demo_task\<lparr>phase := Asking (lit ''a.b'') demo_key\<rparr>" "[]" "lit ''a.b''" demo_key ?E InTime
        "replicate 12 0" False "V6 []" "Inr demo_reply" demo_state ld]
    by (simp add: world_start_def demo_ask demo_task_def)
  moreover have "world_step ?E ld ?w3 demo_counted_world"
    using world_step.settle [of ?w3 "[]" "demo_task\<lparr>phase := Answering (lit ''a.b'') demo_key (Inr demo_reply)\<rparr>" "[]"
        "lit ''a.b''" demo_key "Inr demo_reply" ?E 1 None "Some (with_txid demo_reply 0 7)" demo_state_after ld] demo_settle
    by (simp add: world_start_def demo_counted_world_def demo_task_def settled_task_def)
  ultimately show ?thesis by (meson rtranclp.rtrancl_refl rtranclp.rtrancl_into_rtrancl)
qed

lemma demo_sends: "world_step (demo_server demo_reply) ld demo_counted_world demo_world"
  using world_step.reply_sent [of demo_counted_world "[]" "demo_task\<lparr>phase := Replying (with_txid demo_reply 0 7)\<rparr>" "[]"
      "with_txid demo_reply 0 7" "demo_server demo_reply" ld]
  by (simp add: demo_counted_world_def demo_world_def demo_task_def world_start_def)

lemma demo_world_reached: "world_steps (demo_server demo_reply) ld (world_start demo_state empty_trie []) demo_world"
  using demo_counted_reached demo_sends by (rule rtranclp.rtrancl_into_rtrancl)

section \<open>Properties\<close>

text \<open>However the handlers interleave with each other and with reloads, from an empty cache on:
  every reply that is sent is the one its own rules demand (an NXDOMAIN, or the redirect), or a
  SERVFAIL, or an answer that an upstream gave to the same question, fresh or from the cache, under
  the transaction ID of the query.\<close>

theorem replies_justified:
  assumes "cache_backend (lru_ops E) recents cap" "recents (cache s) = []"
    and "world_steps E ld (world_start s tr reads) w" "(p, tr', r) \<in> set (replies w)"
  shows "12 \<le> length p \<and> (\<exists>d qe. parse_domain (lower E) p 12 = Some (Some (d, qe)) \<and>
     (case check_rules (lower E) d tr' of
        RuleDrop \<Rightarrow> r = p[2 := 0x81, 3 := 0x83]
      | RuleRedirect ips \<Rightarrow> craft_redirect_response p qe ips = Some (Some r)
      | RuleNone \<Rightarrow> r = p[2 := 0x81, 3 := 0x82] \<or>
          (\<exists>b. (question_key p d qe, b) \<in> set (answers w) \<and> r = with_txid b (p ! 0) (p ! 1))))"
proof -
  have "justified E (answers w) (p, tr', r)"
    using world_steps_ok [OF assms(3,1) world_start_ok [where recents = recents, OF assms(2)]] assms(4)
    by (auto simp: world_ok_def list_all_iff)
  then show ?thesis by (simp add: justified_def)
qed

theorem replies_justified_witness:
  "\<exists>b. (demo_key, b) \<in> set (answers demo_world) \<and> with_txid demo_reply 0 7 = with_txid b 0 7"
proof -
  have "snd (cache demo_state) = []" by (simp add: demo_state_def)
  moreover have "(demo_query, empty_trie, with_txid demo_reply 0 7) \<in> set (replies demo_world)" by (simp add: demo_world_def)
  moreover have "check_rules (\<lambda>s. s) (lit ''a.b'') empty_trie = RuleNone" "demo_query ! 0 = 0" "demo_query ! 1 = 7"
    "with_txid demo_reply 0 7 \<noteq> demo_query[2 := 0x81, 3 := 0x82]"
    by code_simp+
  ultimately show ?thesis
    using replies_justified [of "demo_server demo_reply" snd _ demo_state _ empty_trie "[]" demo_world demo_query empty_trie
        "with_txid demo_reply 0 7", OF _ _ demo_world_reached] list_cache.cache_backend_axioms
    by (auto simp: demo_parse demo_question)
qed

text \<open>C33: The counters are exact under every interleaving of handlers, flushes and reloads: with metrics on, the
  six outcome counters have together grown by the replies that have been sent and those that wait to be
  sent, in a handler that has been counted (modulo \<open>2 ^ 64\<close>). A reply is counted first and sent later.\<close>

theorem outcomes_exact:
  assumes "cache_backend (lru_ops E) recents cap" "recents (cache s) = []"
    and "world_steps E ld (world_start s tr reads) w" "metric_wrapper s = Some m"
  shows "\<exists>m'. metric_wrapper (shared w) = Some m' \<and>
    answered m' = answered m + of_nat (length (replies w) + length (filter unsent (tasks w)))"
  using world_steps_ok [OF assms(3,1) world_start_ok [where recents = recents, OF assms(2)]] assms(4)
  by (auto simp: outcomes_def counted_replies_def world_start_def)

text \<open>Before and after the one reply of the example is sent.\<close>

theorem outcomes_exact_witness:
  "\<exists>m'. metric_wrapper (shared demo_counted_world) = Some m' \<and> answered m' = 1 \<and> replies demo_counted_world = []"
proof -
  have cache: "cache_backend (lru_ops (demo_server demo_reply)) snd (\<lambda>c. Suc (fst c))" "snd (cache demo_state) = []"
    using list_cache.cache_backend_axioms by (simp_all add: demo_state_def)
  obtain m where m: "metric_wrapper demo_state = Some m" "answered m = 0"
    by (simp add: demo_state_def answered_def)
  from outcomes_exact [OF cache demo_counted_reached m(1)] m(2) show ?thesis
    by (simp add: demo_counted_world_def world_start_def unsent_def)
qed

end
