(* ===== verification/Served.thy ===== *)
theory Served
  imports Interleaving
begin

text \<open>
  A server as a whole: the listeners, the backlog and the permits of \<open>Server_Loop\<close> composed with handlers
  that run as tasks (\<open>run_server\<close> of \<open>dns_relay/src/main.rs\<close> and of \<open>resolver_proxy/src/main.rs\<close>). A query that
  gets a permit becomes a task (\<open>tokio::spawn\<close>); when the task ends, its permit is free again.

  The handlers are the record \<open>handler_ops\<close>: their steps, their tasks, the queries they have answered, and
  how a task is added. The locale \<open>handler_pool\<close> is what the composition relies on; both programs
  interpret it (\<open>Whole_Relay\<close>, \<open>Whole_Proxy\<close>).

  \<open>silent\<close> is a ghost: the tasks, each with its query and the rules it ran under, that ended without a reply.
\<close>

section \<open>The composed system\<close>

record 'w handler_ops =
  step_of :: "'w \<Rightarrow> 'w \<Rightarrow> bool"
  tasks_in :: "'w \<Rightarrow> task list"
  answered_in :: "'w \<Rightarrow> bytes list"
  spawn_in :: "bytes \<Rightarrow> 'w \<Rightarrow> 'w"

record 'w served =
  admissions :: "bytes admission"
  handlers :: 'w
  silent :: "task list"

abbreviation fresh_task :: "bytes \<Rightarrow> domain_trie \<Rightarrow> task" where
  "fresh_task p tr \<equiv> \<lparr>payload = p, task_rules = tr, phase = Fresh\<rparr>"

text \<open>\<open>listens\<close> are the events of the listeners that the program has.\<close>

inductive served_step ::
  "'w handler_ops \<Rightarrow> (bytes event \<Rightarrow> bool) \<Rightarrow> 'w served \<Rightarrow> bytes event list \<Rightarrow> 'w served \<Rightarrow> bool" for H listens where
  queueing: "server_step (admissions S) e a \<Longrightarrow> listens e \<Longrightarrow> started e = [] \<Longrightarrow> ended e = [] \<Longrightarrow>
    served_step H listens S [e] (S\<lparr>admissions := a\<rparr>)"
| spawning: "server_step (admissions S) e a \<Longrightarrow> listens e \<Longrightarrow> started e = [p] \<Longrightarrow>
    served_step H listens S [e] (S\<lparr>admissions := a, handlers := spawn_in H p (handlers S)\<rparr>)"
| working: "step_of H (handlers S) w \<Longrightarrow> length (tasks_in H w) = length (tasks_in H (handlers S)) \<Longrightarrow>
    served_step H listens S [] (S\<lparr>handlers := w\<rparr>)"
| ending: "step_of H (handlers S) w \<Longrightarrow> tasks_in H (handlers S) = ts @ t # ts' \<Longrightarrow> tasks_in H w = ts @ ts' \<Longrightarrow>
    server_step (admissions S) (Finished (payload t)) a \<Longrightarrow>
    served_step H listens S [Finished (payload t)] (S\<lparr>admissions := a, handlers := w,
      silent := silent S @ (if answered_in H w = answered_in H (handlers S) then [t] else [])\<rparr>)"

inductive served_trace ::
  "'w handler_ops \<Rightarrow> (bytes event \<Rightarrow> bool) \<Rightarrow> 'w served \<Rightarrow> bytes event list \<Rightarrow> 'w served \<Rightarrow> bool" for H listens where
  start: "served_trace H listens S [] S"
| step: "served_trace H listens S es S' \<Longrightarrow> served_step H listens S' es' S'' \<Longrightarrow> served_trace H listens S (es @ es') S''"

definition served_start :: "'w \<Rightarrow> 'w served" where
  "served_start w = \<lparr>admissions = server_start, handlers = w, silent = []\<rparr>"

inductive_cases served_stepE: "served_step H listens S es S'"

lemma served_trace_snoc:
  "served_trace H listens S es S' \<Longrightarrow> served_step H listens S' es' S'' \<Longrightarrow> es'' = es @ es' \<Longrightarrow> served_trace H listens S es'' S''"
  by (auto intro: served_trace.step)

lemma taken_apart:
  assumes "ts @ t # ts' = us @ u # us'" "ts @ ts' = us @ us'"
  shows "t = u"
proof -
  have "add_mset t (mset (ts @ ts')) = add_mset u (mset (us @ us'))"
    using arg_cong [where f = mset, OF assms(1)] by simp
  with assms(2) show ?thesis by simp
qed

section \<open>What the composition relies on\<close>

text \<open>\<open>well\<close> is an invariant of the handlers, \<open>mute\<close> says which tasks may end without a reply.\<close>

locale handler_pool =
  fixes H :: "'w handler_ops"
    and well :: "'w \<Rightarrow> bool"
    and mute :: "task \<Rightarrow> bool"
  assumes step_well: "step_of H w w' \<Longrightarrow> well w \<Longrightarrow> well w'"
    and spawn_step: "step_of H w (spawn_in H p w)"
    and spawn_tasks: "map payload (tasks_in H (spawn_in H p w)) = map payload (tasks_in H w) @ [p]"
    and spawn_answered: "answered_in H (spawn_in H p w) = answered_in H w"
    and step_keeps: "step_of H w w' \<Longrightarrow> length (tasks_in H w') = length (tasks_in H w) \<Longrightarrow>
      map payload (tasks_in H w') = map payload (tasks_in H w) \<and> answered_in H w' = answered_in H w"
    and step_ends: "step_of H w w' \<Longrightarrow> tasks_in H w = ts @ t # ts' \<Longrightarrow> tasks_in H w' = ts @ ts' \<Longrightarrow> well w \<Longrightarrow>
      (answered_in H w' = answered_in H w \<and> mute t) \<or> answered_in H w' = answered_in H w @ [payload t]"
begin

lemma served_trace_handlers: "served_trace H listens S es S' \<Longrightarrow> (step_of H)\<^sup>*\<^sup>* (handlers S) (handlers S')"
proof (induction rule: served_trace.induct)
  case (step S es S' es' S'')
  from step.hyps(2) have "(step_of H)\<^sup>*\<^sup>* (handlers S') (handlers S'')"
    by (rule served_stepE) (auto intro: spawn_step)
  with step.IH show ?case by simp
qed simp

lemma served_trace_server: "served_trace H listens S es S' \<Longrightarrow> server_trace (admissions S) es (admissions S')"
proof (induction rule: served_trace.induct)
  case (start S)
  show ?case by (rule server_trace.start)
next
  case (step S es S' es' S'')
  from step.hyps(2) step.IH show ?case by (auto elim!: served_stepE intro: server_trace.step)
qed

text \<open>Permits and tasks agree, and each query that has ended was answered or is mute.\<close>

definition accounts :: "bytes event list \<Rightarrow> 'w served \<Rightarrow> bool" where
  "accounts es S \<longleftrightarrow>
     mset (running (admissions S)) = mset (map payload (tasks_in H (handlers S))) \<and>
     mset (all_of ended es) = mset (answered_in H (handlers S)) + mset (map payload (silent S)) \<and>
     list_all mute (silent S) \<and> well (handlers S)"

lemma served_step_accounts:
  assumes "served_step H listens S es' S'" "accounts es S"
  shows "accounts (es @ es') S'"
  using assms(1)
proof cases
  case (queueing e a)
  then show ?thesis using assms(2) server_step_conserves [of "admissions S" e a] by (simp add: accounts_def)
next
  case (spawning e a p)
  moreover have "ended e = []" using \<open>started e = [p]\<close> by (cases e) auto
  moreover have "mset (map payload (tasks_in H (spawn_in H p (handlers S)))) = add_mset p (mset (map payload (tasks_in H (handlers S))))"
    unfolding spawn_tasks by simp
  ultimately show ?thesis
    using assms(2) server_step_conserves [of "admissions S" e a] step_well [OF spawn_step]
    by (simp add: accounts_def spawn_answered)
next
  case (working w)
  then show ?thesis using assms(2) step_keeps [of "handlers S" w] step_well [of "handlers S" w]
    by (simp add: accounts_def)
next
  case (ending w ts t ts' a)
  then have run: "mset (running (admissions S)) = add_mset (payload t) (mset (running a))"
    using server_step_conserves [of "admissions S" "Finished (payload t)" a] by simp
  have well: "well (handlers S)" "well w"
    using assms(2) ending step_well by (auto simp: accounts_def)
  show ?thesis
    using assms(2) ending run well step_ends [OF ending(3-5) well(1)] by (auto simp: accounts_def)
qed

lemma served_trace_accounts: "served_trace H listens S es S' \<Longrightarrow> accounts [] S \<Longrightarrow> accounts es S'"
  by (induction rule: served_trace.induct) (auto intro: served_step_accounts)

text \<open>Where every query that arrived is.\<close>

lemma served_accounted:
  assumes "served_trace H listens (served_start w) es S" "well w" "tasks_in H w = []" "answered_in H w = []"
  shows "mset (all_of offered es) =
      mset (answered_in H (handlers S)) + mset (map payload (silent S)) + mset (all_of dropped es)
      + mset (map payload (tasks_in H (handlers S))) + mset (waiting (admissions S)) \<and>
    list_all mute (silent S) \<and> length (tasks_in H (handlers S)) \<le> 512"
proof -
  from served_trace_server [OF assms(1)] have t: "server_trace server_start es (admissions S)" by (simp add: served_start_def)
  have "accounts [] (served_start w)" using assms(2-4) by (simp add: accounts_def served_start_def server_start_def)
  from served_trace_accounts [OF assms(1) this] have acc: "accounts es S" .
  then have "length (tasks_in H (handlers S)) = length (running (admissions S))"
    by (metis accounts_def length_map mset_eq_length)
  moreover have "length (running (admissions S)) \<le> 512"
    using server_trace_ok [OF t server_start_ok] by (simp add: admission_ok_def RESOLVE_SEMAPHORE_def)
  moreover have "mset (all_of offered es) = mset (all_of started es) + mset (all_of dropped es) + mset (waiting (admissions S))"
    "mset (all_of started es) = mset (all_of ended es) + mset (running (admissions S))"
    using server_trace_conserves [OF t] by (simp_all add: server_start_def waiting_def)
  ultimately show ?thesis using acc by (simp add: accounts_def ac_simps)
qed

end

end
