(* ===== verification/Whole_Relay.thy ===== *)
theory Whole_Relay
  imports Served
begin

text \<open>
  The relay as a whole: the composition of \<open>Served\<close> with the handlers of \<open>Interleaving\<close>. A new task runs
  under the rules in force at that moment (\<open>rule_trie.load_full()\<close> before \<open>tokio::spawn\<close> in \<open>run_server\<close>,
  \<open>dns_relay/src/main.rs\<close>).
\<close>

section \<open>The handlers of the relay\<close>

definition relay_handlers ::
  "('c, 'conn, 'k) relay_server \<Rightarrow> (rstr option \<Rightarrow> conf option) \<Rightarrow> ('c, 'conn, 'k) world handler_ops" where
  "relay_handlers E ld =
     \<lparr>step_of = world_step E ld, tasks_in = tasks, answered_in = (\<lambda>w. map fst (replies w)),
      spawn_in = (\<lambda>p w. w\<lparr>tasks := tasks w @ [fresh_task p (current_rules w)]\<rparr>)\<rparr>"

type_synonym ('c, 'conn, 'k) relay_system = "('c, 'conn, 'k) world served"

abbreviation relay_step where "relay_step E ld \<equiv> served_step (relay_handlers E ld) (\<lambda>_. True)"
abbreviation relay_trace where "relay_trace E ld \<equiv> served_trace (relay_handlers E ld) (\<lambda>_. True)"

definition system_start ::
  "('c, 'conn, 'k) relay_state \<Rightarrow> domain_trie \<Rightarrow> conf_read list \<Rightarrow> ('c, 'conn, 'k) relay_system" where
  "system_start s tr reads = served_start (world_start s tr reads)"

lemma relay_handlers_sel [simp]:
  "step_of (relay_handlers E ld) = world_step E ld" "tasks_in (relay_handlers E ld) = tasks"
  "answered_in (relay_handlers E ld) = (\<lambda>w. map fst (replies w))"
  "spawn_in (relay_handlers E ld) p w = w\<lparr>tasks := tasks w @ [fresh_task p (current_rules w)]\<rparr>"
  by (simp_all add: relay_handlers_def)

section \<open>Tasks end with at most one reply\<close>

text \<open>Why a handler may end in silence: the query is too short or its name cannot be read, the question ends
  with its name and no rule is about it, or the rules of the task redirect the name and give no address.\<close>

definition unanswerable :: "('c, 'conn, 'k) relay_server \<Rightarrow> task \<Rightarrow> bool" where
  "unanswerable E t \<longleftrightarrow> (let p = payload t in
     length p < 12 \<or> parse_domain (lower E) p 12 = Some None \<or>
     (\<exists>d qe. parse_domain (lower E) p 12 = Some (Some (d, qe)) \<and>
        (case check_rules (lower E) d (task_rules t) of
           RuleDrop \<Rightarrow> False
         | RuleRedirect ips \<Rightarrow> craft_redirect_response p qe ips = Some None
         | RuleNone \<Rightarrow> length p < qe + 2)))"

lemma silent_front:
  assumes "query_front E (task_rules t) now (payload t) s = Some (Done None, s')"
  shows "unanswerable E t"
proof (cases "12 \<le> length (payload t) \<and> parse_domain (lower E) (payload t) 12 \<noteq> Some None")
  case True
  then obtain d qe where d: "12 \<le> length (payload t)" "parse_domain (lower E) (payload t) 12 = Some (Some (d, qe))"
    using assms by (cases "parse_domain (lower E) (payload t) 12") (auto simp: query_front_def)
  show ?thesis
    using assms d unfolding query_front_eq [where E = E, OF d]
    by (auto simp: unanswerable_def Let_def split: rule_match.splits option.splits if_splits prod.splits)
qed (auto simp: unanswerable_def Let_def)

definition waits_well :: "('c, 'conn, 'k) world \<Rightarrow> bool" where
  "waits_well w \<longleftrightarrow> list_all (\<lambda>t. phase t = Fresh \<or> 12 \<le> length (payload t)) (tasks w)"

lemma world_step_waits: "world_step E ld w w' \<Longrightarrow> waits_well w \<Longrightarrow> waits_well w'"
  by (erule world_step.cases) (auto simp: waits_well_def settled_task_def split: option.splits elim: query_front_Ask query_front_Done)

lemma world_step_keeps:
  "world_step E ld w w' \<Longrightarrow> length (tasks w') = length (tasks w) \<Longrightarrow>
     map payload (tasks w') = map payload (tasks w) \<and> replies w' = replies w"
  by (erule world_step.cases) (auto simp: settled_task_def split: option.splits)

lemma world_step_ends:
  assumes "world_step E ld w w'" "tasks w = ts @ t # ts'" "tasks w' = ts @ ts'" "waits_well w"
  shows "(replies w' = replies w \<and> unanswerable E t) \<or> (\<exists>tr r. replies w' = replies w @ [(payload t, tr, r)])"
proof -
  have len: "length (tasks w') < length (tasks w)" by (simp add: assms(2,3))
  show ?thesis
    using assms(1)
  proof cases
    case (front_silent us u us' now s')
    then have "ts @ t # ts' = us @ u # us'" "ts @ ts' = us @ us'" using assms(2,3) by simp_all
    from taken_apart [OF this] show ?thesis using front_silent silent_front by auto
  next
    case (settle us u us' d k result now e r s')
    then have "12 \<le> length (payload u)" using assms(4) by (auto simp: waits_well_def)
    with settle obtain b where "r = Some b" by (elim query_settle_cases) auto
    then have "length (tasks w') = length (tasks w)" using settle by (simp add: settled_task_def)
    with len show ?thesis by simp
  next
    case (reply_sent us u us' b)
    then have "ts @ t # ts' = us @ u # us'" "ts @ ts' = us @ us'" using assms(2,3) by simp_all
    from taken_apart [OF this] show ?thesis using reply_sent by auto
  qed (use len in simp_all)
qed

interpretation relay_pool: handler_pool "relay_handlers E ld" waits_well "unanswerable E"
  for E :: "('c, 'conn, 'k) relay_server" and ld
proof
  fix w :: "('c, 'conn, 'k) world" and p
  show "step_of (relay_handlers E ld) w (spawn_in (relay_handlers E ld) p w)"
    by (simp add: world_step.accept)
qed (auto simp: world_step_waits world_step_keeps dest: world_step_ends)

lemma relay_trace_world: "relay_trace E ld S es S' \<Longrightarrow> world_steps E ld (handlers S) (handlers S')"
  using relay_pool.served_trace_handlers [of E ld "\<lambda>_. True" S es S'] by simp

section \<open>Properties\<close>

text \<open>C2: The relay as a whole accounts for every query, under every interleaving of listeners, backlog,
  handlers, flushes and reloads: each query that arrived has been answered exactly once, or ended in silence
  because it cannot be answered (it is too short or unreadable; or the rules its task ran under redirect the
  name to no address; or they say nothing about it and it has no type), or was turned away or found stale
  under load, or is in one of at most 512 handlers, or still waits. A failure of the upstream is no reason
  for silence.\<close>

theorem every_query_accounted:
  assumes "relay_trace E ld (system_start s tr reads) es S"
  shows "mset (all_of offered es) =
      mset (map fst (replies (handlers S))) + mset (map payload (silent S)) + mset (all_of dropped es)
      + mset (map payload (tasks (handlers S))) + mset (waiting (admissions S)) \<and>
    list_all (unanswerable E) (silent S) \<and> length (tasks (handlers S)) \<le> 512"
  using relay_pool.served_accounted [OF assms [unfolded system_start_def]]
  by (simp add: world_start_def waits_well_def)

text \<open>A query of one byte arrives, gets a permit and is dropped in silence.\<close>

theorem every_query_accounted_witness:
  "\<exists>es S. relay_trace (demo_server demo_reply) (\<lambda>_. None) (system_start demo_state empty_trie []) es S \<and>
     all_of offered es = [[7]] \<and> map payload (silent S) = [[7]] \<and> list_all (unanswerable (demo_server demo_reply)) (silent S)"
proof -
  let ?E = "demo_server demo_reply" and ?no = "\<lambda>_. None" and ?S = "system_start demo_state empty_trie []"
  let ?a = "spawn [7] server_start" and ?w = "(world_start demo_state empty_trie [])\<lparr>tasks := [fresh_task [7] empty_trie]\<rparr>"
  let ?T = "?S\<lparr>admissions := ?a, handlers := ?w\<rparr>"
  let ?U = "?T\<lparr>admissions := finish [7] ?a, handlers := ?w\<lparr>tasks := []\<rparr>, silent := [fresh_task [7] empty_trie]\<rparr>"
  have "server_step (admissions ?S) (ObfsAdmitted [7]) ?a"
    by (rule server_step.obfs_listen) (simp add: obfs_admit_def system_start_def served_start_def server_start_def RESOLVE_SEMAPHORE_def)
  from served_step.spawning [where p = "[7]" and H = "relay_handlers ?E ?no" and listens = "\<lambda>_. True", OF this] have one: "relay_step ?E ?no ?S [ObfsAdmitted [7]] ?T"
    by (simp add: system_start_def served_start_def world_start_def)
  have "world_step ?E ?no ?w (?w\<lparr>tasks := []\<rparr>)"
    using world_step.front_silent [of ?w "[]" "fresh_task [7] empty_trie" "[]" ?E 0 demo_state ?no]
    by (simp add: query_front_def world_start_def)
  moreover have "server_step (admissions ?T) (Finished [7]) (finish [7] ?a)"
    using server_step.finished [of "[7]" ?a] by (simp add: spawn_def)
  ultimately have "relay_step ?E ?no ?T [Finished [7]] ?U"
    using served_step.ending [of "relay_handlers ?E ?no" ?T "?w\<lparr>tasks := []\<rparr>" "[]" "fresh_task [7] empty_trie" "[]" "finish [7] ?a" "\<lambda>_. True"]
    by (simp add: system_start_def served_start_def)
  from served_trace.step [OF served_trace.step [OF served_trace.start one] this]
  have t: "relay_trace ?E ?no ?S ([] @ [ObfsAdmitted [7]] @ [Finished [7]]) ?U" by simp
  from every_query_accounted [OF t] t show ?thesis by (intro exI) (auto simp: system_start_def served_start_def)
qed

end
