(* ===== verification/Proxy_Interleaving.thy ===== *)
theory Proxy_Interleaving
  imports Proxy_Handler Interleaving
begin

text \<open>
  The handlers of many queries of the proxy and reloads of its rules, interleaved (\<open>handle_query\<close> of
  \<open>resolver_proxy/src/handler.rs\<close>, run by the tasks that \<open>run_server\<close> of \<open>resolver_proxy/src/main.rs\<close>
  spawns). \<open>proxy_handle_query\<close> is cut where it waits for a target: \<open>proxy_front\<close>, \<open>proxy_ask\<close> and
  \<open>proxy_back\<close>; their composition is \<open>proxy_handle_query\<close>. The reply is sent after it has been counted.

  \<open>target_answers\<close> is a ghost: every reply a target gave, with the question it was for.
\<close>

section \<open>The pieces of a handler\<close>

definition proxy_front ::
  "('c, 'conn, 'k) proxy_server \<Rightarrow> domain_trie \<Rightarrow> nat \<Rightarrow> bytes \<Rightarrow> ('c, 'k) proxy_state \<Rightarrow>
     (front \<times> ('c, 'k) proxy_state) run" where
  "proxy_front E trie now query s =
     (if length query < 12 then Some (Done None, s)
      else do {
        parsed \<leftarrow> parse_domain (proxy_lower E) query 12;
        case parsed of
          None \<Rightarrow> Some (Done None, s)
        | Some (domain, qname_end) \<Rightarrow>
            (case check_rules (proxy_lower E) domain trie of
               RuleDrop \<Rightarrow> do {
                 resp \<leftarrow> craft_nxdomain_response query;
                 Some (Done resp, if resp = None then s else proxy_incr (\<lambda>m. m\<lparr>drop_count := drop_count m + 1\<rparr>) s) }
             | RuleRedirect ips \<Rightarrow> do {
                 resp \<leftarrow> craft_redirect_response query qname_end ips;
                 Some (Done resp, if resp = None then s else proxy_incr (\<lambda>m. m\<lparr>redirect_count := redirect_count m + 1\<rparr>) s) }
             | RuleNone \<Rightarrow> do {
                 key \<leftarrow> cache_key_from_query (proxy_lower E) query;
                 case key of
                   None \<Rightarrow> Some (Done None, s)
                 | Some cache_key \<Rightarrow> do {
                     t0 \<leftarrow> rd query 0;
                     t1 \<leftarrow> rd query 1;
                     Some (case cache_lookup (proxy_lru E) now cache_key (proxy_cache s) of
                         (Some hit, c) \<Rightarrow> (Done (Some (with_txid hit t0 t1)),
                            proxy_incr (\<lambda>m. m\<lparr>cached_count := cached_count m + 1\<rparr>) (s\<lparr>proxy_cache := c\<rparr>))
                       | (None, c) \<Rightarrow> (Ask domain cache_key, s\<lparr>proxy_cache := c\<rparr>)) } }) })"

definition proxy_ask ::
  "('c, 'conn, 'k) proxy_server \<Rightarrow> (nat \<Rightarrow> obfs_random) \<Rightarrow> bytes \<Rightarrow> ('c, 'k) proxy_state \<Rightarrow>
     ((error + bytes) \<times> ('c, 'k) proxy_state) run" where
  "proxy_ask E rnd query s = do {
     (r, picker) \<leftarrow> forward_query (proxy_net E) (proxy_cipher E) rnd query (target_picker s);
     Some (r, s\<lparr>target_picker := picker\<rparr>) }"

definition proxy_back ::
  "('c, 'conn, 'k) proxy_server \<Rightarrow> nat \<Rightarrow> cache_key \<Rightarrow> bytes \<Rightarrow> error + bytes \<Rightarrow> ('c, 'k) proxy_state \<Rightarrow>
     (bytes option \<times> ('c, 'k) proxy_state) run" where
  "proxy_back E now key query result s =
     (case result of
        Inr reply_buf \<Rightarrow> do {
          c \<leftarrow> cache_store (proxy_lru E) (proxy_lower E) now key reply_buf (proxy_cache s);
          t0 \<leftarrow> rd query 0;
          t1 \<leftarrow> rd query 1;
          Some (Some (with_txid reply_buf t0 t1),
            proxy_incr (\<lambda>m. m\<lparr>resolved_count := resolved_count m + 1\<rparr>) (s\<lparr>proxy_cache := c\<rparr>)) }
      | Inl err \<Rightarrow> do {
          _ \<leftarrow> craft_servfail_response query;
          Some (None, proxy_incr (\<lambda>m. m\<lparr>failed_count := failed_count m + 1\<rparr>) s) })"

definition sent :: "bytes option \<Rightarrow> bytes list" where
  "sent r = (case r of None \<Rightarrow> [] | Some b \<Rightarrow> [b])"

text \<open>Run without a break, the three pieces are the handler.\<close>

theorem proxy_pieces_compose:
  "proxy_handle_query E trie t_l t_s rnd p s = do {
     (f, s) \<leftarrow> proxy_front E trie t_l p s;
     case f of
       Done r \<Rightarrow> Some (sent r, s)
     | Ask d k \<Rightarrow> do {
         (r, s) \<leftarrow> proxy_ask E rnd p s;
         map_option (\<lambda>(reply, s). (sent reply, s)) (proxy_back E t_s k p r s) } }"
proof (cases "12 \<le> length p")
  case long: True
  have craft: "craft_servfail_response p = Some (Some (p[2 := 0x81, 3 := 0x82]))"
    "craft_nxdomain_response p = Some (Some (p[2 := 0x81, 3 := 0x83]))"
    using long by (simp_all add: craft_servfail_eq craft_nxdomain_eq)
  show ?thesis
  proof (cases "parse_domain (proxy_lower E) p 12")
    case (Some r)
    show ?thesis
    proof (cases r)
      case (Some dq)
      then obtain d qe where d: "parse_domain (proxy_lower E) p 12 = Some (Some (d, qe))"
        using \<open>parse_domain (proxy_lower E) p 12 = Some r\<close> by (cases dq) simp
      show ?thesis
        using long d craft rd_header [OF long] cache_key_of_parse [OF d]
        by (auto simp: proxy_handle_query_def proxy_front_def proxy_ask_def proxy_back_def sent_def Let_def
          split: rule_match.split option.split prod.split sum.split bind_split)
    qed (use long Some in \<open>simp add: proxy_handle_query_def proxy_front_def sent_def\<close>)
  qed (use long in \<open>simp add: proxy_handle_query_def proxy_front_def\<close>)
qed (simp add: proxy_handle_query_def proxy_front_def sent_def)

section \<open>The steps\<close>

record ('c, 'k) proxy_world =
  proxy_shared :: "('c, 'k) proxy_state"
  proxy_rules :: domain_trie
  proxy_tasks :: "task list"
  proxy_sent :: "(bytes \<times> domain_trie \<times> bytes) list"
  proxy_conf_file :: "rstr option"
  target_answers :: "(cache_key \<times> bytes) list"

text \<open>The task after its answer has been stored; without a reply it has ended.\<close>

definition stored_task :: "task \<Rightarrow> bytes option \<Rightarrow> task list" where
  "stored_task t r = (case r of None \<Rightarrow> [] | Some b \<Rightarrow> [t\<lparr>phase := Replying b\<rparr>])"

text \<open>\<open>ld\<close> is \<open>load_conf\<close> on the content of the file, \<open>fs\<close> the list files when the rules are built.\<close>

inductive proxy_step ::
  "('c, 'conn, 'k) proxy_server \<Rightarrow> (rstr option \<Rightarrow> conf option) \<Rightarrow> ('c, 'k) proxy_world \<Rightarrow> ('c, 'k) proxy_world \<Rightarrow> bool"
  for E ld where
  accept: "proxy_step E ld w (w\<lparr>proxy_tasks := proxy_tasks w @ [\<lparr>payload = p, task_rules = proxy_rules w, phase = Fresh\<rparr>]\<rparr>)"
| front_done: "proxy_tasks w = ts @ t # ts' \<Longrightarrow> phase t = Fresh \<Longrightarrow>
    proxy_front E (task_rules t) now (payload t) (proxy_shared w) = Some (Done r, s') \<Longrightarrow>
    proxy_step E ld w (w\<lparr>proxy_shared := s', proxy_tasks := ts @ stored_task t r @ ts'\<rparr>)"
| front_ask: "proxy_tasks w = ts @ t # ts' \<Longrightarrow> phase t = Fresh \<Longrightarrow>
    proxy_front E (task_rules t) now (payload t) (proxy_shared w) = Some (Ask d k, s') \<Longrightarrow>
    proxy_step E ld w (w\<lparr>proxy_shared := s', proxy_tasks := ts @ t\<lparr>phase := Asking d k\<rparr> # ts'\<rparr>)"
| ask: "proxy_tasks w = ts @ t # ts' \<Longrightarrow> phase t = Asking d k \<Longrightarrow>
    proxy_ask E rnd (payload t) (proxy_shared w) = Some (r, s') \<Longrightarrow>
    proxy_step E ld w (w\<lparr>proxy_shared := s', proxy_tasks := ts @ t\<lparr>phase := Answering d k r\<rparr> # ts',
      target_answers := target_answers w @ answer_of k r\<rparr>)"
| give_back: "proxy_tasks w = ts @ t # ts' \<Longrightarrow> phase t = Answering d k result \<Longrightarrow>
    proxy_back E now k (payload t) result (proxy_shared w) = Some (r, s') \<Longrightarrow>
    proxy_step E ld w (w\<lparr>proxy_shared := s', proxy_tasks := ts @ stored_task t r @ ts'\<rparr>)"
| reply_sent: "proxy_tasks w = ts @ t # ts' \<Longrightarrow> phase t = Replying b \<Longrightarrow>
    proxy_step E ld w (w\<lparr>proxy_tasks := ts @ ts', proxy_sent := proxy_sent w @ [(payload t, task_rules t, b)]\<rparr>)"
| edit: "proxy_step E ld w (w\<lparr>proxy_conf_file := content\<rparr>)"
| new_rules: "ld (proxy_conf_file w) = Some c \<Longrightarrow> proxy_step E ld w (w\<lparr>proxy_rules := conf_rules (proxy_lower E) fs c\<rparr>)"

abbreviation proxy_steps where "proxy_steps E ld \<equiv> (proxy_step E ld)\<^sup>*\<^sup>*"

text \<open>\<open>content\<close> is the configuration file when the proxy starts.\<close>

definition proxy_world_start :: "('c, 'k) proxy_state \<Rightarrow> domain_trie \<Rightarrow> rstr option \<Rightarrow> ('c, 'k) proxy_world" where
  "proxy_world_start s tr content = \<lparr>proxy_shared = s, proxy_rules = tr, proxy_tasks = [], proxy_sent = [],
     proxy_conf_file = content, target_answers = []\<rparr>"

section \<open>What holds in every interleaving\<close>

definition proxy_question :: "('c, 'conn, 'k) proxy_server \<Rightarrow> bytes \<Rightarrow> cache_key \<Rightarrow> bool" where
  "proxy_question E p k \<longleftrightarrow> 12 \<le> length p \<and>
     (\<exists>d qe. parse_domain (proxy_lower E) p 12 = Some (Some (d, qe)) \<and> k = question_key p d qe)"

text \<open>An answer that one of the targets gave to a query with this question.\<close>

definition genuine :: "('c, 'conn, 'k) proxy_server \<Rightarrow> 'k resolved_target list \<Rightarrow> cache_key \<times> bytes \<Rightarrow> bool" where
  "genuine E ts a \<longleftrightarrow> (\<exists>p t rnd. proxy_question E p (fst a) \<and> t \<in> set ts \<and>
     try_target (proxy_net E) (proxy_cipher E) rnd p t = Some (Inr (snd a)))"

definition proxy_justified ::
  "('c, 'conn, 'k) proxy_server \<Rightarrow> (cache_key \<times> bytes) list \<Rightarrow> bytes \<times> domain_trie \<times> bytes \<Rightarrow> bool" where
  "proxy_justified E given = (\<lambda>(p, tr, r). 12 \<le> length p \<and>
     (\<exists>d qe. parse_domain (proxy_lower E) p 12 = Some (Some (d, qe)) \<and>
       (case check_rules (proxy_lower E) d tr of
          RuleDrop \<Rightarrow> r = p[2 := 0x81, 3 := 0x83]
        | RuleRedirect ips \<Rightarrow> craft_redirect_response p qe ips = Some (Some r)
        | RuleNone \<Rightarrow> (\<exists>b. (question_key p d qe, b) \<in> set given \<and> r = with_txid b (p ! 0) (p ! 1)))))"

definition proxy_unruled :: "('c, 'conn, 'k) proxy_server \<Rightarrow> task \<Rightarrow> rstr \<Rightarrow> cache_key \<Rightarrow> bool" where
  "proxy_unruled E t d k \<longleftrightarrow> 12 \<le> length (payload t) \<and>
     (\<exists>qe. parse_domain (proxy_lower E) (payload t) 12 = Some (Some (d, qe)) \<and> k = question_key (payload t) d qe) \<and>
     check_rules (proxy_lower E) d (task_rules t) = RuleNone"

definition proxy_task_ok :: "('c, 'conn, 'k) proxy_server \<Rightarrow> (cache_key \<times> bytes) list \<Rightarrow> task \<Rightarrow> bool" where
  "proxy_task_ok E given t \<longleftrightarrow>
     (case phase t of
        Fresh \<Rightarrow> True
      | Asking d k \<Rightarrow> proxy_unruled E t d k
      | Answering d k r \<Rightarrow> proxy_unruled E t d k \<and> (\<forall>b. r = Inr b \<longrightarrow> (k, b) \<in> set given)
      | Recording e b \<Rightarrow> False
      | Replying b \<Rightarrow> proxy_justified E given (payload t, task_rules t, b))"

definition proxy_world_ok ::
  "('c, 'conn, 'k) proxy_server \<Rightarrow> ('c \<Rightarrow> (cache_key \<times> cache_entry) list) \<Rightarrow> 'k resolved_target list \<Rightarrow>
     ('c, 'k) proxy_world \<Rightarrow> bool" where
  "proxy_world_ok E recents ts w \<longleftrightarrow>
     list_all (proxy_task_ok E (target_answers w)) (proxy_tasks w) \<and>
     list_all (proxy_justified E (target_answers w)) (proxy_sent w) \<and>
     cache_ok recents (target_answers w) (proxy_cache (proxy_shared w)) \<and>
     list_all (genuine E ts) (target_answers w) \<and> targets (target_picker (proxy_shared w)) = ts"

lemma proxy_given_mono:
  assumes "set given \<subseteq> set given'"
  shows "proxy_task_ok E given t \<Longrightarrow> proxy_task_ok E given' t" "proxy_justified E given x \<Longrightarrow> proxy_justified E given' x"
  using assms by (auto simp: proxy_task_ok_def proxy_justified_def split: phase.splits rule_match.splits prod.splits)

lemma proxy_front_eq:
  assumes "12 \<le> length p" "parse_domain (proxy_lower E) p 12 = Some (Some (d, qe))"
  shows "proxy_front E trie now p s =
    (case check_rules (proxy_lower E) d trie of
       RuleDrop \<Rightarrow> Some (Done (Some (p[2 := 0x81, 3 := 0x83])), proxy_incr (\<lambda>m. m\<lparr>drop_count := drop_count m + 1\<rparr>) s)
     | RuleRedirect ips \<Rightarrow> map_option (\<lambda>resp. (Done resp,
           if resp = None then s else proxy_incr (\<lambda>m. m\<lparr>redirect_count := redirect_count m + 1\<rparr>) s)) (craft_redirect_response p qe ips)
     | RuleNone \<Rightarrow> Some (if length p < qe + 2 then (Done None, s)
         else case cache_lookup (proxy_lru E) now (question_key p d qe) (proxy_cache s) of
             (Some hit, c) \<Rightarrow> (Done (Some (with_txid hit (p ! 0) (p ! 1))),
                proxy_incr (\<lambda>m. m\<lparr>cached_count := cached_count m + 1\<rparr>) (s\<lparr>proxy_cache := c\<rparr>))
           | (None, c) \<Rightarrow> (Ask d (question_key p d qe), s\<lparr>proxy_cache := c\<rparr>)))"
proof -
  have map_bind: "Option.bind x (\<lambda>y. Some (f y)) = map_option f x" for x :: "'x option" and f :: "'x \<Rightarrow> 'y"
    by (cases x) simp_all
  show ?thesis
    using assms rd_header [OF assms(1)]
    by (auto simp: proxy_front_def cache_key_of_parse question_key_def craft_nxdomain_eq map_bind
        split: rule_match.split prod.split option.split)
qed

lemma proxy_front_cases:
  assumes "proxy_front E trie now p s = Some (f, s')"
  obtains (bad) "f = Done None" "s' = s"
  | (question) d qe where "12 \<le> length p" "parse_domain (proxy_lower E) p 12 = Some (Some (d, qe))"
proof (cases "12 \<le> length p \<and> parse_domain (proxy_lower E) p 12 \<noteq> Some None")
  case True
  then show thesis
    using assms question by (cases "parse_domain (proxy_lower E) p 12") (auto simp: proxy_front_def)
next
  case False
  then have "proxy_front E trie now p s = Some (Done None, s)" by (auto simp: proxy_front_def)
  then show thesis using assms bad by simp
qed

lemma forward_loop_genuine:
  "forward_loop net A rnd p e i ts = Some (Inr b) \<Longrightarrow> \<exists>t \<in> set ts. \<exists>rnd. try_target net A rnd p t = Some (Inr b)"
proof (induction ts arbitrary: e i)
  case (Cons t ts)
  then obtain y where y: "try_target net A (rnd i) p t = Some y" by (auto simp: bind_eq_Some_conv)
  show ?case
  proof (cases y)
    case (Inl err)
    with Cons.prems y have "forward_loop net A rnd p err (i + 1) ts = Some (Inr b)" by simp
    with Cons.IH show ?thesis by fastforce
  next
    case (Inr reply)
    with Cons.prems y show ?thesis by auto
  qed
qed simp

lemma forward_genuine:
  assumes "forward_query net A rnd p picker = Some (r, picker')"
  shows "targets picker' = targets picker \<and>
    (\<forall>b. r = Inr b \<longrightarrow> (\<exists>t rnd. t \<in> set (targets picker) \<and> try_target net A rnd p t = Some (Inr b)))"
proof -
  from assms obtain ts where ts: "try_order picker = Some (ts, picker')"
    "forward_loop net A rnd p NoHealthyResolvers 0 ts = Some r"
    by (auto simp: forward_query_def bind_eq_Some_conv)
  then have "set ts = set (targets picker)" by (metis mset_eq_setD try_order_mset)
  moreover have "targets picker' = targets picker"
    using ts(1) by (auto simp: try_order_def start_ticket_def bind_eq_Some_conv split: proxy_strategy.splits if_splits)
  ultimately show ?thesis using ts(2) forward_loop_genuine by metis
qed

lemma proxy_front_ok:
  assumes "proxy_front E tr now p s = Some (f, s')" "cache_backend (proxy_lru E) recents cap"
    and "cache_ok recents given (proxy_cache s)"
  shows "(\<forall>b. f = Done (Some b) \<longrightarrow> proxy_justified E given (p, tr, b)) \<and>
    (\<forall>d k ph. f = Ask d k \<longrightarrow> proxy_unruled E \<lparr>payload = p, task_rules = tr, phase = ph\<rparr> d k) \<and>
    cache_ok recents given (proxy_cache s') \<and> target_picker s' = target_picker s"
  using assms(1)
proof (cases rule: proxy_front_cases)
  case bad
  then show ?thesis using assms(3) by simp
next
  case (question d qe)
  let ?l = "cache_lookup (proxy_lru E) now (question_key p d qe) (proxy_cache s)"
  have look: "cache_ok recents given c" "hit = Some b \<Longrightarrow> \<exists>a. (question_key p d qe, a) \<in> set given \<and> b = stored_packet a"
    if "?l = (hit, c)" for hit c b
    using cache_backend.cache_ok_lookup [OF assms(2,3), of now "question_key p d qe"] that
      cache_backend.cache_ok_hit [OF assms(2,3), of now "question_key p d qe"] by auto
  show ?thesis
  proof (cases "check_rules (proxy_lower E) d tr")
    case RuleNone
    obtain hit c where l: "?l = (hit, c)" by fastforce
    show ?thesis
    proof (cases hit)
      case None
      then show ?thesis using assms(1,3) question RuleNone l look(1) [OF l] unfolding proxy_front_eq [where E = E, OF question]
        by (auto simp: proxy_unruled_def split: if_splits)
    next
      case (Some b)
      then obtain a where "(question_key p d qe, a) \<in> set given" "b = stored_packet a" using look(2) [OF l] by blast
      then show ?thesis using Some assms(1,3) question RuleNone l look(1) [OF l] unfolding proxy_front_eq [where E = E, OF question]
        by (auto simp: proxy_justified_def proxy_incr_def split: if_splits)
    qed
  qed (use assms(1,3) question in \<open>auto simp: proxy_front_eq [where E = E, OF question] proxy_justified_def proxy_incr_def\<close>)
qed

lemma proxy_back_ok:
  assumes "proxy_back E now k p r s = Some (x, s')" "12 \<le> length p" "cache_backend (proxy_lru E) recents cap"
    and "cache_ok recents given (proxy_cache s)" "\<forall>b. r = Inr b \<longrightarrow> (k, b) \<in> set given"
  shows "(\<forall>y. x = Some y \<longrightarrow> (\<exists>b. r = Inr b \<and> y = with_txid b (p ! 0) (p ! 1))) \<and> cache_ok recents given (proxy_cache s')
    \<and> target_picker s' = target_picker s"
proof (cases r)
  case (Inl e)
  then show ?thesis using assms(1,2,4) by (auto simp: proxy_back_def craft_servfail_eq proxy_incr_def)
next
  case (Inr b)
  then obtain c where "cache_store (proxy_lru E) (proxy_lower E) now k b (proxy_cache s) = Some c"
    and x: "x = Some (with_txid b (p ! 0) (p ! 1))" "proxy_cache s' = c" "target_picker s' = target_picker s"
    using assms(1) rd_header [OF assms(2)] by (auto simp: proxy_back_def proxy_incr_def bind_eq_Some_conv)
  then have "cache_ok recents given c"
    using cache_backend.cache_ok_store [OF assms(3,4)] assms(5) Inr by blast
  with x Inr show ?thesis by simp
qed

lemma proxy_ask_ok:
  assumes "proxy_ask E rnd p s = Some (r, s')" "proxy_question E p k" "targets (target_picker s) = ts"
  shows "list_all (genuine E ts) (answer_of k r) \<and> targets (target_picker s') = ts \<and> proxy_cache s' = proxy_cache s"
proof -
  obtain picker where f: "forward_query (proxy_net E) (proxy_cipher E) rnd p (target_picker s) = Some (r, picker)"
    and s': "s' = s\<lparr>target_picker := picker\<rparr>"
    using assms(1) by (auto simp: proxy_ask_def bind_eq_Some_conv)
  from forward_genuine [OF f] assms(2,3) s' show ?thesis by (cases r) (auto simp: genuine_def)
qed

lemma proxy_step_ok:
  assumes "proxy_step E ld w w'" "cache_backend (proxy_lru E) recents cap" "proxy_world_ok E recents ts w"
  shows "proxy_world_ok E recents ts w'"
  using assms(1)
proof cases
  case (front_done us t us' now r s')
  then show ?thesis
    using proxy_front_ok [OF front_done(4) assms(2), of "target_answers w"] assms(3)
    by (cases r) (auto simp: proxy_world_ok_def proxy_task_ok_def stored_task_def)
next
  case (front_ask us t us' now d k s')
  then show ?thesis
    using proxy_front_ok [OF front_ask(4) assms(2), of "target_answers w"] assms(3)
    by (auto simp: proxy_world_ok_def proxy_task_ok_def proxy_unruled_def)
next
  case (ask us t us' d k rnd r s')
  have mono: "set (target_answers w) \<subseteq> set (target_answers w @ answer_of k r)" by simp
  have t: "proxy_unruled E t d k" using ask assms(3) by (auto simp: proxy_world_ok_def proxy_task_ok_def)
  then have "proxy_question E (payload t) k" by (auto simp: proxy_unruled_def proxy_question_def)
  from proxy_ask_ok [OF ask(4) this] assms(3)
  have a: "list_all (genuine E ts) (answer_of k r)" "targets (target_picker s') = ts" "proxy_cache s' = proxy_cache (proxy_shared w)"
    by (auto simp: proxy_world_ok_def)
  have "proxy_task_ok E (target_answers w @ answer_of k r) (t\<lparr>phase := Answering d k r\<rparr>)"
    using t by (auto simp: proxy_task_ok_def proxy_unruled_def)
  moreover have "list_all (proxy_task_ok E (target_answers w @ answer_of k r)) (us @ us')"
    "list_all (proxy_justified E (target_answers w @ answer_of k r)) (proxy_sent w)"
    "cache_ok recents (target_answers w @ answer_of k r) (proxy_cache (proxy_shared w))"
    using ask assms(3) by (auto simp: proxy_world_ok_def list_all_iff intro: proxy_given_mono [OF mono] given_mono(3) [OF mono])
  ultimately show ?thesis using ask a assms(3) by (simp add: proxy_world_ok_def)
next
  case (give_back us t us' d k result now r s')
  then have t: "proxy_unruled E t d k" "\<forall>b. result = Inr b \<longrightarrow> (k, b) \<in> set (target_answers w)"
    using assms(3) by (auto simp: proxy_world_ok_def proxy_task_ok_def)
  then have "12 \<le> length (payload t)" by (simp add: proxy_unruled_def)
  from proxy_back_ok [OF give_back(4) this assms(2) _ t(2)] assms(3)
  have "cache_ok recents (target_answers w) (proxy_cache s')" "targets (target_picker s') = ts"
    and y: "\<forall>y. r = Some y \<longrightarrow> (\<exists>b. result = Inr b \<and> y = with_txid b (payload t ! 0) (payload t ! 1))"
    by (auto simp: proxy_world_ok_def)
  moreover have "list_all (proxy_task_ok E (target_answers w)) (stored_task t r)"
    using y t by (cases r) (fastforce simp: proxy_justified_def proxy_unruled_def proxy_task_ok_def stored_task_def)+
  ultimately show ?thesis using give_back assms(3) by (simp add: proxy_world_ok_def)
qed (use assms(3) in \<open>auto simp: proxy_world_ok_def proxy_task_ok_def\<close>)

lemma proxy_steps_ok:
  "proxy_steps E ld w w' \<Longrightarrow> cache_backend (proxy_lru E) recents cap \<Longrightarrow> proxy_world_ok E recents ts w \<Longrightarrow>
     proxy_world_ok E recents ts w'"
  by (induction rule: rtranclp_induct) (auto intro: proxy_step_ok)

section \<open>Properties\<close>

text \<open>C19: However the handlers of the proxy interleave with each other and with reloads, every datagram it
  sends is the NXDOMAIN or the redirect that the rules of its task demand, or, under the transaction ID
  of the query, an answer that one of its targets gave to the same question, fresh or from the cache.\<close>

theorem proxy_replies_genuine:
  assumes "cache_backend (proxy_lru E) recents cap" "recents (proxy_cache s) = []"
    and "proxy_steps E ld (proxy_world_start s tr content) w" "(p, tr', r) \<in> set (proxy_sent w)"
  shows "12 \<le> length p \<and> (\<exists>d qe. parse_domain (proxy_lower E) p 12 = Some (Some (d, qe)) \<and>
    (case check_rules (proxy_lower E) d tr' of
       RuleDrop \<Rightarrow> r = p[2 := 0x81, 3 := 0x83]
     | RuleRedirect ips \<Rightarrow> craft_redirect_response p qe ips = Some (Some r)
     | RuleNone \<Rightarrow> \<exists>b p' t rnd. r = with_txid b (p ! 0) (p ! 1) \<and> t \<in> set (targets (target_picker s)) \<and>
         proxy_question E p' (question_key p d qe) \<and>
         try_target (proxy_net E) (proxy_cipher E) rnd p' t = Some (Inr b)))"
proof -
  let ?ts = "targets (target_picker s)"
  have "proxy_world_ok E recents ?ts (proxy_world_start s tr content)"
    using assms(2) by (simp add: proxy_world_ok_def proxy_world_start_def cache_ok_def)
  from proxy_steps_ok [OF assms(3,1) this] have j: "proxy_justified E (target_answers w) (p, tr', r)"
    and g: "\<And>k b. (k, b) \<in> set (target_answers w) \<Longrightarrow> genuine E ?ts (k, b)"
    using assms(4) by (auto simp: proxy_world_ok_def list_all_iff)
  from j obtain d qe where d: "12 \<le> length p" "parse_domain (proxy_lower E) p 12 = Some (Some (d, qe))"
    and r: "case check_rules (proxy_lower E) d tr' of
          RuleDrop \<Rightarrow> r = p[2 := 0x81, 3 := 0x83]
        | RuleRedirect ips \<Rightarrow> craft_redirect_response p qe ips = Some (Some r)
        | RuleNone \<Rightarrow> \<exists>b. (question_key p d qe, b) \<in> set (target_answers w) \<and> r = with_txid b (p ! 0) (p ! 1)"
    by (auto simp: proxy_justified_def)
  show ?thesis
  proof (intro conjI exI)
    show "case check_rules (proxy_lower E) d tr' of
       RuleDrop \<Rightarrow> r = p[2 := 0x81, 3 := 0x83]
     | RuleRedirect ips \<Rightarrow> craft_redirect_response p qe ips = Some (Some r)
     | RuleNone \<Rightarrow> \<exists>b p' t rnd. r = with_txid b (p ! 0) (p ! 1) \<and> t \<in> set ?ts \<and> proxy_question E p' (question_key p d qe) \<and>
         try_target (proxy_net E) (proxy_cipher E) rnd p' t = Some (Inr b)"
      using r g by (cases "check_rules (proxy_lower E) d tr'") (fastforce simp: genuine_def)+
  qed (fact d)+
qed

text \<open>One target that answers in plain, one query, its answer sent.\<close>

definition demo_plain_proxy :: "((cache_key, cache_entry) recency, nat, u8) proxy_server" where
  "demo_plain_proxy = \<lparr>proxy_lower = (\<lambda>s. s), proxy_lru = list_lru,
     proxy_net = silent_net\<lparr>udp_exchange := \<lambda>_ _. Received demo_reply\<rparr>, proxy_cipher = xor_aead\<rparr>"

definition demo_plain_state :: "((cache_key, cache_entry) recency, u8) proxy_state" where
  "demo_plain_state = demo_proxy_state\<lparr>target_picker :=
     \<lparr>targets = [demo_target\<lparr>rt_mode := Plain\<rparr>], strategy = Ordered, cursor = 0\<rparr>\<rparr>"

definition demo_proxy_world :: "((cache_key, cache_entry) recency, u8) proxy_world" where
  "demo_proxy_world =
     \<lparr>proxy_shared = proxy_incr (\<lambda>m. m\<lparr>resolved_count := resolved_count m + 1\<rparr>) (demo_plain_state\<lparr>proxy_cache :=
        (4095, [(demo_key, \<lparr>packet = stored_packet demo_reply, expires_at = 60000000001\<rparr>)])\<rparr>),
      proxy_rules = empty_trie, proxy_tasks = [], proxy_sent = [(demo_query, empty_trie, with_txid demo_reply 0 7)],
      proxy_conf_file = None, target_answers = [(demo_key, demo_reply)]\<rparr>"

lemma demo_proxy_world_reached:
  "proxy_steps demo_plain_proxy ld (proxy_world_start demo_plain_state empty_trie None) demo_proxy_world"
proof -
  let ?E = demo_plain_proxy and ?s = demo_plain_state
  let ?w = "proxy_world_start ?s empty_trie None"
  let ?t = "\<lparr>payload = demo_query, task_rules = empty_trie, phase = Fresh\<rparr>"
  let ?w1 = "?w\<lparr>proxy_tasks := [?t]\<rparr>"
  let ?w2 = "?w1\<lparr>proxy_tasks := [?t\<lparr>phase := Asking (lit ''a.b'') demo_key\<rparr>]\<rparr>"
  let ?w3 = "?w1\<lparr>proxy_tasks := [?t\<lparr>phase := Answering (lit ''a.b'') demo_key (Inr demo_reply)\<rparr>],
    target_answers := [(demo_key, demo_reply)]\<rparr>"
  let ?r = "?t\<lparr>phase := Replying (with_txid demo_reply 0 7)\<rparr>"
  let ?w4 = "?w3\<lparr>proxy_shared := proxy_shared demo_proxy_world, proxy_tasks := [?r]\<rparr>"
  have cache: "proxy_cache ?s = (4095, [])" by (simp add: demo_plain_state_def demo_proxy_state_def)
  have "check_rules (\<lambda>s. s) (lit ''a.b'') empty_trie = RuleNone" by code_simp
  moreover have "cache_lookup list_lru 0 demo_key (proxy_cache ?s) = (None, proxy_cache ?s)"
    by (simp add: cache_lookup_def cache)
  ultimately have front: "proxy_front ?E empty_trie 0 demo_query ?s = Some (Ask (lit ''a.b'') demo_key, ?s)"
    using proxy_front_eq [of demo_query ?E "lit ''a.b''" 17 empty_trie 0 ?s]
    by (simp add: demo_length demo_parse demo_question demo_plain_proxy_def)
  have "take 4096 demo_reply = demo_reply" by (simp add: demo_reply_def)
  then have ask: "proxy_ask ?E demo_random demo_query ?s = Some (Inr demo_reply, ?s)"
    by (simp add: proxy_ask_def forward_query_def demo_plain_state_def demo_plain_proxy_def try_order_def
      try_target_def send_plain_def)
  have "rd demo_query 0 = Some 0" "rd demo_query 1 = Some 7" by code_simp+
  then have stored: "proxy_back ?E 1 demo_key demo_query (Inr demo_reply) ?s =
      Some (Some (with_txid demo_reply 0 7), proxy_shared demo_proxy_world)"
    by (simp add: proxy_back_def demo_plain_proxy_def cache_store_def demo_ttl cache demo_proxy_world_def)
  have "proxy_step ?E ld ?w ?w1"
    using proxy_step.accept [of ?E ld ?w demo_query] by (simp add: proxy_world_start_def)
  moreover have "proxy_step ?E ld ?w1 ?w2"
    using proxy_step.front_ask [of ?w1 "[]" ?t "[]" ?E 0 "lit ''a.b''" demo_key ?s ld] front
    by (simp add: proxy_world_start_def)
  moreover have "proxy_step ?E ld ?w2 ?w3"
    using proxy_step.ask [of ?w2 "[]" "?t\<lparr>phase := Asking (lit ''a.b'') demo_key\<rparr>" "[]" "lit ''a.b''" demo_key ?E demo_random
        "Inr demo_reply" ?s ld] ask
    by (simp add: proxy_world_start_def)
  moreover have "proxy_step ?E ld ?w3 ?w4"
    using proxy_step.give_back [of ?w3 "[]" "?t\<lparr>phase := Answering (lit ''a.b'') demo_key (Inr demo_reply)\<rparr>" "[]"
        "lit ''a.b''" demo_key "Inr demo_reply" ?E 1 "Some (with_txid demo_reply 0 7)" "proxy_shared demo_proxy_world" ld] stored
    by (simp add: proxy_world_start_def stored_task_def)
  moreover have "proxy_step ?E ld ?w4 demo_proxy_world"
    using proxy_step.reply_sent [of ?w4 "[]" ?r "[]" "with_txid demo_reply 0 7" ?E ld]
    by (simp add: proxy_world_start_def demo_proxy_world_def)
  ultimately show ?thesis by (meson rtranclp.rtrancl_refl rtranclp.rtrancl_into_rtrancl)
qed

theorem proxy_replies_genuine_witness:
  "\<exists>b t rnd. with_txid demo_reply 0 7 = with_txid b 0 7 \<and> rt_mode t = Plain \<and>
     try_target (proxy_net demo_plain_proxy) xor_aead rnd demo_query t = Some (Inr b)"
proof -
  have "(demo_query, empty_trie, with_txid demo_reply 0 7) \<in> set (proxy_sent demo_proxy_world)"
    by (simp add: demo_proxy_world_def)
  moreover have "check_rules (\<lambda>s. s) (lit ''a.b'') empty_trie = RuleNone" "demo_query ! 0 = 0" "demo_query ! 1 = 7"
    by code_simp+
  moreover have "snd (proxy_cache demo_plain_state) = []" by (simp add: demo_plain_state_def demo_proxy_state_def)
  moreover have "cache_backend (proxy_lru demo_plain_proxy) snd (\<lambda>c. Suc (fst c))"
    using list_cache.cache_backend_axioms by (simp add: demo_plain_proxy_def)
  moreover have lower: "proxy_lower demo_plain_proxy = (\<lambda>s. s)" by (simp add: demo_plain_proxy_def)
  ultimately have "\<exists>b p' t rnd. with_txid demo_reply 0 7 = with_txid b 0 7 \<and> t \<in> set (targets (target_picker demo_plain_state)) \<and>
      proxy_question demo_plain_proxy p' (question_key demo_query (lit ''a.b'') 17) \<and>
      try_target (proxy_net demo_plain_proxy) (proxy_cipher demo_plain_proxy) rnd p' t = Some (Inr b)"
    using proxy_replies_genuine [of demo_plain_proxy snd _ demo_plain_state _ empty_trie None demo_proxy_world demo_query
        empty_trie "with_txid demo_reply 0 7", OF _ _ demo_proxy_world_reached]
    by (simp add: demo_parse)
  then obtain b p' t rnd where "with_txid demo_reply 0 7 = with_txid b 0 7"
    "t \<in> set (targets (target_picker demo_plain_state))"
    "try_target (proxy_net demo_plain_proxy) (proxy_cipher demo_plain_proxy) rnd p' t = Some (Inr b)"
    by blast
  then show ?thesis
    by (intro exI [of _ b] exI [of _ t] exI [of _ rnd])
      (auto simp: demo_plain_state_def demo_plain_proxy_def try_target_def send_plain_def)
qed

end
