(* ===== verification/Whole_Proxy.thy ===== *)
theory Whole_Proxy
  imports Served Proxy_Interleaving
begin

text \<open>
  The proxy as a whole: the composition of \<open>Served\<close> with the handlers of \<open>Proxy_Interleaving\<close>
  (\<open>run_server\<close> of \<open>resolver_proxy/src/main.rs\<close>). The proxy has no obfuscated listener.
\<close>

section \<open>The handlers of the proxy\<close>

definition proxy_handlers ::
  "('c, 'conn, 'k) proxy_server \<Rightarrow> (rstr option \<Rightarrow> conf option) \<Rightarrow> ('c, 'k) proxy_world handler_ops" where
  "proxy_handlers E ld =
     \<lparr>step_of = proxy_step E ld, tasks_in = proxy_tasks, answered_in = (\<lambda>w. map fst (proxy_sent w)),
      spawn_in = (\<lambda>p w. w\<lparr>proxy_tasks := proxy_tasks w @ [fresh_task p (proxy_rules w)]\<rparr>)\<rparr>"

text \<open>The events of the plain listener and of the backlog.\<close>

fun plain_event :: "bytes event \<Rightarrow> bool" where
  "plain_event (ObfsAdmitted _) = False"
| "plain_event (ObfsRefused _) = False"
| "plain_event _ = True"

abbreviation proxy_trace where "proxy_trace E ld \<equiv> served_trace (proxy_handlers E ld) plain_event"

definition proxy_system_start ::
  "('c, 'k) proxy_state \<Rightarrow> domain_trie \<Rightarrow> rstr option \<Rightarrow> ('c, 'k) proxy_world served" where
  "proxy_system_start s tr content = served_start (proxy_world_start s tr content)"

lemma proxy_handlers_sel [simp]:
  "step_of (proxy_handlers E ld) = proxy_step E ld" "tasks_in (proxy_handlers E ld) = proxy_tasks"
  "answered_in (proxy_handlers E ld) = (\<lambda>w. map fst (proxy_sent w))"
  "spawn_in (proxy_handlers E ld) p w = w\<lparr>proxy_tasks := proxy_tasks w @ [fresh_task p (proxy_rules w)]\<rparr>"
  by (simp_all add: proxy_handlers_def)

section \<open>Why a handler ends without a reply\<close>

text \<open>The query of the task cannot be answered: it is too short or its name cannot be read; or the rules of the
  task redirect the name and give no address; or they say nothing about it and the question ends with its
  name.\<close>

definition proxy_unanswerable :: "('c, 'conn, 'k) proxy_server \<Rightarrow> task \<Rightarrow> bool" where
  "proxy_unanswerable E t \<longleftrightarrow> (let p = payload t in
     length p < 12 \<or> parse_domain (proxy_lower E) p 12 = Some None \<or>
     (\<exists>d qe. parse_domain (proxy_lower E) p 12 = Some (Some (d, qe)) \<and>
        (case check_rules (proxy_lower E) d (task_rules t) of
           RuleDrop \<Rightarrow> False
         | RuleRedirect ips \<Rightarrow> craft_redirect_response p qe ips = Some None
         | RuleNone \<Rightarrow> length p < qe + 2)))"

text \<open>No rule of the task is about its name, and no target answers its query.\<close>

definition targets_fail :: "('c, 'conn, 'k) proxy_server \<Rightarrow> 'k resolved_target list \<Rightarrow> task \<Rightarrow> bool" where
  "targets_fail E ts t \<longleftrightarrow>
     (\<exists>d qe. parse_domain (proxy_lower E) (payload t) 12 = Some (Some (d, qe)) \<and>
        check_rules (proxy_lower E) d (task_rules t) = RuleNone) \<and>
     list_all (\<lambda>x. \<exists>rnd e. try_target (proxy_net E) (proxy_cipher E) rnd (payload t) x = Some (Inl e)) ts"

definition proxy_mute :: "('c, 'conn, 'k) proxy_server \<Rightarrow> 'k resolved_target list \<Rightarrow> task \<Rightarrow> bool" where
  "proxy_mute E ts t \<longleftrightarrow> proxy_unanswerable E t \<or> targets_fail E ts t"

lemma forward_loop_fails:
  "forward_loop net A rnd p e i ts = Some (Inl e') \<Longrightarrow> \<forall>t \<in> set ts. \<exists>rnd e. try_target net A rnd p t = Some (Inl e)"
proof (induction ts arbitrary: e i)
  case (Cons t ts)
  then obtain y where y: "try_target net A (rnd i) p t = Some y" by (auto simp: bind_eq_Some_conv)
  show ?case
  proof (cases y)
    case (Inl err)
    with Cons.prems y have "forward_loop net A rnd p err (i + 1) ts = Some (Inl e')" by simp
    with Cons.IH y Inl show ?thesis by fastforce
  next
    case (Inr reply)
    with Cons.prems y show ?thesis by simp
  qed
qed simp

lemma proxy_ask_fails:
  assumes "proxy_ask E rnd p s = Some (Inl e, s')"
  shows "list_all (\<lambda>x. \<exists>rnd e. try_target (proxy_net E) (proxy_cipher E) rnd p x = Some (Inl e)) (targets (target_picker s))"
proof -
  from assms obtain picker where "forward_query (proxy_net E) (proxy_cipher E) rnd p (target_picker s) = Some (Inl e, picker)"
    by (auto simp: proxy_ask_def bind_eq_Some_conv)
  then obtain ts where ts: "try_order (target_picker s) = Some (ts, picker)"
    "forward_loop (proxy_net E) (proxy_cipher E) rnd p NoHealthyResolvers 0 ts = Some (Inl e)"
    by (auto simp: forward_query_def bind_eq_Some_conv)
  then have "set ts = set (targets (target_picker s))" by (metis mset_eq_setD try_order_mset)
  with forward_loop_fails [OF ts(2)] show ?thesis by (simp add: list_all_iff)
qed

lemma proxy_ask_targets: "proxy_ask E rnd p s = Some (r, s') \<Longrightarrow> targets (target_picker s') = targets (target_picker s)"
  by (auto simp: proxy_ask_def bind_eq_Some_conv dest: forward_genuine)

lemma proxy_front_picker:
  assumes "proxy_front E tr now p s = Some (f, s')"
  shows "target_picker s' = target_picker s"
  using assms
proof (cases rule: proxy_front_cases)
  case (question d qe)
  show ?thesis using assms unfolding proxy_front_eq [where E = E, OF question]
    by (auto simp: proxy_incr_def split: rule_match.splits if_splits prod.splits option.splits)
qed simp

lemma proxy_front_mute:
  assumes "proxy_front E (task_rules t) now (payload t) s = Some (Done None, s')"
  shows "proxy_unanswerable E t"
proof (cases "12 \<le> length (payload t) \<and> parse_domain (proxy_lower E) (payload t) 12 \<noteq> Some None")
  case True
  then obtain d qe where d: "12 \<le> length (payload t)" "parse_domain (proxy_lower E) (payload t) 12 = Some (Some (d, qe))"
    using assms by (cases "parse_domain (proxy_lower E) (payload t) 12") (auto simp: proxy_front_def)
  show ?thesis
    using assms d unfolding proxy_front_eq [where E = E, OF d]
    by (auto simp: proxy_unanswerable_def Let_def split: rule_match.splits option.splits if_splits prod.splits)
qed (auto simp: proxy_unanswerable_def Let_def)

lemma proxy_front_unruled:
  assumes "proxy_front E (task_rules t) now (payload t) s = Some (Ask d k, s')"
  shows "proxy_unruled E t d k"
  using assms
proof (cases rule: proxy_front_cases)
  case (question d' qe)
  show ?thesis using assms question unfolding proxy_front_eq [where E = E, OF question]
    by (auto simp: proxy_unruled_def split: rule_match.splits if_splits prod.splits option.splits)
qed simp

lemma proxy_back_result:
  assumes "proxy_back E now k p result s = Some (r, s')" "12 \<le> length p"
  shows "target_picker s' = target_picker s \<and> (r = None \<longleftrightarrow> (\<exists>e. result = Inl e))"
  using assms rd_header [OF assms(2)]
  by (cases result) (auto simp: proxy_back_def proxy_incr_def craft_servfail_eq bind_eq_Some_conv)

section \<open>The invariant of the handlers\<close>

definition proxy_waits :: "('c, 'conn, 'k) proxy_server \<Rightarrow> 'k resolved_target list \<Rightarrow> task \<Rightarrow> bool" where
  "proxy_waits E ts t \<longleftrightarrow>
     (case phase t of
        Asking d k \<Rightarrow> proxy_unruled E t d k
      | Answering d k r \<Rightarrow> proxy_unruled E t d k \<and> (case r of Inl e \<Rightarrow> targets_fail E ts t | Inr _ \<Rightarrow> True)
      | _ \<Rightarrow> True)"

lemma proxy_unruled_phase [simp]: "proxy_unruled E (t\<lparr>phase := ph\<rparr>) = proxy_unruled E t"
  "targets_fail E ts (t\<lparr>phase := ph\<rparr>) = targets_fail E ts t" "proxy_unanswerable E (t\<lparr>phase := ph\<rparr>) = proxy_unanswerable E t"
  by (auto simp: proxy_unruled_def targets_fail_def proxy_unanswerable_def fun_eq_iff)

definition proxy_well ::
  "('c, 'conn, 'k) proxy_server \<Rightarrow> 'k resolved_target list \<Rightarrow> ('c, 'k) proxy_world \<Rightarrow> bool" where
  "proxy_well E ts w \<longleftrightarrow> targets (target_picker (proxy_shared w)) = ts \<and> list_all (proxy_waits E ts) (proxy_tasks w)"

lemma stored_waits [simp]: "list_all (proxy_waits E ts) (stored_task t r)"
  by (simp add: stored_task_def proxy_waits_def split: option.split)

lemma proxy_step_well:
  assumes "proxy_step E ld w w'" "proxy_well E ts w"
  shows "proxy_well E ts w'"
  using assms(1)
proof cases
  case (front_done us t us' now r s')
  then show ?thesis using assms(2) by (auto simp: proxy_well_def dest: proxy_front_picker)
next
  case (front_ask us t us' now d k s')
  then show ?thesis using assms(2) proxy_front_unruled [OF front_ask(4)]
    by (auto simp: proxy_well_def proxy_waits_def dest: proxy_front_picker)
next
  case (ask us t us' d k rnd r s')
  then have t: "proxy_unruled E t d k" using assms(2) by (auto simp: proxy_well_def proxy_waits_def)
  moreover have "r = Inl e \<Longrightarrow> targets_fail E ts t" for e
    using ask t assms(2) proxy_ask_fails [of E rnd "payload t" "proxy_shared w" e s']
    by (auto simp: proxy_well_def targets_fail_def proxy_unruled_def)
  ultimately show ?thesis
    using ask assms(2) proxy_ask_targets [OF ask(4)] by (auto simp: proxy_well_def proxy_waits_def split: sum.split)
next
  case (give_back us t us' d k result now r s')
  then have "12 \<le> length (payload t)" using assms(2) by (auto simp: proxy_well_def proxy_waits_def proxy_unruled_def)
  from proxy_back_result [OF give_back(4) this] give_back assms(2) show ?thesis by (auto simp: proxy_well_def)
qed (use assms(2) in \<open>auto simp: proxy_well_def proxy_waits_def\<close>)

lemma proxy_step_keeps:
  "proxy_step E ld w w' \<Longrightarrow> length (proxy_tasks w') = length (proxy_tasks w) \<Longrightarrow>
     map payload (proxy_tasks w') = map payload (proxy_tasks w) \<and> proxy_sent w' = proxy_sent w"
  by (erule proxy_step.cases) (auto simp: stored_task_def split: option.splits)

lemma proxy_step_ends:
  assumes "proxy_step E ld w w'" "proxy_tasks w = ts @ t # ts'" "proxy_tasks w' = ts @ ts'" "proxy_well E rs w"
  shows "(proxy_sent w' = proxy_sent w \<and> proxy_mute E rs t) \<or>
    (\<exists>tr r. proxy_sent w' = proxy_sent w @ [(payload t, tr, r)])"
proof -
  have len: "length (proxy_tasks w') < length (proxy_tasks w)" by (simp add: assms(2,3))
  show ?thesis
    using assms(1)
  proof cases
    case (front_done us u us' now r s')
    then have r: "r = None" using len by (auto simp: stored_task_def split: option.splits)
    with front_done have "ts @ t # ts' = us @ u # us'" "ts @ ts' = us @ us'" using assms(2,3) by (simp_all add: stored_task_def)
    from taken_apart [OF this] show ?thesis using r front_done proxy_front_mute by (auto simp: proxy_mute_def)
  next
    case (give_back us u us' d k result now r s')
    then have r: "r = None" using len by (auto simp: stored_task_def split: option.splits)
    with give_back have "ts @ t # ts' = us @ u # us'" "ts @ ts' = us @ us'" using assms(2,3) by (simp_all add: stored_task_def)
    from taken_apart [OF this] have "u = t" by simp
    moreover have w: "proxy_waits E rs u" using assms(4) give_back by (auto simp: proxy_well_def)
    moreover have "12 \<le> length (payload u)" using w give_back by (auto simp: proxy_waits_def proxy_unruled_def)
    ultimately show ?thesis
      using r give_back proxy_back_result [OF give_back(4)] by (auto simp: proxy_waits_def proxy_mute_def)
  next
    case (reply_sent us u us' b)
    then have "ts @ t # ts' = us @ u # us'" "ts @ ts' = us @ us'" using assms(2,3) by simp_all
    from taken_apart [OF this] show ?thesis using reply_sent by auto
  qed (use len in simp_all)
qed

interpretation proxy_pool: handler_pool "proxy_handlers E ld" "proxy_well E ts" "proxy_mute E ts"
  for E :: "('c, 'conn, 'k) proxy_server" and ld and ts
proof
  fix w :: "('c, 'k) proxy_world" and p
  show "step_of (proxy_handlers E ld) w (spawn_in (proxy_handlers E ld) p w)"
    by (simp add: proxy_step.accept)
qed (auto simp: proxy_step_well proxy_step_keeps dest: proxy_step_ends)

lemma proxy_trace_world: "proxy_trace E ld S es S' \<Longrightarrow> proxy_steps E ld (handlers S) (handlers S')"
  using proxy_pool.served_trace_handlers [of E ld plain_event S es S'] by simp

section \<open>Properties\<close>

text \<open>C12: The proxy as a whole accounts for every query, under every interleaving of its listener, backlog,
  handlers and reloads: each query that arrived has been answered exactly once, or ended in silence because
  it cannot be answered (it is too short or unreadable; or the rules its task ran under redirect the name to
  no address; or they say nothing about it and it has no type) or because those rules say nothing about it
  and every target failed it, or was turned away or found stale under load, or
  is in one of at most 512 handlers, or still waits.\<close>

theorem every_proxy_query_accounted:
  assumes "proxy_trace E ld (proxy_system_start s tr content) es S"
  shows "mset (all_of offered es) =
      mset (map fst (proxy_sent (handlers S))) + mset (map payload (silent S)) + mset (all_of dropped es)
      + mset (map payload (proxy_tasks (handlers S))) + mset (waiting (admissions S)) \<and>
    list_all (\<lambda>t. proxy_unanswerable E t \<or> targets_fail E (targets (target_picker s)) t) (silent S) \<and>
    length (proxy_tasks (handlers S)) \<le> 512"
proof -
  have "proxy_well E (targets (target_picker s)) (proxy_world_start s tr content)"
    by (simp add: proxy_well_def proxy_world_start_def)
  from proxy_pool.served_accounted [OF assms [unfolded proxy_system_start_def] this]
  show ?thesis by (simp add: proxy_world_start_def proxy_mute_def list_all_iff)
qed

text \<open>A query of one byte arrives, gets a permit and is dropped in silence.\<close>

theorem every_proxy_query_accounted_witness:
  "\<exists>es S. proxy_trace demo_plain_proxy (\<lambda>_. None) (proxy_system_start demo_plain_state empty_trie None) es S \<and>
     all_of offered es = [[7]] \<and> map payload (silent S) = [[7]] \<and> list_all (proxy_mute demo_plain_proxy (targets (target_picker demo_plain_state))) (silent S)"
proof -
  let ?H = "proxy_handlers demo_plain_proxy (\<lambda>_. None)" and ?S = "proxy_system_start demo_plain_state empty_trie None"
  let ?b = "server_start\<lparr>batch := [[7]]\<rparr>" and ?a = "spawn [7] server_start"
  let ?w = "(proxy_world_start demo_plain_state empty_trie None)\<lparr>proxy_tasks := [fresh_task [7] empty_trie]\<rparr>"
  let ?R = "?S\<lparr>admissions := ?b\<rparr>" and ?T = "?S\<lparr>admissions := ?a, handlers := ?w\<rparr>"
  let ?U = "?T\<lparr>admissions := finish [7] ?a, handlers := ?w\<lparr>proxy_tasks := []\<rparr>, silent := [fresh_task [7] empty_trie]\<rparr>"
  note sys = proxy_system_start_def served_start_def
  have "server_step (admissions ?S) (Arrived [[7]]) ?b"
    using server_step.arrive [of "admissions ?S" "[[7]]"] by (simp add: sys server_start_def loop_constants)
  from served_step.queueing [OF this, of plain_event ?H] have zero: "served_step ?H plain_event ?S [Arrived [[7]]] ?R" by simp
  have "admit [7] (?b\<lparr>batch := []\<rparr>) = (Admitted [7], ?a)"
    by (simp add: admit_def spawn_def server_start_def RESOLVE_SEMAPHORE_def)
  then have "server_step (admissions ?R) (Admitted [7]) ?a" by (intro server_step.listen [of _ "[7]" "[]"]) simp_all
  from served_step.spawning [OF this, of plain_event "[7]" ?H] have one: "served_step ?H plain_event ?R [Admitted [7]] ?T"
    by (simp add: sys proxy_world_start_def)
  have "proxy_step demo_plain_proxy (\<lambda>_. None) ?w (?w\<lparr>proxy_tasks := []\<rparr>)"
    using proxy_step.front_done [of ?w "[]" "fresh_task [7] empty_trie" "[]" demo_plain_proxy 0 None demo_plain_state "\<lambda>_. None"]
    by (simp add: proxy_front_def proxy_world_start_def stored_task_def)
  moreover have "server_step (admissions ?T) (Finished [7]) (finish [7] ?a)"
    using server_step.finished [of "[7]" ?a] by (simp add: spawn_def)
  ultimately have "served_step ?H plain_event ?T [Finished [7]] ?U"
    using served_step.ending [of ?H ?T "?w\<lparr>proxy_tasks := []\<rparr>" "[]" "fresh_task [7] empty_trie" "[]" "finish [7] ?a" plain_event]
    by (simp add: sys)
  from served_trace.step [OF served_trace.step [OF served_trace.step [OF served_trace.start zero] one] this]
  have t: "proxy_trace demo_plain_proxy (\<lambda>_. None) ?S ([] @ [Arrived [[7]]] @ [Admitted [7]] @ [Finished [7]]) ?U" by simp
  have "all_of offered [Arrived [[7]], Admitted [7], Finished [7 :: u8]] = [[7]]" by simp
  with every_proxy_query_accounted [OF t] t show ?thesis by (intro exI) (auto simp: proxy_mute_def)
qed

end
