(* ===== verification/Conf_File.thy ===== *)
theory Conf_File
  imports Relay Proxy_Handler Config_Reload
begin

text \<open>
  The configuration files of both programs (\<open>Conf\<close> and \<open>load_conf\<close> of \<open>dns_relay/src/conf.rs\<close> and of
  \<open>resolver_proxy/src/conf.rs\<close>, \<open>MetricConf\<close> of \<open>shared/src/metric_wrapper.rs\<close>): the records, the keys that
  may be left out with the values they then have, and the errors of loading.

  The crate \<open>toml\<close> turns a text into a value or refuses it; that is the parameter \<open>parse_toml\<close>. What the
  \<open>Deserialize\<close> derived for a structure does with a value follows from its declaration: each field is
  looked up by its key in a table, or taken by its position in an array; unknown keys are ignored; a
  field without \<open>serde(default)\<close> must be there. \<open>conforms\<close> states the same as a type of values.
\<close>

section \<open>Configuration\<close>

record searching_conf =
  s_enable :: bool
  resolver_source :: "rstr list"
  resfresh_interval :: "nat option"
  s_ipv4 :: bool
  s_doh :: bool

record hotreload_conf =
  hr_enable :: bool
  poll_interval_ms :: nat

datatype report_type = Log | Http

record metric_conf =
  m_enable :: bool
  m_report_type :: report_type
  m_report_interval :: nat

record relays_conf =
  rl_enable :: bool
  resolve_manual :: bool
  relay_timeout_sec :: nat
  relay_instances :: "relay_conf list"

record record_history_conf =
  matched_list :: "rstr list"
  history_lines :: nat

record obfs_conf =
  ob_enable :: bool
  ob_bind_addr :: rstr
  ob_keys :: "rstr list"

record relay_settings = conf +
  dns_target :: rstr
  resolvers :: "rstr list"
  resolver_searching :: searching_conf
  hotreload :: hotreload_conf
  relays :: relays_conf
  metric_settings :: metric_conf
  vpn_reassertion :: bool
  init_tls :: bool
  record_history :: bool
  history_settings :: "record_history_conf option"
  obfs :: obfs_conf

record proxy_conf =
  listen_addr :: rstr
  pc_targets :: "proxy_target list"
  pc_strategy :: proxy_strategy
  upstream_timeout_ms :: nat

record proxy_settings = conf +
  p_dns_target :: rstr
  p_targets :: proxy_conf
  p_hotreload :: hotreload_conf
  p_metrics :: metric_conf
  p_vpn_reassertion :: bool

text \<open>Values of keys and sections that the file leaves out. A section that derives \<open>Default\<close> has the zero value of
  each field, not the defaults of its own keys.\<close>

definition relay_hotreload_default :: hotreload_conf where
  "relay_hotreload_default = \<lparr>hr_enable = True, poll_interval_ms = 100\<rparr>"

definition proxy_hotreload_default :: hotreload_conf where
  "proxy_hotreload_default = \<lparr>hr_enable = False, poll_interval_ms = 0\<rparr>"

definition default_dns_target :: rstr where "default_dns_target = lit ''127.0.0.1:53''"
definition proxy_default_dns_target :: rstr where "proxy_default_dns_target = lit ''127.0.0.1:53''"
definition default_obfs_bind :: rstr where "default_obfs_bind = lit ''0.0.0.0:8853''"
definition default_relay_timeout_sec :: nat where "default_relay_timeout_sec = 5"
definition default_report_interval :: nat where "default_report_interval = 30"
definition default_false :: bool where "default_false = False"
definition default_empty_vec :: "'a list" where "default_empty_vec = []"
definition default_strategy :: proxy_strategy where "default_strategy = Ordered"
definition default_upstream_timeout_ms :: nat where "default_upstream_timeout_ms = 2000"

definition searching_default :: searching_conf where
  "searching_default = \<lparr>s_enable = False, resolver_source = [], resfresh_interval = None, s_ipv4 = False, s_doh = False\<rparr>"

definition relays_default :: relays_conf where
  "relays_default = \<lparr>rl_enable = False, resolve_manual = False, relay_timeout_sec = 0, relay_instances = []\<rparr>"

definition metric_default :: metric_conf where
  "metric_default = \<lparr>m_enable = False, m_report_type = Log, m_report_interval = 0\<rparr>"

definition obfs_default :: obfs_conf where
  "obfs_default = \<lparr>ob_enable = False, ob_bind_addr = [], ob_keys = []\<rparr>"

section \<open>Values\<close>

datatype toml =
    TBool bool
  | TInt int
  | TStr rstr
  | TArr "toml list"
  | TTable "(rstr \<times> toml) list"
  | TOther \<comment> \<open>floats, dates and times\<close>

text \<open>A variant without fields is named by a string; what else the crate takes for one is \<open>tagged_variant\<close>.\<close>

record toml_crate =
  parse_toml :: "rstr \<Rightarrow> toml option"
  tagged_variant :: "toml \<Rightarrow> rstr option"

definition read_bool :: "toml \<Rightarrow> bool option" where
  "read_bool v = (case v of TBool b \<Rightarrow> Some b | _ \<Rightarrow> None)"

text \<open>\<open>u64\<close>, and \<open>usize\<close> on a machine of 64 bits.\<close>

definition read_u64 :: "toml \<Rightarrow> nat option" where
  "read_u64 v = (case v of TInt i \<Rightarrow> if 0 \<le> i \<and> i < 2 ^ 64 then Some (nat i) else None | _ \<Rightarrow> None)"

definition read_str :: "toml \<Rightarrow> rstr option" where
  "read_str v = (case v of TStr s \<Rightarrow> Some s | _ \<Rightarrow> None)"

definition read_list :: "(toml \<Rightarrow> 'a option) \<Rightarrow> toml \<Rightarrow> 'a list option" where
  "read_list r v = (case v of TArr vs \<Rightarrow> those (map r vs) | _ \<Rightarrow> None)"

definition variant_name :: "toml_crate \<Rightarrow> toml \<Rightarrow> rstr option" where
  "variant_name T v = (case v of TStr s \<Rightarrow> Some s | _ \<Rightarrow> tagged_variant T v)"

definition read_variant :: "toml_crate \<Rightarrow> (rstr \<times> 'a) list \<Rightarrow> toml \<Rightarrow> 'a option" where
  "read_variant T names v = (case variant_name T v of Some s \<Rightarrow> map_of names s | None \<Rightarrow> None)"

definition is_struct :: "toml \<Rightarrow> bool" where
  "is_struct v = (case v of TTable _ \<Rightarrow> True | TArr _ \<Rightarrow> True | _ \<Rightarrow> False)"

definition field :: "nat \<Rightarrow> string \<Rightarrow> toml \<Rightarrow> toml option" where
  "field i k v =
     (case v of
        TTable t \<Rightarrow> map_of t (lit k)
      | TArr vs \<Rightarrow> if i < length vs then Some (vs ! i) else None
      | _ \<Rightarrow> None)"

definition required :: "(toml \<Rightarrow> 'a option) \<Rightarrow> nat \<Rightarrow> string \<Rightarrow> toml \<Rightarrow> 'a option" where
  "required r i k v = (case field i k v of Some x \<Rightarrow> r x | None \<Rightarrow> None)"

definition defaulted :: "'a \<Rightarrow> (toml \<Rightarrow> 'a option) \<Rightarrow> nat \<Rightarrow> string \<Rightarrow> toml \<Rightarrow> 'a option" where
  "defaulted d r i k v = (case field i k v of Some x \<Rightarrow> r x | None \<Rightarrow> Some d)"

definition read_struct :: "(toml \<Rightarrow> 'a option) \<Rightarrow> toml \<Rightarrow> 'a option" where
  "read_struct body v = (if is_struct v then body v else None)"

definition read_redirects :: "toml \<Rightarrow> (rstr \<times> rstr) list option" where
  "read_redirects v = do {
     entries \<leftarrow> read_list read_str v;
     (case deserialize_redirect_list entries of Inl _ \<Rightarrow> None | Inr ps \<Rightarrow> Some ps) }"

section \<open>Sections of the files\<close>

definition read_hotreload :: "toml \<Rightarrow> hotreload_conf option" where
  "read_hotreload = read_struct (\<lambda>v. do {
     e \<leftarrow> required read_bool 0 ''enable'' v;
     p \<leftarrow> required read_u64 1 ''poll_interval_ms'' v;
     Some \<lparr>hr_enable = e, poll_interval_ms = p\<rparr> })"

definition read_report_type :: "toml_crate \<Rightarrow> toml \<Rightarrow> report_type option" where
  "read_report_type T = read_variant T [(lit ''log'', Log), (lit ''http'', Http)]"

definition read_metric_conf :: "toml_crate \<Rightarrow> toml \<Rightarrow> metric_conf option" where
  "read_metric_conf T = read_struct (\<lambda>v. do {
     e \<leftarrow> required read_bool 0 ''enable'' v;
     t \<leftarrow> required (read_report_type T) 1 ''report_type'' v;
     n \<leftarrow> defaulted default_report_interval read_u64 2 ''report_interval'' v;
     Some \<lparr>m_enable = e, m_report_type = t, m_report_interval = n\<rparr> })"

definition read_searching :: "toml \<Rightarrow> searching_conf option" where
  "read_searching = read_struct (\<lambda>v. do {
     e \<leftarrow> required read_bool 0 ''enable'' v;
     srcs \<leftarrow> required (read_list read_str) 1 ''resolver_source'' v;
     n \<leftarrow> defaulted None (\<lambda>x. map_option Some (read_u64 x)) 2 ''resfresh_interval'' v;
     v4 \<leftarrow> required read_bool 3 ''ipv4'' v;
     doh \<leftarrow> required read_bool 4 ''doh'' v;
     Some \<lparr>s_enable = e, resolver_source = srcs, resfresh_interval = n, s_ipv4 = v4, s_doh = doh\<rparr> })"

definition read_transport :: "toml_crate \<Rightarrow> toml \<Rightarrow> relay_transport option" where
  "read_transport T = read_variant T [(lit ''direct'', Direct), (lit ''google_chained'', GoogleChained)]"

definition read_relay :: "toml_crate \<Rightarrow> toml \<Rightarrow> relay_conf option" where
  "read_relay T = read_struct (\<lambda>v. do {
     k \<leftarrow> required read_str 0 ''relay_key'' v;
     u \<leftarrow> required read_str 1 ''relay_url'' v;
     t \<leftarrow> required (read_transport T) 2 ''transport'' v;
     Some \<lparr>relay_key = k, relay_url = u, relay_transport = t\<rparr> })"

definition read_relays :: "toml_crate \<Rightarrow> toml \<Rightarrow> relays_conf option" where
  "read_relays T = read_struct (\<lambda>v. do {
     e \<leftarrow> required read_bool 0 ''enable'' v;
     m \<leftarrow> required read_bool 1 ''resolve_manual'' v;
     n \<leftarrow> defaulted default_relay_timeout_sec read_u64 2 ''relay_timeout_sec'' v;
     rs \<leftarrow> required (read_list (read_relay T)) 3 ''relay_instances'' v;
     Some \<lparr>rl_enable = e, resolve_manual = m, relay_timeout_sec = n, relay_instances = rs\<rparr> })"

definition read_history_conf :: "toml \<Rightarrow> record_history_conf option" where
  "read_history_conf = read_struct (\<lambda>v. do {
     m \<leftarrow> required (read_list read_str) 0 ''matched_list'' v;
     n \<leftarrow> required read_u64 1 ''lines'' v;
     Some \<lparr>matched_list = m, history_lines = n\<rparr> })"

definition read_obfs_conf :: "toml \<Rightarrow> obfs_conf option" where
  "read_obfs_conf = read_struct (\<lambda>v. do {
     e \<leftarrow> defaulted False read_bool 0 ''enable'' v;
     a \<leftarrow> defaulted default_obfs_bind read_str 1 ''bind_addr'' v;
     ks \<leftarrow> defaulted [] (read_list read_str) 2 ''keys'' v;
     Some \<lparr>ob_enable = e, ob_bind_addr = a, ob_keys = ks\<rparr> })"

definition read_relay_settings :: "toml_crate \<Rightarrow> toml \<Rightarrow> relay_settings option" where
  "read_relay_settings T = read_struct (\<lambda>v. do {
     target \<leftarrow> defaulted default_dns_target read_str 0 ''dns_target'' v;
     drops \<leftarrow> required (read_list read_str) 1 ''drop_list'' v;
     redirects \<leftarrow> required read_redirects 2 ''redirect_list'' v;
     rs \<leftarrow> required (read_list read_str) 3 ''resolvers'' v;
     searching \<leftarrow> defaulted searching_default read_searching 4 ''resolver_searching'' v;
     hot \<leftarrow> defaulted relay_hotreload_default read_hotreload 5 ''hotreload_conf'' v;
     rl \<leftarrow> defaulted relays_default (read_relays T) 6 ''relay_conf'' v;
     m \<leftarrow> defaulted metric_default (read_metric_conf T) 7 ''metric_conf'' v;
     vpn \<leftarrow> defaulted default_false read_bool 8 ''vpn_reassertion'' v;
     tls \<leftarrow> defaulted default_false read_bool 9 ''init_tls'' v;
     h \<leftarrow> defaulted default_false read_bool 10 ''record_history'' v;
     hc \<leftarrow> defaulted None (\<lambda>x. map_option Some (read_history_conf x)) 11 ''record_history_conf'' v;
     ob \<leftarrow> defaulted obfs_default read_obfs_conf 12 ''obfs_conf'' v;
     Some \<lparr>drop_list = drops, redirect_list = redirects, dns_target = target, resolvers = rs,
       resolver_searching = searching, hotreload = hot, relays = rl, metric_settings = m, vpn_reassertion = vpn,
       init_tls = tls, record_history = h, history_settings = hc, obfs = ob\<rparr> })"

section \<open>The file of the proxy\<close>

definition read_mode :: "toml_crate \<Rightarrow> toml \<Rightarrow> transport_mode option" where
  "read_mode T = read_variant T [(lit ''plain'', Plain), (lit ''udp_obfs'', UdpObfs)]"

definition read_target :: "toml_crate \<Rightarrow> toml \<Rightarrow> proxy_target option" where
  "read_target T = read_struct (\<lambda>v. do {
     n \<leftarrow> required read_str 0 ''name'' v;
     m \<leftarrow> required (read_mode T) 1 ''mode'' v;
     a \<leftarrow> required read_str 2 ''address'' v;
     k \<leftarrow> defaulted None (\<lambda>x. map_option Some (read_str x)) 3 ''shared_key'' v;
     Some \<lparr>pt_name = n, pt_mode = m, pt_address = a, pt_shared_key = k\<rparr> })"

definition read_strategy :: "toml_crate \<Rightarrow> toml \<Rightarrow> proxy_strategy option" where
  "read_strategy T = read_variant T [(lit ''ordered'', Ordered), (lit ''round_robin'', RoundRobin)]"

text \<open>\<open>ProxyConf\<close>: the address and the time limit are read, and nothing uses them.\<close>

definition read_proxy_conf :: "toml_crate \<Rightarrow> toml \<Rightarrow> proxy_conf option" where
  "read_proxy_conf T = read_struct (\<lambda>v. do {
     a \<leftarrow> required read_str 0 ''listen_addr'' v;
     ts \<leftarrow> required (read_list (read_target T)) 1 ''targets'' v;
     s \<leftarrow> defaulted default_strategy (read_strategy T) 2 ''strategy'' v;
     n \<leftarrow> defaulted default_upstream_timeout_ms read_u64 3 ''upstream_timeout_ms'' v;
     Some \<lparr>listen_addr = a, pc_targets = ts, pc_strategy = s, upstream_timeout_ms = n\<rparr> })"

definition read_proxy_settings :: "toml_crate \<Rightarrow> toml \<Rightarrow> proxy_settings option" where
  "read_proxy_settings T = read_struct (\<lambda>v. do {
     drops \<leftarrow> defaulted default_empty_vec (read_list read_str) 0 ''drop_list'' v;
     redirects \<leftarrow> defaulted default_empty_vec read_redirects 1 ''redirect_list'' v;
     hot \<leftarrow> defaulted proxy_hotreload_default read_hotreload 2 ''hotreload_conf'' v;
     m \<leftarrow> defaulted metric_default (read_metric_conf T) 3 ''metric_conf'' v;
     vpn \<leftarrow> defaulted default_false read_bool 4 ''vpn_reassertion'' v;
     ts \<leftarrow> required (read_proxy_conf T) 5 ''targets'' v;
     target \<leftarrow> defaulted proxy_default_dns_target read_str 6 ''dns_target'' v;
     Some \<lparr>drop_list = drops, redirect_list = redirects, p_dns_target = target, p_targets = ts,
       p_hotreload = hot, p_metrics = m, p_vpn_reassertion = vpn\<rparr> })"

section \<open>Loading\<close>

text \<open>\<open>content\<close> is what reading the file gives. The relay passes the error of reading on, the proxy makes it
  an error of the configuration.\<close>

definition load_conf :: "toml_crate \<Rightarrow> rstr option \<Rightarrow> error + relay_settings" where
  "load_conf T content =
     (case content of
        None \<Rightarrow> Inl Io
      | Some s \<Rightarrow>
          (case Option.bind (parse_toml T s) (read_relay_settings T) of None \<Rightarrow> Inl Config | Some c \<Rightarrow> Inr c))"

definition proxy_load_conf :: "toml_crate \<Rightarrow> rstr option \<Rightarrow> error + proxy_settings" where
  "proxy_load_conf T content =
     (case content of
        None \<Rightarrow> Inl Config
      | Some s \<Rightarrow>
          (case Option.bind (parse_toml T s) (read_proxy_settings T) of None \<Rightarrow> Inl Config | Some c \<Rightarrow> Inr c))"

section \<open>Types of values\<close>

datatype presence = Required | Optional

datatype ty =
    BoolTy
  | U64Ty
  | StrTy
  | VariantTy "rstr list"
  | ListTy ty
  | RedirectsTy
  | StructTy field_tys
and field_tys = End | Field string presence ty field_tys

primrec conforms :: "toml_crate \<Rightarrow> ty \<Rightarrow> toml \<Rightarrow> bool"
  and conform_fields :: "toml_crate \<Rightarrow> field_tys \<Rightarrow> nat \<Rightarrow> toml \<Rightarrow> bool" where
  "conforms T BoolTy v = (\<exists>b. v = TBool b)"
| "conforms T U64Ty v = (\<exists>n. v = TInt (int n) \<and> n < 2 ^ 64)"
| "conforms T StrTy v = (\<exists>s. v = TStr s)"
| "conforms T (VariantTy names) v = (\<exists>s \<in> set names. variant_name T v = Some s)"
| "conforms T (ListTy t) v = (\<exists>vs. v = TArr vs \<and> (\<forall>x \<in> set vs. conforms T t x))"
| "conforms T RedirectsTy v = (\<exists>es. v = TArr (map TStr es) \<and> (\<forall>e \<in> set es. colon \<in> set e))"
| "conforms T (StructTy fs) v = (is_struct v \<and> conform_fields T fs 0 v)"
| "conform_fields T End i v = True"
| "conform_fields T (Field k p t fs) i v =
     ((case field i k v of None \<Rightarrow> p = Optional | Some x \<Rightarrow> conforms T t x) \<and> conform_fields T fs (Suc i) v)"

definition hotreload_ty :: ty where
  "hotreload_ty = StructTy (Field ''enable'' Required BoolTy (Field ''poll_interval_ms'' Required U64Ty End))"

definition metric_ty :: ty where
  "metric_ty = StructTy (Field ''enable'' Required BoolTy
     (Field ''report_type'' Required (VariantTy [lit ''log'', lit ''http''])
     (Field ''report_interval'' Optional U64Ty End)))"

definition searching_ty :: ty where
  "searching_ty = StructTy (Field ''enable'' Required BoolTy (Field ''resolver_source'' Required (ListTy StrTy)
     (Field ''resfresh_interval'' Optional U64Ty (Field ''ipv4'' Required BoolTy (Field ''doh'' Required BoolTy End)))))"

definition relay_ty :: ty where
  "relay_ty = StructTy (Field ''relay_key'' Required StrTy (Field ''relay_url'' Required StrTy
     (Field ''transport'' Required (VariantTy [lit ''direct'', lit ''google_chained'']) End)))"

definition relays_ty :: ty where
  "relays_ty = StructTy (Field ''enable'' Required BoolTy (Field ''resolve_manual'' Required BoolTy
     (Field ''relay_timeout_sec'' Optional U64Ty (Field ''relay_instances'' Required (ListTy relay_ty) End))))"

definition history_ty :: ty where
  "history_ty = StructTy (Field ''matched_list'' Required (ListTy StrTy) (Field ''lines'' Required U64Ty End))"

definition obfs_ty :: ty where
  "obfs_ty = StructTy (Field ''enable'' Optional BoolTy (Field ''bind_addr'' Optional StrTy
     (Field ''keys'' Optional (ListTy StrTy) End)))"

definition relay_file_ty :: ty where
  "relay_file_ty = StructTy
     (Field ''dns_target'' Optional StrTy (Field ''drop_list'' Required (ListTy StrTy)
     (Field ''redirect_list'' Required RedirectsTy (Field ''resolvers'' Required (ListTy StrTy)
     (Field ''resolver_searching'' Optional searching_ty (Field ''hotreload_conf'' Optional hotreload_ty
     (Field ''relay_conf'' Optional relays_ty (Field ''metric_conf'' Optional metric_ty
     (Field ''vpn_reassertion'' Optional BoolTy (Field ''init_tls'' Optional BoolTy
     (Field ''record_history'' Optional BoolTy (Field ''record_history_conf'' Optional history_ty
     (Field ''obfs_conf'' Optional obfs_ty End)))))))))))))"

definition target_ty :: ty where
  "target_ty = StructTy (Field ''name'' Required StrTy (Field ''mode'' Required (VariantTy [lit ''plain'', lit ''udp_obfs''])
     (Field ''address'' Required StrTy (Field ''shared_key'' Optional StrTy End))))"

definition proxy_conf_ty :: ty where
  "proxy_conf_ty = StructTy (Field ''listen_addr'' Required StrTy (Field ''targets'' Required (ListTy target_ty)
     (Field ''strategy'' Optional (VariantTy [lit ''ordered'', lit ''round_robin''])
     (Field ''upstream_timeout_ms'' Optional U64Ty End))))"

definition proxy_file_ty :: ty where
  "proxy_file_ty = StructTy
     (Field ''drop_list'' Optional (ListTy StrTy) (Field ''redirect_list'' Optional RedirectsTy
     (Field ''hotreload_conf'' Optional hotreload_ty (Field ''metric_conf'' Optional metric_ty
     (Field ''vpn_reassertion'' Optional BoolTy (Field ''targets'' Required proxy_conf_ty
     (Field ''dns_target'' Optional StrTy End)))))))"

section \<open>A reader accepts the values of its type\<close>

text \<open>\<open>reads T t r\<close>: the reader \<open>r\<close> succeeds on exactly the values of type \<open>t\<close>.\<close>

definition reads :: "toml_crate \<Rightarrow> ty \<Rightarrow> (toml \<Rightarrow> 'a option) \<Rightarrow> bool" where
  "reads T t r \<longleftrightarrow> (\<forall>v. r v \<noteq> None \<longleftrightarrow> conforms T t v)"

lemma readsI: "(\<And>v. r v \<noteq> None \<longleftrightarrow> conforms T t v) \<Longrightarrow> reads T t r"
  by (simp add: reads_def)

lemma those_Some: "those (map r vs) \<noteq> None \<longleftrightarrow> (\<forall>x \<in> set vs. r x \<noteq> None)"
  by (induction vs) (auto split: option.splits)

named_theorems readers \<open>readers and the types of the values they accept\<close>

lemma reads_bool [readers]: "reads T BoolTy read_bool"
  by (rule readsI) (simp add: read_bool_def split: toml.split)

lemma reads_str [readers]: "reads T StrTy read_str"
  by (rule readsI) (simp add: read_str_def split: toml.split)

lemma reads_u64 [readers]: "reads T U64Ty read_u64"
proof (rule readsI)
  fix v
  have "0 \<le> i \<and> i < 2 ^ 64 \<longleftrightarrow> (\<exists>n. i = int n \<and> n < 2 ^ 64)" for i :: int
    by (cases i) auto
  then show "read_u64 v \<noteq> None \<longleftrightarrow> conforms T U64Ty v" by (auto simp: read_u64_def split: toml.split)
qed

lemma reads_list [readers]: "reads T t r \<Longrightarrow> reads T (ListTy t) (read_list r)"
  using those_Some [of r] by (auto simp: reads_def read_list_def split: toml.split)

lemma reads_variant: "names = map fst ns \<Longrightarrow> reads T (VariantTy names) (read_variant T ns)"
proof (rule readsI)
  fix v
  assume names: "names = map fst ns"
  have "map_of ns s \<noteq> None \<longleftrightarrow> s \<in> set names" for s by (simp add: names map_of_eq_None_iff)
  then show "read_variant T ns v \<noteq> None \<longleftrightarrow> conforms T (VariantTy names) v"
    by (auto simp: read_variant_def split: option.split)
qed

lemma reads_some [readers]: "reads T t r \<Longrightarrow> reads T t (\<lambda>x. map_option Some (r x))"
  by (simp add: reads_def)

lemma reads_struct:
  assumes "\<And>v. body v \<noteq> None \<longleftrightarrow> conform_fields T fs 0 v"
  shows "reads T (StructTy fs) (read_struct body)"
  using assms by (simp add: reads_def read_struct_def)

lemma those_strings: "those (map read_str vs) = Some es \<longleftrightarrow> vs = map TStr es"
proof (induction vs arbitrary: es)
  case (Cons v vs)
  then show ?case by (cases es; cases v) (auto simp: read_str_def)
qed auto

lemma reads_redirects [readers]: "reads T RedirectsTy read_redirects"
proof (rule readsI)
  fix v
  have list: "read_list read_str v = Some es \<longleftrightarrow> v = TArr (map TStr es)" for es
    by (auto simp: read_list_def those_strings split: toml.split)
  have ok: "(case deserialize_redirect_list es of Inl _ \<Rightarrow> None | Inr ps \<Rightarrow> Some ps) \<noteq> None
      \<longleftrightarrow> (\<forall>e \<in> set es. colon \<in> set e)" for es
    by (induction es) (auto simp: split_once_def split: sum.split)
  show "read_redirects v \<noteq> None \<longleftrightarrow> conforms T RedirectsTy v"
    using ok by (fastforce simp: read_redirects_def bind_eq_Some_conv list)
qed

text \<open>One field of a structure at a time.\<close>

lemma field_step:
  assumes "j = i" "reads T t r" "\<And>x. rest x \<noteq> None \<longleftrightarrow> conform_fields T fs (Suc i) v"
  shows "Option.bind (required r j k v) rest \<noteq> None \<longleftrightarrow> conform_fields T (Field k Required t fs) i v"
    and "Option.bind (defaulted d r j k v) rest \<noteq> None \<longleftrightarrow> conform_fields T (Field k Optional t fs) i v"
proof -
  have "r x \<noteq> None \<longleftrightarrow> conforms T t x" for x using assms(2) unfolding reads_def by (rule spec)
  then have r: "Option.bind (r x) rest \<noteq> None \<longleftrightarrow> conforms T t x \<and> conform_fields T fs (Suc i) v" for x
    using assms(3) by (cases "r x") force+
  show "Option.bind (required r j k v) rest \<noteq> None \<longleftrightarrow> conform_fields T (Field k Required t fs) i v"
    using r assms(1) by (simp add: required_def split: option.split)
  show "Option.bind (defaulted d r j k v) rest \<noteq> None \<longleftrightarrow> conform_fields T (Field k Optional t fs) i v"
    using r assms(1) assms(3) [of d] by (simp add: defaulted_def split: option.split)
qed

lemma no_field: "Some x \<noteq> None \<longleftrightarrow> conform_fields T End i v"
  by simp

lemmas section_reader = reads_struct field_step no_field reads_variant readers

lemma reads_hotreload [readers]: "reads T hotreload_ty read_hotreload"
  unfolding hotreload_ty_def read_hotreload_def by (rule section_reader | simp (no_asm); fail)+

lemma reads_report_type [readers]: "reads T (VariantTy [lit ''log'', lit ''http'']) (read_report_type T)"
  unfolding read_report_type_def by (rule section_reader | simp (no_asm); fail)+

lemma reads_metric [readers]: "reads T metric_ty (read_metric_conf T)"
  unfolding metric_ty_def read_metric_conf_def by (rule section_reader readers | simp (no_asm); fail)+

lemma reads_searching [readers]: "reads T searching_ty read_searching"
  unfolding searching_ty_def read_searching_def by (rule section_reader readers | simp (no_asm); fail)+

lemma reads_transport [readers]: "reads T (VariantTy [lit ''direct'', lit ''google_chained'']) (read_transport T)"
  unfolding read_transport_def by (rule section_reader | simp (no_asm); fail)+

lemma reads_relay [readers]: "reads T relay_ty (read_relay T)"
  unfolding relay_ty_def read_relay_def by (rule section_reader readers | simp (no_asm); fail)+

lemma reads_relays [readers]: "reads T relays_ty (read_relays T)"
  unfolding relays_ty_def read_relays_def by (rule section_reader readers | simp (no_asm); fail)+

lemma reads_history [readers]: "reads T history_ty read_history_conf"
  unfolding history_ty_def read_history_conf_def by (rule section_reader readers | simp (no_asm); fail)+

lemma reads_obfs [readers]: "reads T obfs_ty read_obfs_conf"
  unfolding obfs_ty_def read_obfs_conf_def by (rule section_reader readers | simp (no_asm); fail)+

lemma reads_relay_settings [readers]: "reads T relay_file_ty (read_relay_settings T)"
  unfolding relay_file_ty_def read_relay_settings_def by (rule section_reader readers | simp (no_asm); fail)+

lemma reads_mode [readers]: "reads T (VariantTy [lit ''plain'', lit ''udp_obfs'']) (read_mode T)"
  unfolding read_mode_def by (rule section_reader | simp (no_asm); fail)+

lemma reads_target [readers]: "reads T target_ty (read_target T)"
  unfolding target_ty_def read_target_def by (rule section_reader readers | simp (no_asm); fail)+

lemma reads_strategy [readers]: "reads T (VariantTy [lit ''ordered'', lit ''round_robin'']) (read_strategy T)"
  unfolding read_strategy_def by (rule section_reader | simp (no_asm); fail)+

lemma reads_proxy_conf [readers]: "reads T proxy_conf_ty (read_proxy_conf T)"
  unfolding proxy_conf_ty_def read_proxy_conf_def by (rule section_reader readers | simp (no_asm); fail)+

lemma reads_proxy_settings [readers]: "reads T proxy_file_ty (read_proxy_settings T)"
  unfolding proxy_file_ty_def read_proxy_settings_def by (rule section_reader readers | simp (no_asm); fail)+

section \<open>What is read is within its type\<close>

definition u64_ok :: "nat \<Rightarrow> bool" where "u64_ok n \<longleftrightarrow> n < 2 ^ 64"

text \<open>The numbers of a configuration fit their fields, and no redirect has a colon in its name.\<close>

definition well_typed :: "relay_settings \<Rightarrow> bool" where
  "well_typed c \<longleftrightarrow>
     list_all (\<lambda>(from, to). colon \<notin> set from) (redirect_list c) \<and> u64_ok (poll_interval_ms (hotreload c)) \<and>
     pred_option u64_ok (resfresh_interval (resolver_searching c)) \<and> u64_ok (relay_timeout_sec (relays c)) \<and>
     u64_ok (m_report_interval (metric_settings c)) \<and> pred_option (\<lambda>h. u64_ok (history_lines h)) (history_settings c)"

lemma read_u64_ok: "read_u64 v = Some n \<Longrightarrow> u64_ok n"
  by (auto simp: read_u64_def u64_ok_def split: toml.splits if_splits)

lemma required_ok: "required r i k v = Some x \<Longrightarrow> (\<And>y. r y = Some x \<Longrightarrow> P) \<Longrightarrow> P"
  by (auto simp: required_def split: option.splits)

lemma defaulted_ok: "defaulted d r i k v = Some x \<Longrightarrow> (x = d \<Longrightarrow> P) \<Longrightarrow> (\<And>y. r y = Some x \<Longrightarrow> P) \<Longrightarrow> P"
  by (cases "field i k v") (simp_all add: defaulted_def)

lemma defaults_ok [simp]:
  "u64_ok default_relay_timeout_sec" "u64_ok default_report_interval" "u64_ok (poll_interval_ms relay_hotreload_default)"
  "u64_ok (relay_timeout_sec relays_default)" "u64_ok (m_report_interval metric_default)"
  "pred_option u64_ok (resfresh_interval searching_default)"
  by (simp_all add: u64_ok_def default_relay_timeout_sec_def default_report_interval_def relay_hotreload_default_def
    relays_default_def metric_default_def searching_default_def)

lemma read_hotreload_ok: "read_hotreload v = Some h \<Longrightarrow> u64_ok (poll_interval_ms h)"
  by (auto simp: read_hotreload_def read_struct_def bind_eq_Some_conv read_u64_ok elim!: required_ok split: if_splits)

lemma read_searching_ok: "read_searching v = Some h \<Longrightarrow> pred_option u64_ok (resfresh_interval h)"
  by (auto simp: read_searching_def read_struct_def bind_eq_Some_conv read_u64_ok elim!: defaulted_ok split: if_splits)

lemma read_relays_ok: "read_relays T v = Some h \<Longrightarrow> u64_ok (relay_timeout_sec h)"
  by (auto simp: read_relays_def read_struct_def bind_eq_Some_conv read_u64_ok elim!: defaulted_ok split: if_splits)

lemma read_metric_ok: "read_metric_conf T v = Some h \<Longrightarrow> u64_ok (m_report_interval h)"
  by (auto simp: read_metric_conf_def read_struct_def bind_eq_Some_conv read_u64_ok elim!: defaulted_ok split: if_splits)

lemma read_history_ok: "read_history_conf v = Some h \<Longrightarrow> u64_ok (history_lines h)"
  by (auto simp: read_history_conf_def read_struct_def bind_eq_Some_conv read_u64_ok elim!: required_ok split: if_splits)

lemma read_redirects_ok: "read_redirects v = Some ps \<Longrightarrow> list_all (\<lambda>(from, to). colon \<notin> set from) ps"
proof -
  have names: "list_all2 (\<lambda>e p. split_once colon e = Some p) es ps \<Longrightarrow> list_all (\<lambda>(from, to). colon \<notin> set from) ps" for es
    by (induction rule: list_all2_induct) (auto simp: split_once_Some)
  assume "read_redirects v = Some ps"
  then obtain es where "(case deserialize_redirect_list es of Inl _ \<Rightarrow> None | Inr ps \<Rightarrow> Some ps) = Some ps"
    unfolding read_redirects_def bind_eq_Some_conv by blast
  then have "deserialize_redirect_list es = Inr ps" by (cases "deserialize_redirect_list es") simp_all
  then show ?thesis using names by (simp add: deserialize_Inr)
qed

lemma defaulted_typed: "defaulted d r i k v = Some x \<Longrightarrow> Q d \<Longrightarrow> (\<And>y z. r y = Some z \<Longrightarrow> Q z) \<Longrightarrow> Q x"
  by (erule defaulted_ok) simp_all

lemma read_relay_settings_typed:
  assumes "read_relay_settings T v = Some c"
  shows "well_typed c"
proof -
  from assms have f: "required read_redirects 2 ''redirect_list'' v = Some (redirect_list c)"
    "defaulted relay_hotreload_default read_hotreload 5 ''hotreload_conf'' v = Some (hotreload c)"
    "defaulted searching_default read_searching 4 ''resolver_searching'' v = Some (resolver_searching c)"
    "defaulted relays_default (read_relays T) 6 ''relay_conf'' v = Some (relays c)"
    "defaulted metric_default (read_metric_conf T) 7 ''metric_conf'' v = Some (metric_settings c)"
    "defaulted None (\<lambda>x. map_option Some (read_history_conf x)) 11 ''record_history_conf'' v = Some (history_settings c)"
    by (auto simp: read_relay_settings_def read_struct_def bind_eq_Some_conv split: if_splits)
  show ?thesis
    unfolding well_typed_def
  proof (intro conjI)
    show "list_all (\<lambda>(from, to). colon \<notin> set from) (redirect_list c)"
      using f(1) read_redirects_ok by (rule required_ok)
    show "u64_ok (poll_interval_ms (hotreload c))"
      using f(2) by (rule defaulted_typed) (simp_all add: read_hotreload_ok)
    show "pred_option u64_ok (resfresh_interval (resolver_searching c))"
      using f(3) by (rule defaulted_typed) (simp_all add: read_searching_ok)
    show "u64_ok (relay_timeout_sec (relays c))"
      using f(4) by (rule defaulted_typed) (simp_all add: read_relays_ok)
    show "u64_ok (m_report_interval (metric_settings c))"
      using f(5) by (rule defaulted_typed) (simp_all add: read_metric_ok)
    show "pred_option (\<lambda>h. u64_ok (history_lines h)) (history_settings c)"
      using f(6) by (rule defaulted_typed) (auto simp: read_history_ok)
  qed
qed

section \<open>Properties\<close>

text \<open>C10: A file is accepted by the relay exactly when it can be read, is a TOML document, and that document
  has the type of the configuration: every key without a default is there, every key that is there has a
  value of its type, whatever else the file holds. What is accepted is well typed: numbers fit 64 bits,
  and the names of redirects have no colon. Everything else is an error and no configuration. Among the keys
  without a default is \<open>transport\<close> of a relay, which the README says may be omitted
  (\<open>relay_without_transport_refused\<close>).\<close>

theorem relay_conf_accepted_iff_typed:
  "case load_conf T content of
     Inr c \<Rightarrow> well_typed c \<and> (\<exists>s v. content = Some s \<and> parse_toml T s = Some v \<and> conforms T relay_file_ty v)
   | Inl e \<Rightarrow> e = (if content = None then Io else Config) \<and>
       (\<nexists>s v. content = Some s \<and> parse_toml T s = Some v \<and> conforms T relay_file_ty v)"
proof -
  have "read_relay_settings T v \<noteq> None \<longleftrightarrow> conforms T relay_file_ty v" for v
    using reads_relay_settings [of T] by (simp add: reads_def)
  then show ?thesis
    using read_relay_settings_typed
    by (cases content; force simp: load_conf_def split: option.split bind_split)
qed

text \<open>A relay whose table has no key \<open>transport\<close> is not read as one over the Worker, as the README promises: it
  is refused, and with it the file.\<close>

theorem relay_without_transport_refused:
  assumes "lit ''transport'' \<notin> fst ` set t"
  shows "\<not> conforms T relay_ty (TTable t) \<and> read_relay T (TTable t) = None"
proof -
  have f: "field i ''transport'' (TTable t) = None" for i
    using assms by (simp add: field_def map_of_eq_None_iff)
  then have "required (read_transport T) 2 ''transport'' (TTable t) = None" by (simp add: required_def)
  then have "read_relay T (TTable t) = None" by (simp add: read_relay_def read_struct_def bind_eq_None_conv)
  with f show ?thesis by (simp add: relay_ty_def)
qed

theorem proxy_conf_accepted_iff_typed:
  "(\<exists>c. proxy_load_conf T content = Inr c) \<longleftrightarrow>
     (\<exists>s v. content = Some s \<and> parse_toml T s = Some v \<and> conforms T proxy_file_ty v)"
proof -
  have "read_proxy_settings T v \<noteq> None \<longleftrightarrow> conforms T proxy_file_ty v" for v
    using reads_proxy_settings [of T] by (simp add: reads_def)
  then show ?thesis
    by (cases content) (force simp: proxy_load_conf_def bind_eq_Some_conv split: option.split)+
qed

text \<open>A document with the three keys that have no default.\<close>

definition demo_document :: "rstr \<Rightarrow> (rstr \<times> toml) list" where
  "demo_document s = [(lit ''drop_list'', TArr [TStr s]), (lit ''redirect_list'', TArr [TStr (lit ''x.y:1.2.3.4'')]),
     (lit ''resolvers'', TArr [TStr (lit ''1.1.1.1:53'')])]"

definition demo_toml :: toml_crate where
  "demo_toml = \<lparr>parse_toml = (\<lambda>s. Some (TTable (demo_document s))), tagged_variant = (\<lambda>_. None)\<rparr>"

definition demo_bare :: relay_settings where
  "demo_bare =
     \<lparr>drop_list = [lit ''a.b''], redirect_list = [(lit ''x.y'', lit ''1.2.3.4'')], dns_target = default_dns_target,
      resolvers = [lit ''1.1.1.1:53''], resolver_searching = searching_default, hotreload = relay_hotreload_default,
      relays = relays_default, metric_settings = metric_default, vpn_reassertion = False, init_tls = False,
      record_history = False, history_settings = None, obfs = obfs_default\<rparr>"

lemma demo_loads: "load_conf demo_toml (Some (lit ''a.b'')) = Inr demo_bare"
  by code_simp

end
