(* ===== verification/Net_Guard.thy ===== *)
theory Net_Guard
  imports Rust_Str "HOL-Library.Multiset"
begin

text \<open>
  The network guard (\<open>shared/src/netguard.rs\<close>), Linux and macOS: every tick looks for a VPN interface;
  while there is one, the system's DNS is set to our resolver, and when it is gone, what was set is
  reverted.

  The guard acts on the system only through external commands. What a command gives is the
  parameter \<open>sys\<close>, a function of the commands run so far with their outcomes, and of the command:
  nothing is assumed about the system. Standard output stands after \<open>from_utf8_lossy\<close>. \<open>order\<close> is the
  order in which a \<open>HashSet\<close> is walked.
\<close>

section \<open>Commands\<close>

type_synonym command = "rstr list"

datatype outcome =
    NotRun \<comment> \<open>it could not be started, fed or waited for\<close>
  | Exited bool rstr \<comment> \<open>whether it succeeded, and its standard output\<close>

type_synonym history = "(command \<times> outcome) list"
type_synonym system = "history \<Rightarrow> command \<Rightarrow> outcome"

datatype guard_error = CommandFailed | NoTarget

definition argv :: "string list \<Rightarrow> command" where
  "argv = map lit"

definition exec :: "system \<Rightarrow> command \<Rightarrow> history \<Rightarrow> outcome \<times> history" where
  "exec sys c h = (sys h c, h @ [(c, sys h c)])"

section \<open>Strings\<close>

fun contains :: "rstr \<Rightarrow> rstr \<Rightarrow> bool" where
  "contains [] pat = starts_with [] pat"
| "contains (x # xs) pat = (starts_with (x # xs) pat \<or> contains xs pat)"

text \<open>\<open>line.split(": ")\<close>.\<close>

fun split_colon_space :: "rstr \<Rightarrow> rstr list" where
  "split_colon_space [] = [[]]"
| "split_colon_space [x] = [[x]]"
| "split_colon_space (x # y # zs) =
     (if x = colon \<and> y = 32 then [] # split_colon_space zs
      else (case split_colon_space (y # zs) of [] \<Rightarrow> [[x]] | w # ws \<Rightarrow> (x # w) # ws))"

definition VPN_IFACE_PREFIXES :: "rstr list" where
  "VPN_IFACE_PREFIXES = map lit [''utun'', ''ipsec'', ''ppp'', ''tun'', ''tap'']"

definition vpn_named :: "rstr \<Rightarrow> bool" where
  "vpn_named name \<longleftrightarrow> list_ex (starts_with name) VPN_IFACE_PREFIXES"

section \<open>Linux\<close>

record linux_guard =
  vpn_active :: bool
  touched_links :: "rstr list" \<comment> \<open>a set: no element twice\<close>
  run_log :: history

definition linux_exec :: "system \<Rightarrow> command \<Rightarrow> linux_guard \<Rightarrow> outcome \<times> linux_guard" where
  "linux_exec sys c s = (case exec sys c (run_log s) of (r, h) \<Rightarrow> (r, s\<lparr>run_log := h\<rparr>))"

definition vpn_link_of_line :: "rstr \<Rightarrow> rstr option" where
  "vpn_link_of_line line =
     (case split_colon_space line of
        _ # rest # _ \<Rightarrow>
          let name = trim (hd (split_on colon rest));
              is_up = contains line (lit ''UP,'') \<or> contains line (lit '',UP'') \<or> contains line (lit ''<UP>'')
          in if vpn_named name \<and> is_up then Some name else None
      | _ \<Rightarrow> None)"

fun first_vpn_link :: "rstr list \<Rightarrow> rstr option" where
  "first_vpn_link [] = None"
| "first_vpn_link (line # ls) =
     (case vpn_link_of_line line of Some name \<Rightarrow> Some name | None \<Rightarrow> first_vpn_link ls)"

definition linux_detect_vpn :: "system \<Rightarrow> linux_guard \<Rightarrow> (guard_error + rstr option) \<times> linux_guard" where
  "linux_detect_vpn sys s =
     (case linux_exec sys (argv [''ip'', ''link'', ''show'']) s of
        (Exited True out, s) \<Rightarrow> (Inr (first_vpn_link (str_lines out)), s)
      | (_, s) \<Rightarrow> (Inl CommandFailed, s))"

text \<open>The word after the first \<open>dev\<close>.\<close>

fun word_after_dev :: "rstr list \<Rightarrow> rstr option" where
  "word_after_dev [] = None"
| "word_after_dev (tok # parts) =
     (if tok = lit ''dev'' then (case parts of [] \<Rightarrow> None | w # _ \<Rightarrow> Some w) else word_after_dev parts)"

definition default_route_iface :: "system \<Rightarrow> linux_guard \<Rightarrow> rstr option \<times> linux_guard" where
  "default_route_iface sys s =
     (case linux_exec sys (argv [''ip'', ''route'', ''show'', ''default'']) s of
        (Exited True out, s) \<Rightarrow> (word_after_dev (split_whitespace out), s)
      | (_, s) \<Rightarrow> (None, s))"

definition resolvectl :: "string \<Rightarrow> rstr list \<Rightarrow> command" where
  "resolvectl verb args = lit ''resolvectl'' # lit verb # args"

definition is_already_correct :: "system \<Rightarrow> rstr \<Rightarrow> rstr \<Rightarrow> linux_guard \<Rightarrow> bool \<times> linux_guard" where
  "is_already_correct sys iface dns_target s =
     (case linux_exec sys (resolvectl ''dns'' [iface]) s of
        (Exited True out, s) \<Rightarrow> (contains out dns_target, s)
      | (_, s) \<Rightarrow> (False, s))"

definition touch :: "rstr \<Rightarrow> linux_guard \<Rightarrow> linux_guard" where
  "touch iface s = s\<lparr>touched_links := List.insert iface (touched_links s)\<rparr>"

text \<open>The loop of \<open>reassert_via_resolvectl\<close>; a command that cannot be run ends it.\<close>

fun reassert_links :: "system \<Rightarrow> rstr \<Rightarrow> rstr list \<Rightarrow> linux_guard \<Rightarrow> (guard_error + unit) \<times> linux_guard" where
  "reassert_links sys dns_target [] s = (Inr (), s)"
| "reassert_links sys dns_target (iface # ifaces) s =
     (case is_already_correct sys iface dns_target s of
        (True, s) \<Rightarrow> reassert_links sys dns_target ifaces (touch iface s)
      | (False, s) \<Rightarrow>
          (case linux_exec sys (resolvectl ''dns'' [iface, dns_target]) s of
             (NotRun, s) \<Rightarrow> (Inl CommandFailed, s)
           | (Exited True _, s) \<Rightarrow>
               (case linux_exec sys (resolvectl ''domain'' [iface, lit ''~.'']) (touch iface s) of
                  (_, s) \<Rightarrow> reassert_links sys dns_target ifaces s)
           | (Exited False _, s) \<Rightarrow> reassert_links sys dns_target ifaces s))"

definition reassert_via_resolvectl ::
  "system \<Rightarrow> rstr \<Rightarrow> rstr list \<Rightarrow> linux_guard \<Rightarrow> (guard_error + unit) \<times> linux_guard" where
  "reassert_via_resolvectl sys dns_target targets s =
     (case linux_exec sys (resolvectl ''status'' []) s of
        (Exited True _, s) \<Rightarrow> reassert_links sys dns_target targets s
      | (_, s) \<Rightarrow> (Inl CommandFailed, s))"

fun revert_links :: "system \<Rightarrow> rstr list \<Rightarrow> linux_guard \<Rightarrow> linux_guard" where
  "revert_links sys [] s = s"
| "revert_links sys (iface # ifaces) s =
     revert_links sys ifaces (snd (linux_exec sys (resolvectl ''revert'' [iface]) s))"

definition linux_revert :: "system \<Rightarrow> (rstr list \<Rightarrow> rstr list) \<Rightarrow> linux_guard \<Rightarrow> linux_guard" where
  "linux_revert sys order s = revert_links sys (order (touched_links s)) (s\<lparr>touched_links := []\<rparr>)"

definition linux_tick ::
  "system \<Rightarrow> (rstr list \<Rightarrow> rstr list) \<Rightarrow> rstr \<Rightarrow> linux_guard \<Rightarrow> (guard_error + unit) \<times> linux_guard" where
  "linux_tick sys order dns_target s =
     (case linux_detect_vpn sys s of
        (Inl e, s) \<Rightarrow> (Inl e, s)
      | (Inr vpn_iface, s) \<Rightarrow>
          let vpn_now = (vpn_iface \<noteq> None); vpn_was = vpn_active s; s = s\<lparr>vpn_active := vpn_now\<rparr> in
          if \<not> vpn_now \<and> vpn_was then (Inr (), linux_revert sys order s)
          else if \<not> vpn_now then (Inr (), s)
          else
            (case default_route_iface sys s of (default_iface, s) \<Rightarrow>
               let targets = (case vpn_iface of None \<Rightarrow> [] | Some v \<Rightarrow> [v]);
                   targets = (case default_iface of None \<Rightarrow> targets | Some d \<Rightarrow> List.insert d targets)
               in if targets = [] then (Inl NoTarget, s)
                  else reassert_via_resolvectl sys dns_target (order targets) s))"

section \<open>macOS\<close>

record mac_guard =
  mac_vpn_active :: bool
  services :: "rstr list" \<comment> \<open>a set: no element twice\<close>
  scutil_service_id :: "rstr option"
  mac_log :: history

definition mac_exec :: "system \<Rightarrow> command \<Rightarrow> mac_guard \<Rightarrow> outcome \<times> mac_guard" where
  "mac_exec sys c s = (case exec sys c (mac_log s) of (r, h) \<Rightarrow> (r, s\<lparr>mac_log := h\<rparr>))"

text \<open>The scan of \<open>ifconfig\<close>, with \<open>current_iface_is_vpn\<close> and \<open>current_iface_up\<close>.\<close>

fun scan_ifconfig :: "bool \<Rightarrow> bool \<Rightarrow> rstr list \<Rightarrow> bool" where
  "scan_ifconfig is_vpn up [] = False"
| "scan_ifconfig is_vpn up (line # ls) =
     (if ws_len line = 0 \<and> line \<noteq> []
        then scan_ifconfig (vpn_named (hd (split_on colon line)))
               (contains line (lit ''<UP,'') \<or> contains line (lit '',UP,'') \<or> contains line (lit '',UP>'')) ls
      else if is_vpn \<and> up \<and> starts_with (trim_start line) (lit ''inet '') then True
      else scan_ifconfig is_vpn up ls)"

definition mac_detect_vpn :: "system \<Rightarrow> mac_guard \<Rightarrow> (guard_error + bool) \<times> mac_guard" where
  "mac_detect_vpn sys s =
     (case mac_exec sys (argv [''ifconfig'']) s of
        (Exited True out, s) \<Rightarrow> (Inr (scan_ifconfig False False (str_lines out)), s)
      | (_, s) \<Rightarrow> (Inl CommandFailed, s))"

text \<open>\<open>scutil\<close> reads its script from standard input, here its second word; its exit code is not
  looked at.\<close>

definition run_scutil_script :: "system \<Rightarrow> rstr \<Rightarrow> mac_guard \<Rightarrow> rstr option \<times> mac_guard" where
  "run_scutil_script sys script s =
     (case mac_exec sys [lit ''scutil'', script] s of
        (Exited _ out, s) \<Rightarrow> (Some out, s)
      | (NotRun, s) \<Rightarrow> (None, s))"

fun primary_service_line :: "rstr list \<Rightarrow> rstr option" where
  "primary_service_line [] = None"
| "primary_service_line (l # ls) =
     (case strip_prefix (lit ''PrimaryService : '') (trim l) of
        Some sid \<Rightarrow> Some (trim sid)
      | None \<Rightarrow> primary_service_line ls)"

definition primary_service_id :: "system \<Rightarrow> mac_guard \<Rightarrow> rstr option \<times> mac_guard" where
  "primary_service_id sys s =
     (case run_scutil_script sys (lit ''show State:/Network/Global/IPv4'' @ [newline]) s of
        (None, s) \<Rightarrow> (None, s)
      | (Some out, s) \<Rightarrow> (primary_service_line (str_lines out), s))"

definition state_key :: "rstr \<Rightarrow> rstr" where
  "state_key sid = lit ''State:/Network/Service/'' @ sid @ lit ''/DNS''"

definition force_script :: "rstr \<Rightarrow> rstr \<Rightarrow> rstr" where
  "force_script sid dns_target = lit ''d.init'' @ [newline] @ lit ''d.add ServerAddresses * '' @ dns_target @ [newline]
     @ lit ''set '' @ state_key sid @ [newline]"

definition remove_script :: "rstr \<Rightarrow> rstr" where
  "remove_script sid = lit ''remove '' @ state_key sid @ [newline]"

definition networksetup :: "string \<Rightarrow> rstr list \<Rightarrow> command" where
  "networksetup verb args = lit ''networksetup'' # lit verb # args"

definition touch_service :: "rstr \<Rightarrow> mac_guard \<Rightarrow> mac_guard" where
  "touch_service service s = s\<lparr>services := List.insert service (services s)\<rparr>"

definition first_line_is :: "rstr \<Rightarrow> rstr \<Rightarrow> bool" where
  "first_line_is out dns_target = (case str_lines out of [] \<Rightarrow> False | l # _ \<Rightarrow> trim l = dns_target)"

definition reassert_dns_on_service :: "system \<Rightarrow> rstr \<Rightarrow> rstr \<Rightarrow> mac_guard \<Rightarrow> mac_guard" where
  "reassert_dns_on_service sys dns_target service s =
     (case mac_exec sys (networksetup ''-getdnsservers'' [service]) s of
        (current, s) \<Rightarrow>
          let already_correct = (case current of Exited True out \<Rightarrow> first_line_is out dns_target | _ \<Rightarrow> False) in
          if already_correct then touch_service service s
          else
            (case mac_exec sys (networksetup ''-setdnsservers'' [service, dns_target]) s of
               (Exited True _, s) \<Rightarrow> touch_service service s
             | (_, s) \<Rightarrow> s))"

fun reassert_services :: "system \<Rightarrow> rstr \<Rightarrow> rstr list \<Rightarrow> mac_guard \<Rightarrow> mac_guard" where
  "reassert_services sys dns_target [] s = s"
| "reassert_services sys dns_target (line # ls) s =
     (let service = trim line in
      if service = [] \<or> hd service = 42 then reassert_services sys dns_target ls s
      else reassert_services sys dns_target ls (reassert_dns_on_service sys dns_target service s))"

definition reassert_dns_on_all_services ::
  "system \<Rightarrow> rstr \<Rightarrow> mac_guard \<Rightarrow> (guard_error + unit) \<times> mac_guard" where
  "reassert_dns_on_all_services sys dns_target s =
     (case mac_exec sys (networksetup ''-listallnetworkservices'' []) s of
        (Exited True out, s) \<Rightarrow> (Inr (), reassert_services sys dns_target (drop 1 (str_lines out)) s)
      | (_, s) \<Rightarrow> (Inl CommandFailed, s))"

fun revert_services :: "system \<Rightarrow> rstr list \<Rightarrow> mac_guard \<Rightarrow> mac_guard" where
  "revert_services sys [] s = s"
| "revert_services sys (service # rest) s =
     revert_services sys rest (snd (mac_exec sys (networksetup ''-setdnsservers'' [service, lit ''Empty'']) s))"

definition mac_revert :: "system \<Rightarrow> (rstr list \<Rightarrow> rstr list) \<Rightarrow> mac_guard \<Rightarrow> mac_guard" where
  "mac_revert sys order s =
     (let held = scutil_service_id s; s = s\<lparr>scutil_service_id := None\<rparr>;
          s = (case held of None \<Rightarrow> s | Some sid \<Rightarrow> snd (run_scutil_script sys (remove_script sid) s))
      in revert_services sys (order (services s)) (s\<lparr>services := []\<rparr>))"

definition mac_tick ::
  "system \<Rightarrow> (rstr list \<Rightarrow> rstr list) \<Rightarrow> rstr \<Rightarrow> mac_guard \<Rightarrow> (guard_error + unit) \<times> mac_guard" where
  "mac_tick sys order dns_target s =
     (case mac_detect_vpn sys s of
        (Inl e, s) \<Rightarrow> (Inl e, s)
      | (Inr vpn_now, s) \<Rightarrow>
          let vpn_was = mac_vpn_active s; s = s\<lparr>mac_vpn_active := vpn_now\<rparr> in
          if \<not> vpn_now \<and> vpn_was then (Inr (), mac_revert sys order s)
          else if \<not> vpn_now then (Inr (), s)
          else
            (case primary_service_id sys s of (primary, s) \<Rightarrow>
               let s = (case primary of
                   None \<Rightarrow> s
                 | Some primary_id \<Rightarrow>
                     (case run_scutil_script sys (force_script primary_id dns_target) s of
                        (None, s) \<Rightarrow> s
                      | (Some _, s) \<Rightarrow> s\<lparr>scutil_service_id := Some primary_id\<rparr>))
               in reassert_dns_on_all_services sys dns_target s))"

text \<open>\<open>run_network_guard\<close>: tick after tick, an error is only logged.\<close>

fun linux_ticks :: "system \<Rightarrow> (rstr list \<Rightarrow> rstr list) \<Rightarrow> rstr \<Rightarrow> nat \<Rightarrow> linux_guard \<Rightarrow> linux_guard" where
  "linux_ticks sys order dns_target 0 s = s"
| "linux_ticks sys order dns_target (Suc n) s = linux_ticks sys order dns_target n (snd (linux_tick sys order dns_target s))"

fun mac_ticks :: "system \<Rightarrow> (rstr list \<Rightarrow> rstr list) \<Rightarrow> rstr \<Rightarrow> nat \<Rightarrow> mac_guard \<Rightarrow> mac_guard" where
  "mac_ticks sys order dns_target 0 s = s"
| "mac_ticks sys order dns_target (Suc n) s = mac_ticks sys order dns_target n (snd (mac_tick sys order dns_target s))"

section \<open>What the commands do to the links\<close>

definition changed_link :: "command \<Rightarrow> rstr option" where
  "changed_link c =
     (case c of
        [p, verb, iface] \<Rightarrow> if p = lit ''resolvectl'' \<and> verb = lit ''revert'' then Some iface else None
      | [p, verb, iface, _] \<Rightarrow>
          if p = lit ''resolvectl'' \<and> (verb = lit ''dns'' \<or> verb = lit ''domain'') then Some iface else None
      | _ \<Rightarrow> None)"

text \<open>The links whose DNS was set and for which no revert has been tried since.\<close>

definition apply_command :: "command \<times> outcome \<Rightarrow> rstr set \<Rightarrow> rstr set" where
  "apply_command e S =
     (case e of
        ([p, verb, iface], _) \<Rightarrow>
          if p = lit ''resolvectl'' \<and> verb = lit ''revert'' then S - {iface} else S
      | ([p, verb, iface, _], Exited True _) \<Rightarrow>
          if p = lit ''resolvectl'' \<and> verb = lit ''dns'' then insert iface S else S
      | _ \<Rightarrow> S)"

definition overridden :: "history \<Rightarrow> rstr set" where
  "overridden h = fold apply_command h {}"

lemma overridden_snoc [simp]:
  "overridden (h @ [e]) = apply_command e (overridden h)"
  "overridden (h @ [e, f]) = apply_command f (apply_command e (overridden h))"
  by (simp_all add: overridden_def)

lemma overridden_Nil [simp]: "overridden [] = {}"
  by (simp add: overridden_def)

lemma words [simp]:
  "lit ''resolvectl'' \<noteq> lit ''ip''" "lit ''ip'' \<noteq> lit ''resolvectl''" "lit ''dns'' \<noteq> lit ''revert''" "lit ''revert'' \<noteq> lit ''dns''"
  "lit ''domain'' \<noteq> lit ''dns''" "lit ''dns'' \<noteq> lit ''domain''" "lit ''status'' \<noteq> lit ''revert''"
  by code_simp+

lemma linux_exec_eq [simp]: "linux_exec sys c s = (sys (run_log s) c, s\<lparr>run_log := run_log s @ [(c, sys (run_log s) c)]\<rparr>)"
  by (simp add: linux_exec_def exec_def)

lemma apply_query [simp]:
  "apply_command (argv [''ip'', ''link'', ''show''], r) S = S"
  "apply_command (argv [''ip'', ''route'', ''show'', ''default''], r) S = S"
  "apply_command (resolvectl ''status'' [], r) S = S"
  "apply_command (resolvectl ''dns'' [i], r) S = S"
  "apply_command (resolvectl ''domain'' [i, x], r) S = S"
  "apply_command (resolvectl ''revert'' [i], r) S = S - {i}"
  "apply_command (resolvectl ''dns'' [i, x], r) S = (if \<exists>out. r = Exited True out then insert i S else S)"
  by (auto simp: apply_command_def argv_def resolvectl_def split: outcome.splits bool.splits)

lemma changed_query [simp]:
  "changed_link (argv [''ip'', ''link'', ''show'']) = None"
  "changed_link (argv [''ip'', ''route'', ''show'', ''default'']) = None"
  "changed_link (resolvectl ''status'' []) = None"
  "changed_link (resolvectl ''dns'' [i]) = None"
  "changed_link (resolvectl ''domain'' [i, x]) = Some i"
  "changed_link (resolvectl ''revert'' [i]) = Some i"
  "changed_link (resolvectl ''dns'' [i, x]) = Some i"
  by (simp_all add: changed_link_def argv_def resolvectl_def)

lemma touch_simps [simp]:
  "vpn_active (touch i s) = vpn_active s" "run_log (touch i s) = run_log s"
  "set (touched_links (touch i s)) = insert i (set (touched_links s))"
  "distinct (touched_links (touch i s)) = distinct (touched_links s)"
  by (simp_all add: touch_def distinct_insert)

section \<open>Linux: nothing is left behind\<close>

definition covered :: "linux_guard \<Rightarrow> bool" where
  "covered s \<longleftrightarrow> overridden (run_log s) \<subseteq> set (touched_links s)"

definition guard_ok :: "linux_guard \<Rightarrow> bool" where
  "guard_ok s \<longleftrightarrow> covered s \<and> (\<not> vpn_active s \<longrightarrow> touched_links s = [])"

lemma already_correct_eq:
  "is_already_correct sys i t s = (b, s') \<Longrightarrow>
     \<exists>r. s' = s\<lparr>run_log := run_log s @ [(resolvectl ''dns'' [i], r)]\<rparr> \<and>
       b = (case r of Exited True out \<Rightarrow> contains out t | _ \<Rightarrow> False)"
  by (auto simp: is_already_correct_def split: outcome.splits bool.splits)

lemma reassert_links_covered:
  "covered s \<Longrightarrow> covered (snd (reassert_links sys t is s)) \<and> vpn_active (snd (reassert_links sys t is s)) = vpn_active s"
proof (induction "is" arbitrary: s)
  case (Cons i "is")
  obtain b u r where u: "is_already_correct sys i t s = (b, u)"
    "u = s\<lparr>run_log := run_log s @ [(resolvectl ''dns'' [i], r)]\<rparr>"
    using already_correct_eq by (metis prod.exhaust)
  then have cov: "covered u" "vpn_active u = vpn_active s" using Cons.prems by (simp_all add: covered_def)
  show ?case
  proof (cases b)
    case True
    have "covered (touch i u)" using cov(1) by (auto simp: covered_def)
    from Cons.IH [OF this] show ?thesis using u(1) True cov(2) by simp
  next
    case False
    let ?c = "resolvectl ''dns'' [i, t]"
    let ?r = "sys (run_log u) ?c"
    let ?v = "u\<lparr>run_log := run_log u @ [(?c, ?r)]\<rparr>"
    show ?thesis
    proof (cases ?r)
      case NotRun
      then show ?thesis using u(1) False cov by (simp add: covered_def)
    next
      case (Exited ok out)
      show ?thesis
      proof (cases ok)
        case True
        let ?d = "resolvectl ''domain'' [i, lit ''~.'']"
        let ?w = "(touch i ?v)\<lparr>run_log := run_log ?v @ [(?d, sys (run_log ?v) ?d)]\<rparr>"
        have "covered ?w" using cov(1) Exited True by (auto simp: covered_def)
        from Cons.IH [OF this] show ?thesis using u(1) False Exited True cov(2) by simp
      next
        case nok: False
        have "covered ?v" using cov(1) Exited nok by (simp add: covered_def)
        from Cons.IH [OF this] show ?thesis using u(1) False Exited nok cov(2) by simp
      qed
    qed
  qed
qed simp

lemma revert_links_eq:
  "touched_links (revert_links sys is s) = touched_links s \<and> vpn_active (revert_links sys is s) = vpn_active s
   \<and> overridden (run_log (revert_links sys is s)) = overridden (run_log s) - set is
   \<and> (\<exists>es. run_log (revert_links sys is s) = run_log s @ es \<and> map fst es = map (\<lambda>i. resolvectl ''revert'' [i]) is)"
proof (induction "is" arbitrary: s)
  case (Cons i "is")
  let ?c = "resolvectl ''revert'' [i]"
  let ?u = "s\<lparr>run_log := run_log s @ [(?c, sys (run_log s) ?c)]\<rparr>"
  obtain es where "run_log (revert_links sys is ?u) = run_log ?u @ es" "map fst es = map (\<lambda>i. resolvectl ''revert'' [i]) is"
    using Cons.IH [of ?u] by blast
  then have "run_log (revert_links sys (i # is) s) = run_log s @ (?c, sys (run_log s) ?c) # es
      \<and> map fst ((?c, sys (run_log s) ?c) # es) = map (\<lambda>i. resolvectl ''revert'' [i]) (i # is)"
    by simp
  then show ?case using Cons.IH [of ?u] by (auto intro: exI)
qed simp

lemma linux_revert_eq:
  assumes "set (order (touched_links s)) = set (touched_links s)" "covered s"
  shows "overridden (run_log (linux_revert sys order s)) = {} \<and> touched_links (linux_revert sys order s) = []
    \<and> vpn_active (linux_revert sys order s) = vpn_active s"
  using assms revert_links_eq [of sys "order (touched_links s)" "s\<lparr>touched_links := []\<rparr>"]
  by (auto simp: linux_revert_def covered_def)

lemma detect_eq:
  assumes "linux_detect_vpn sys s = (x, u)"
  obtains r where "u = s\<lparr>run_log := run_log s @ [(argv [''ip'', ''link'', ''show''], r)]\<rparr>"
    "x = (case r of Exited True out \<Rightarrow> Inr (first_vpn_link (str_lines out)) | _ \<Rightarrow> Inl CommandFailed)"
  using assms by (auto simp: linux_detect_vpn_def split: outcome.splits bool.splits)

lemma default_route_eq:
  assumes "default_route_iface sys s = (x, u)"
  obtains r where "u = s\<lparr>run_log := run_log s @ [(argv [''ip'', ''route'', ''show'', ''default''], r)]\<rparr>"
    "x = (case r of Exited True out \<Rightarrow> word_after_dev (split_whitespace out) | _ \<Rightarrow> None)"
  using assms by (auto simp: default_route_iface_def split: outcome.splits bool.splits)

lemma reassert_covered:
  "covered s \<Longrightarrow> covered (snd (reassert_via_resolvectl sys t is s))
     \<and> vpn_active (snd (reassert_via_resolvectl sys t is s)) = vpn_active s"
proof -
  assume "covered s"
  then have "covered (s\<lparr>run_log := run_log s @ [(resolvectl ''status'' [], r)]\<rparr>)" for r
    by (simp add: covered_def)
  from reassert_links_covered [OF this] this show ?thesis
    by (auto simp: reassert_via_resolvectl_def split: outcome.split bool.split)
qed

lemma linux_tick_ok:
  assumes "\<And>xs. set (order xs) = set xs" "guard_ok s"
  shows "guard_ok (snd (linux_tick sys order t s))"
proof -
  obtain x u where d: "linux_detect_vpn sys s = (x, u)" by fastforce
  then obtain r where u: "u = s\<lparr>run_log := run_log s @ [(argv [''ip'', ''link'', ''show''], r)]\<rparr>"
    by (rule detect_eq)
  have cov: "covered u" "touched_links u = touched_links s" "vpn_active u = vpn_active s"
    using assms(2) u by (simp_all add: guard_ok_def covered_def)
  show ?thesis
  proof (cases x)
    case (Inl e)
    then show ?thesis using d cov assms(2) by (simp add: linux_tick_def guard_ok_def)
  next
    case (Inr iface)
    let ?v = "u\<lparr>vpn_active := (iface \<noteq> None)\<rparr>"
    have cv: "covered ?v" using cov(1) by (simp add: covered_def)
    show ?thesis
    proof (cases iface)
      case None
      then show ?thesis
        using d Inr cov assms(2) cv linux_revert_eq [where order = order and sys = sys and s = ?v, OF assms(1) cv]
        by (auto simp: linux_tick_def guard_ok_def covered_def)
    next
      case (Some v)
      obtain y w where y: "default_route_iface sys ?v = (y, w)" by fastforce
      then obtain r' where "w = ?v\<lparr>run_log := run_log ?v @ [(argv [''ip'', ''route'', ''show'', ''default''], r')]\<rparr>"
        by (rule default_route_eq)
      then have "covered w" "vpn_active w" using cv Some by (simp_all add: covered_def)
      with reassert_covered [OF this(1)] show ?thesis
        using d Inr Some y by (auto simp: linux_tick_def guard_ok_def Let_def split: option.split)
    qed
  qed
qed

lemma linux_ticks_ok:
  "(\<And>xs. set (order xs) = set xs) \<Longrightarrow> guard_ok s \<Longrightarrow> guard_ok (linux_ticks sys order t n s)"
  by (induction n arbitrary: s) (simp_all add: linux_tick_ok)

text \<open>The links whose DNS the new commands of a tick change.\<close>

definition only_changes :: "rstr set \<Rightarrow> history \<Rightarrow> history \<Rightarrow> bool" where
  "only_changes T h h' \<longleftrightarrow> (\<exists>new. h' = h @ new \<and> (\<forall>(c, r) \<in> set new. \<forall>i. changed_link c = Some i \<longrightarrow> i \<in> T))"

lemma only_changes_refl [simp]: "only_changes T h h"
  by (simp add: only_changes_def)

lemma only_changes_trans: "only_changes T h h' \<Longrightarrow> only_changes T h' h'' \<Longrightarrow> only_changes T h h''"
  unfolding only_changes_def by (elim exE conjE, rule_tac x = "new @ newa" in exI) auto

lemma only_changes_snoc [intro]: "\<forall>i. changed_link c = Some i \<longrightarrow> i \<in> T \<Longrightarrow> only_changes T h (h @ [(c, r)])"
  by (simp add: only_changes_def)

lemma reassert_links_only:
  "set is \<subseteq> T \<Longrightarrow> only_changes T (run_log s) (run_log (snd (reassert_links sys t is s)))"
proof (induction "is" arbitrary: s)
  case (Cons i "is")
  obtain b u r where u: "is_already_correct sys i t s = (b, u)"
    "u = s\<lparr>run_log := run_log s @ [(resolvectl ''dns'' [i], r)]\<rparr>"
    using already_correct_eq by (metis prod.exhaust)
  have su: "only_changes T (run_log s) (run_log u)" using u(2) by auto
  let ?c = "resolvectl ''dns'' [i, t]"
  let ?v = "u\<lparr>run_log := run_log u @ [(?c, sys (run_log u) ?c)]\<rparr>"
  let ?d = "resolvectl ''domain'' [i, lit ''~.'']"
  let ?w = "(touch i ?v)\<lparr>run_log := run_log ?v @ [(?d, sys (run_log ?v) ?d)]\<rparr>"
  have sv: "only_changes T (run_log s) (run_log ?v)"
    using only_changes_trans [OF su, of "run_log ?v"] Cons.prems only_changes_snoc [of ?c T "run_log u"] by simp
  have sw: "only_changes T (run_log s) (run_log ?w)"
    using only_changes_trans [OF sv, of "run_log ?w"] Cons.prems only_changes_snoc [of ?d T "run_log ?v"] by simp
  have IH: "only_changes T (run_log s) (run_log x) \<Longrightarrow>
      only_changes T (run_log s) (run_log (snd (reassert_links sys t is x)))" for x
    using Cons.IH [of x] Cons.prems only_changes_trans by auto
  show ?case
    using u(1) IH [of "touch i u"] IH [OF sw] IH [OF sv] su sv
    by (auto split: bool.split outcome.split)
qed simp

lemma reassert_only:
  assumes "set is \<subseteq> T"
  shows "only_changes T (run_log s) (run_log (snd (reassert_via_resolvectl sys t is s)))"
proof -
  have q: "only_changes T (run_log s) (run_log s @ [(resolvectl ''status'' [], r)])" for r by auto
  from only_changes_trans [OF q reassert_links_only [OF assms, of "s\<lparr>run_log := run_log s @ [(resolvectl ''status'' [], _)]\<rparr>", simplified]] q
  show ?thesis by (auto simp: reassert_via_resolvectl_def split: outcome.split bool.split)
qed

lemma linux_revert_only:
  assumes "set (order (touched_links s)) = set (touched_links s)"
  shows "only_changes (set (touched_links s)) (run_log s) (run_log (linux_revert sys order s))"
proof -
  obtain es where "run_log (linux_revert sys order s) = run_log s @ es"
    "map fst es = map (\<lambda>i. resolvectl ''revert'' [i]) (order (touched_links s))"
    using revert_links_eq [of sys "order (touched_links s)" "s\<lparr>touched_links := []\<rparr>"] by (auto simp: linux_revert_def)
  moreover have "changed_link c = Some i \<Longrightarrow> i \<in> set (touched_links s)" if "(c, r) \<in> set es" for c r i
  proof -
    have "c \<in> set (map fst es)" using that by force
    then obtain j where "c = resolvectl ''revert'' [j]" "j \<in> set (touched_links s)" using calculation(2) assms by auto
    then show "changed_link c = Some i \<Longrightarrow> i \<in> set (touched_links s)" by simp
  qed
  ultimately show ?thesis by (auto simp: only_changes_def)
qed

section \<open>macOS: the override of the primary service\<close>

lemma mac_exec_eq [simp]: "mac_exec sys c s = (sys (mac_log s) c, s\<lparr>mac_log := mac_log s @ [(c, sys (mac_log s) c)]\<rparr>)"
  by (simp add: mac_exec_def exec_def)

lemma touch_service_simps [simp]:
  "scutil_service_id (touch_service x s) = scutil_service_id s" "mac_log (touch_service x s) = mac_log s"
  "mac_vpn_active (touch_service x s) = mac_vpn_active s"
  by (simp_all add: touch_service_def)

definition is_scutil :: "command \<times> outcome \<Rightarrow> bool" where
  "is_scutil e \<longleftrightarrow> hd (fst e) = lit ''scutil''"

lemma is_scutil_simps [simp]:
  "is_scutil (networksetup verb args, r) = False" "is_scutil ([lit ''scutil'', script], r)" "\<not> is_scutil (argv [''ifconfig''], r)"
proof -
  have "lit ''networksetup'' \<noteq> lit ''scutil''" "lit ''ifconfig'' \<noteq> lit ''scutil''" by code_simp+
  then show "is_scutil (networksetup verb args, r) = False" "is_scutil ([lit ''scutil'', script], r)"
    "\<not> is_scutil (argv [''ifconfig''], r)"
    by (simp_all add: is_scutil_def networksetup_def argv_def)
qed

abbreviation scutils :: "history \<Rightarrow> history" where "scutils \<equiv> filter is_scutil"

lemma reassert_service_scutil:
  "scutil_service_id (reassert_dns_on_service sys t x s) = scutil_service_id s
   \<and> scutils (mac_log (reassert_dns_on_service sys t x s)) = scutils (mac_log s)
   \<and> mac_vpn_active (reassert_dns_on_service sys t x s) = mac_vpn_active s"
proof -
  let ?g = "networksetup ''-getdnsservers'' [x]"
  let ?u = "s\<lparr>mac_log := mac_log s @ [(?g, sys (mac_log s) ?g)]\<rparr>"
  let ?r = "sys (mac_log ?u) (networksetup ''-setdnsservers'' [x, t])"
  consider "?r = NotRun" | out where "?r = Exited True out" | out where "?r = Exited False out"
    by (cases ?r; cases "case ?r of Exited b _ \<Rightarrow> b | NotRun \<Rightarrow> False") auto
  then show ?thesis
    by cases (simp_all add: reassert_dns_on_service_def Let_def)
qed

lemma reassert_services_scutil:
  "scutil_service_id (reassert_services sys t ls s) = scutil_service_id s
   \<and> scutils (mac_log (reassert_services sys t ls s)) = scutils (mac_log s)
   \<and> mac_vpn_active (reassert_services sys t ls s) = mac_vpn_active s"
  by (induction ls arbitrary: s) (auto simp: Let_def reassert_service_scutil)

lemma reassert_all_scutil:
  "scutil_service_id (snd (reassert_dns_on_all_services sys t s)) = scutil_service_id s
   \<and> scutils (mac_log (snd (reassert_dns_on_all_services sys t s))) = scutils (mac_log s)
   \<and> mac_vpn_active (snd (reassert_dns_on_all_services sys t s)) = mac_vpn_active s"
  by (auto simp: reassert_dns_on_all_services_def reassert_services_scutil split: outcome.split bool.split)

lemma revert_services_scutil:
  "scutil_service_id (revert_services sys ls s) = scutil_service_id s
   \<and> scutils (mac_log (revert_services sys ls s)) = scutils (mac_log s)
   \<and> services (revert_services sys ls s) = services s
   \<and> mac_vpn_active (revert_services sys ls s) = mac_vpn_active s"
  by (induction ls arbitrary: s) auto

lemma mac_revert_scutil:
  "scutil_service_id (mac_revert sys order s) = None \<and> services (mac_revert sys order s) = []
   \<and> map fst (scutils (mac_log (mac_revert sys order s))) = map fst (scutils (mac_log s)) @
       (case scutil_service_id s of None \<Rightarrow> [] | Some sid \<Rightarrow> [[lit ''scutil'', remove_script sid]])"
  by (auto simp: mac_revert_def Let_def revert_services_scutil run_scutil_script_def split: option.split outcome.split)

lemma contains_append: "contains (pre @ t @ post) t"
proof (induction pre)
  case Nil
  have "starts_with (t @ post) t" by (simp add: starts_with_def)
  then show ?case by (cases "t @ post") auto
qed simp

section \<open>Properties\<close>

definition linux_start :: linux_guard where
  "linux_start = \<lparr>vpn_active = False, touched_links = [], run_log = []\<rparr>"

text \<open>C35: On Linux, whatever the commands answer, after every tick each link whose DNS the guard has set,
  and has not tried to revert since, is on its list; while no VPN is seen there is none.\<close>

theorem guard_remembers_overrides:
  assumes "\<And>xs. set (order xs) = set xs"
  shows "overridden (run_log (linux_ticks sys order t n linux_start)) \<subseteq> set (touched_links (linux_ticks sys order t n linux_start))
    \<and> (\<not> vpn_active (linux_ticks sys order t n linux_start) \<longrightarrow>
         touched_links (linux_ticks sys order t n linux_start) = [] \<and>
         overridden (run_log (linux_ticks sys order t n linux_start)) = {})"
proof -
  have "guard_ok linux_start" by (simp add: guard_ok_def covered_def linux_start_def)
  from linux_ticks_ok [where order = order and sys = sys and t = t and n = n, OF assms this] show ?thesis
    by (auto simp: guard_ok_def covered_def)
qed

theorem guard_remembers_overrides_witness:
  "overridden (run_log (linux_ticks (\<lambda>_ _. Exited True []) rev (lit ''127.0.0.1'') 1 linux_start)) = {}"
proof -
  have order: "\<And>xs. set (rev xs) = set xs" by simp
  have "\<not> vpn_active (linux_ticks (\<lambda>_ _. Exited True []) rev (lit ''127.0.0.1'') 1 linux_start)" by code_simp
  then show ?thesis using guard_remembers_overrides [where order = rev, OF order] by blast
qed

text \<open>A tick changes the DNS of no link but the VPN's own, the one of the default route, and, when
  the VPN is gone, those on its list: bridges and containers are left alone.\<close>

theorem guard_touches_only_targets:
  assumes "\<And>xs. set (order xs) = set xs"
    and "linux_detect_vpn sys s = (Inr vpn, u)"
    and "default_route_iface sys (u\<lparr>vpn_active := True\<rparr>) = (via, w)"
  shows "\<exists>new. run_log (snd (linux_tick sys order t s)) = run_log s @ new \<and>
    (\<forall>(c, r) \<in> set new. \<forall>i. changed_link c = Some i \<longrightarrow>
       (if vpn = None then vpn_active s \<and> i \<in> set (touched_links s) else vpn = Some i \<or> via = Some i))"
proof -
  let ?T = "{i. if vpn = None then vpn_active s \<and> i \<in> set (touched_links s) else vpn = Some i \<or> via = Some i}"
  obtain r where u: "u = s\<lparr>run_log := run_log s @ [(argv [''ip'', ''link'', ''show''], r)]\<rparr>"
    using assms(2) by (rule detect_eq)
  then have su: "only_changes T (run_log s) (run_log u)" for T by auto
  have "only_changes ?T (run_log s) (run_log (snd (linux_tick sys order t s)))"
  proof (cases vpn)
    case None
    let ?v = "u\<lparr>vpn_active := False\<rparr>"
    have "only_changes (set (touched_links s)) (run_log u) (run_log (linux_revert sys order ?v))"
      using linux_revert_only [of order ?v sys] assms(1) u by simp
    then have "vpn_active s \<Longrightarrow> only_changes ?T (run_log s) (run_log (linux_revert sys order ?v))"
      using only_changes_trans [OF su] None by (simp add: u)
    then show ?thesis using assms(2) None su u by (simp add: linux_tick_def Let_def)
  next
    case (Some v)
    let ?v = "u\<lparr>vpn_active := True\<rparr>"
    obtain r' where w: "w = ?v\<lparr>run_log := run_log ?v @ [(argv [''ip'', ''route'', ''show'', ''default''], r')]\<rparr>"
      using assms(3) by (rule default_route_eq)
    then have uw: "only_changes T (run_log u) (run_log w)" for T by auto
    have sw: "only_changes T (run_log s) (run_log w)" for T by (rule only_changes_trans [OF su uw])
    let ?is = "case via of None \<Rightarrow> [v] | Some d \<Rightarrow> List.insert d [v]"
    have ne: "?is \<noteq> []" by (cases via) (auto simp: List.insert_def)
    have "set (order ?is) \<subseteq> ?T" using assms(1) [of ?is] Some by (cases via) auto
    from only_changes_trans [OF sw reassert_only [OF this]] show ?thesis
      using assms(2,3) Some ne by (simp add: linux_tick_def Let_def)
  qed
  then show ?thesis by (simp add: only_changes_def)
qed

definition demo_linux :: system where
  "demo_linux h c =
     (if c = argv [''ip'', ''link'', ''show''] then Exited True (lit ''5: tun0: <POINTOPOINT,UP,LOWER_UP> mtu 1500'')
      else if c = argv [''ip'', ''route'', ''show'', ''default''] then Exited True (lit ''default via 10.0.0.1 dev eth0 metric 100'')
      else Exited True [])"

theorem guard_touches_only_targets_witness:
  "{i. \<exists>c \<in> fst ` set (run_log (snd (linux_tick demo_linux rev (lit ''127.0.0.1'') linux_start))). changed_link c = Some i}
   \<subseteq> {lit ''tun0'', lit ''eth0''}"
proof -
  have order: "\<And>xs. set (rev xs) = set xs" by simp
  have line: "first_vpn_link (str_lines (lit ''5: tun0: <POINTOPOINT,UP,LOWER_UP> mtu 1500'')) = Some (lit ''tun0'')"
    "word_after_dev (split_whitespace (lit ''default via 10.0.0.1 dev eth0 metric 100'')) = Some (lit ''eth0'')"
    by code_simp+
  obtain u where u: "linux_detect_vpn demo_linux linux_start = (Inr (Some (lit ''tun0'')), u)"
    using line(1) by (simp add: linux_detect_vpn_def demo_linux_def)
  have "argv [''ip'', ''route'', ''show'', ''default''] \<noteq> argv [''ip'', ''link'', ''show'']" by (simp add: argv_def)
  then obtain w where w: "default_route_iface demo_linux (u\<lparr>vpn_active := True\<rparr>) = (Some (lit ''eth0''), w)"
    using line(2) by (simp add: default_route_iface_def demo_linux_def)
  from guard_touches_only_targets [where order = rev, OF order u w, of "lit ''127.0.0.1''"] show ?thesis
    by (auto simp: linux_start_def)
qed

text \<open>A revert tries each link on the list, once, and clears the list, also when the command fails:
  a link whose revert failed is never tried again.\<close>

theorem revert_is_tried_once:
  assumes "\<And>xs. mset (order xs) = mset xs"
  shows "\<exists>es. run_log (linux_revert sys order s) = run_log s @ es
    \<and> mset (map fst es) = mset (map (\<lambda>i. resolvectl ''revert'' [i]) (touched_links s))
    \<and> touched_links (linux_revert sys order s) = []"
proof -
  obtain es where "run_log (linux_revert sys order s) = run_log s @ es"
    "map fst es = map (\<lambda>i. resolvectl ''revert'' [i]) (order (touched_links s))"
    "touched_links (linux_revert sys order s) = []"
    using revert_links_eq [of sys "order (touched_links s)" "s\<lparr>touched_links := []\<rparr>"] by (auto simp: linux_revert_def)
  moreover have "mset (map (\<lambda>i. resolvectl ''revert'' [i]) (order (touched_links s))) =
      mset (map (\<lambda>i. resolvectl ''revert'' [i]) (touched_links s))"
    by (simp add: assms)
  ultimately show ?thesis by (intro exI [of _ es]) (simp del: mset_map)
qed

theorem revert_is_tried_once_witness:
  "touched_links (linux_revert (\<lambda>_ _. Exited False []) rev (linux_start\<lparr>touched_links := [lit ''tun0'']\<rparr>)) = []"
proof -
  have order: "\<And>xs. mset (rev xs) = mset xs" by simp
  show ?thesis using revert_is_tried_once [where order = rev, OF order] by blast
qed

text \<open>The test that a link already has our DNS is for a substring of what \<open>resolvectl\<close> prints: a link
  whose server merely contains the target's text is taken for correct, is not set, and is put on the
  list of links to revert.\<close>

theorem longer_address_taken_for_target:
  assumes "sys (run_log s) (resolvectl ''dns'' [i]) = Exited True (pre @ t @ post)"
  shows "run_log (snd (reassert_links sys t [i] s)) = run_log s @ [(resolvectl ''dns'' [i], Exited True (pre @ t @ post))]
    \<and> i \<in> set (touched_links (snd (reassert_links sys t [i] s)))"
  using assms by (simp add: is_already_correct_def contains_append)

theorem longer_address_taken_for_target_witness:
  "tun \<in> set (touched_links (snd (reassert_links
     (\<lambda>_ _. Exited True (lit ''Link 7 (tun0): 127.0.0.10'')) (lit ''127.0.0.1'') [tun] linux_start)))"
proof -
  have "lit ''Link 7 (tun0): 127.0.0.10'' = lit ''Link 7 (tun0): '' @ lit ''127.0.0.1'' @ lit ''0''" by (simp add: lit_def)
  then have "(\<lambda>_ _. Exited True (lit ''Link 7 (tun0): 127.0.0.10'')) (run_log linux_start) (resolvectl ''dns'' [tun]) =
      Exited True (lit ''Link 7 (tun0): '' @ lit ''127.0.0.1'' @ lit ''0'')" by simp
  from longer_address_taken_for_target [where sys = "\<lambda>_ _. Exited True (lit ''Link 7 (tun0): 127.0.0.10'')", OF this]
  show ?thesis by blast
qed

text \<open>On macOS only the last primary service is remembered: when the primary service changes while
  the VPN is up, a later revert removes the override of the new one and leaves the old one.\<close>

theorem old_primary_stays_overridden:
  assumes "mac_detect_vpn sys s = (Inr True, s1)" "primary_service_id sys (s1\<lparr>mac_vpn_active := True\<rparr>) = (Some b, s2)"
    and "run_scutil_script sys (force_script b t) s2 = (Some out, s3)"
  shows "map fst (scutils (mac_log (mac_revert sys order (snd (mac_tick sys order t s))))) =
    map fst (scutils (mac_log s)) @ [[lit ''scutil'', lit ''show State:/Network/Global/IPv4'' @ [newline]],
      [lit ''scutil'', force_script b t], [lit ''scutil'', remove_script b]]"
proof -
  have s1: "scutils (mac_log s1) = scutils (mac_log s)"
    using assms(1) by (auto simp: mac_detect_vpn_def split: outcome.splits bool.splits)
  have s2: "map fst (scutils (mac_log s2)) = map fst (scutils (mac_log s1)) @ [[lit ''scutil'', lit ''show State:/Network/Global/IPv4'' @ [newline]]]"
    using assms(2) by (auto simp: primary_service_id_def run_scutil_script_def split: outcome.splits)
  have s3: "map fst (scutils (mac_log s3)) = map fst (scutils (mac_log s2)) @ [[lit ''scutil'', force_script b t]]"
    using assms(3) by (auto simp: run_scutil_script_def split: outcome.splits)
  have "snd (mac_tick sys order t s) = snd (reassert_dns_on_all_services sys t (s3\<lparr>scutil_service_id := Some b\<rparr>))"
    using assms by (simp add: mac_tick_def)
  then show ?thesis
    using mac_revert_scutil [of sys order "snd (mac_tick sys order t s)"]
      reassert_all_scutil [of sys t "s3\<lparr>scutil_service_id := Some b\<rparr>"] s1 s2 s3
    by simp
qed

definition demo_mac :: system where
  "demo_mac h c =
     (if c = argv [''ifconfig''] then Exited True (lit ''utun3: flags=8051<UP,POINTOPOINT>'' @ [newline, 9] @ lit ''inet 10.0.0.2'')
      else Exited True (lit '' PrimaryService : B''))"

theorem old_primary_stays_overridden_witness:
  "map fst (scutils (mac_log (mac_revert demo_mac rev (snd (mac_tick demo_mac rev (lit ''127.0.0.1'')
     \<lparr>mac_vpn_active = True, services = [], scutil_service_id = Some (lit ''A''), mac_log = []\<rparr>)))))
   = [[lit ''scutil'', lit ''show State:/Network/Global/IPv4'' @ [newline]],
      [lit ''scutil'', force_script (lit ''B'') (lit ''127.0.0.1'')], [lit ''scutil'', remove_script (lit ''B'')]]"
proof -
  let ?s = "\<lparr>mac_vpn_active = True, services = [], scutil_service_id = Some (lit ''A''), mac_log = []\<rparr>"
  have if_vpn: "scan_ifconfig False False (str_lines (lit ''utun3: flags=8051<UP,POINTOPOINT>'' @ [newline, 9] @ lit ''inet 10.0.0.2''))"
    by code_simp
  have prim: "primary_service_line (str_lines (lit '' PrimaryService : B'')) = Some (lit ''B'')" by code_simp
  have ne: "[lit ''scutil'', x] \<noteq> argv [''ifconfig'']" for x by (simp add: argv_def)
  obtain s1 where s1: "mac_detect_vpn demo_mac ?s = (Inr True, s1)" "scutils (mac_log s1) = []"
    using if_vpn by (simp add: mac_detect_vpn_def demo_mac_def)
  obtain s2 where s2: "primary_service_id demo_mac (s1\<lparr>mac_vpn_active := True\<rparr>) = (Some (lit ''B''), s2)"
    using prim by (simp add: primary_service_id_def run_scutil_script_def demo_mac_def ne)
  obtain out s3 where s3: "run_scutil_script demo_mac (force_script (lit ''B'') (lit ''127.0.0.1'')) s2 = (Some out, s3)"
    by (simp add: run_scutil_script_def demo_mac_def ne)
  from old_primary_stays_overridden [OF s1(1) s2 s3, of rev] show ?thesis by simp
qed

end
