(* ===== verification/Start_Up.thy ===== *)
theory Start_Up
  imports Obfs_Path Conf_File Net_Guard Metric_Report
begin

text \<open>
  Start-up of both programs (\<open>run_server\<close> of \<open>dns_relay/src/main.rs\<close> and of
  \<open>resolver_proxy/src/main.rs\<close>) up to its loop: which parts a configuration turns on,
  in which order they are set up, and what stops the program.

  The result \<open>loaded\<close> of \<open>load_conf\<close> (theory \<open>Conf_File\<close>) is an argument. What the operating
  system and the network answer during start-up is the record \<open>start_env\<close>. The task of a timer starts with
  \<open>tokio::time::interval\<close>, which panics on a period of zero, and a panic ends the process: the model
  ends where the task is spawned.
\<close>

section \<open>Sockets and timers\<close>

record udp_system =
  sock_created :: "socket_addr \<Rightarrow> bool"
  sock_bound :: "socket_addr \<Rightarrow> bool"
  sock_nonblocking :: "socket_addr \<Rightarrow> bool"
  sock_registered :: "socket_addr \<Rightarrow> bool"

text \<open>A failure to enlarge the receive buffer or to allow reuse of the address is not an error.\<close>

definition bind_udp_socket :: "(rstr \<Rightarrow> socket_addr option) \<Rightarrow> udp_system \<Rightarrow> rstr \<Rightarrow> error + socket_addr" where
  "bind_udp_socket v6 U addr =
     (case parse_socket_addr v6 addr of
        None \<Rightarrow> Inl Other
      | Some a \<Rightarrow>
          if \<not> sock_created U a then Inl Other
          else if \<not> sock_bound U a then Inl Other
          else if \<not> sock_nonblocking U a then Inl Other
          else if \<not> sock_registered U a then Inl Other
          else Inr a)"

definition start_timer :: "nat \<Rightarrow> unit run" where
  "start_timer period = (if period = 0 then None else Some ())"

definition SEARCH_RESOLVER_INTERVAL :: nat where "SEARCH_RESOLVER_INTERVAL = 15"

text \<open>The host part that the network guard watches for: \<open>split(':').next()\<close>.\<close>

definition guard_target :: "rstr \<Rightarrow> rstr" where
  "guard_target target = hd (split_on colon target)"

text \<open>\<open>start_reporting\<close>: only the log reporter has a timer.\<close>

definition start_reporting :: "metric_conf \<Rightarrow> unit run" where
  "start_reporting c = (case m_report_type c of Log \<Rightarrow> start_timer (m_report_interval c) | Http \<Rightarrow> Some ())"

definition start_metrics :: "metric_conf \<Rightarrow> metrics option run" where
  "start_metrics c =
     (if m_enable c then do { start_reporting c; Some (Some metrics_new) }
      else Some None)"

text \<open>\<open>HistoryBuffer::new\<close>: the patterns and the number of lines kept.\<close>

definition history_new :: "record_history_conf option \<Rightarrow> rstr list \<times> nat" where
  "history_new c = (case c of Some h \<Rightarrow> (matched_list h, history_lines h) | None \<Rightarrow> ([], 100000))"

text \<open>The HTTP client of resolving, with its time limits in milliseconds; redirects are never followed. \<open>ready\<close>
  says whether the builder of the crate succeeds.\<close>

record http_options =
  request_timeout :: nat
  connect_timeout :: nat
  max_redirects :: nat

definition RESOLVE_TIMEOUT :: nat where "RESOLVE_TIMEOUT = 2 * 1000"
definition DOH_CONNECT_TIMEOUT :: nat where "DOH_CONNECT_TIMEOUT = 1 * 1000"

definition build_http_client :: "(http_options \<Rightarrow> bool) \<Rightarrow> error + unit" where
  "build_http_client ready =
     (if ready \<lparr>request_timeout = RESOLVE_TIMEOUT, connect_timeout = DOH_CONNECT_TIMEOUT, max_redirects = 0\<rparr>
      then Inr () else Inl Config)"

section \<open>The relay\<close>

text \<open>\<open>checked\<close> is the result of \<open>ResolverPicker::new\<close>, the health check of the configured resolvers;
  \<open>host_addresses\<close> what \<open>resolver_picker.resolve\<close> answers for the host of a relay.\<close>

record ('k, 'o) start_env =
  st_lower :: "rstr \<Rightarrow> rstr"
  st_files :: "rstr \<Rightarrow> rstr option"
  st_http_builder :: "http_options \<Rightarrow> bool"
  st_receiver :: bool
  st_udp :: udp_system
  st_parse_v6 :: "rstr \<Rightarrow> socket_addr option"
  checked :: "rstr list \<Rightarrow> error + resolver list"
  host_addresses :: "resolver list \<Rightarrow> rstr \<Rightarrow> error + ipv4 list"
  st_crates :: "'k relay_env"
  st_from_base64 :: "rstr \<Rightarrow> obfs_error + 'o"
  st_finder_builder :: "http_options \<Rightarrow> bool" \<comment> \<open>the second \<open>build_http_client\<close>, by the task of the finder\<close>
  st_finder_socket :: bool

definition st_http_client :: "('k, 'o) start_env \<Rightarrow> error + unit" where
  "st_http_client S = build_http_client (st_http_builder S)"

definition st_finder_client :: "('k, 'o) start_env \<Rightarrow> error + unit" where
  "st_finder_client S = build_http_client (st_finder_builder S)"

text \<open>What runs after start-up.\<close>

record ('k, 'o) started_relay =
  run_rules :: domain_trie
  run_metrics :: "metrics option"
  run_history :: "(rstr list \<times> nat) option"
  run_guard :: "rstr option"
  run_pool :: "resolver list"
  run_relays :: "'k relay_picker option"
  run_finder :: bool
  run_socket :: socket_addr
  run_obfs :: "(socket_addr \<times> 'o list) option"

definition lift_run :: "error + 'a \<Rightarrow> ('a \<Rightarrow> (error + 'b) run) \<Rightarrow> (error + 'b) run" where
  "lift_run r f = (case r of Inl e \<Rightarrow> Some (Inl e) | Inr x \<Rightarrow> f x)"

definition searching_enabled :: "relay_settings \<Rightarrow> bool" where
  "searching_enabled c \<longleftrightarrow> s_enable (resolver_searching c) \<and> resolver_source (resolver_searching c) \<noteq> []"

definition start_relays ::
  "('k, 'o) start_env \<Rightarrow> relays_conf \<Rightarrow> resolver list \<Rightarrow> error + 'k relay_picker option" where
  "start_relays S c healthy =
     (if rl_enable c
      then map_sum id Some (relay_picker_new (st_crates S) (host_addresses S healthy) (resolve_manual c) (relay_instances c))
      else Inr None)"

text \<open>\<open>run_resolver_finder\<close> up to its loop. An error ends the task of the finder, not the program.\<close>

definition finder_setup :: "('k, 'o) start_env \<Rightarrow> searching_conf \<Rightarrow> (error + unit) run" where
  "finder_setup S c = do {
     start_timer (case resfresh_interval c of Some n \<Rightarrow> n | None \<Rightarrow> SEARCH_RESOLVER_INTERVAL);
     Some (try_then (st_finder_client S) (\<lambda>_. if st_finder_socket S then Inr () else Inl Io)) }"

definition start_finder :: "('k, 'o) start_env \<Rightarrow> relay_settings \<Rightarrow> bool run" where
  "start_finder S c =
     (if searching_enabled c then do {
        r \<leftarrow> finder_setup S (resolver_searching c);
        Some (case r of Inl _ \<Rightarrow> False | Inr _ \<Rightarrow> True) }
      else Some False)"

text \<open>Keys that cannot be read are left out; without a key there is no listener.\<close>

definition start_obfs :: "('k, 'o) start_env \<Rightarrow> obfs_conf \<Rightarrow> error + (socket_addr \<times> 'o list) option" where
  "start_obfs S c =
     (if \<not> ob_enable c then Inr None
      else let keys = obfs_keys (st_from_base64 S) (ob_keys c) in
        if keys = [] then Inr None
        else try_then (bind_udp_socket (st_parse_v6 S) (st_udp S) (ob_bind_addr c)) (\<lambda>a. Inr (Some (a, keys))))"

definition relay_run_server ::
  "('k, 'o) start_env \<Rightarrow> error + relay_settings \<Rightarrow> (error + ('k, 'o) started_relay) run" where
  "relay_run_server S loaded =
     lift_run loaded (\<lambda>c. do {
       m \<leftarrow> start_metrics (metric_settings c);
       let rules = build (st_lower S) (st_files S) (drop_list c) (redirect_list c);
       start_timer (poll_interval_ms (hotreload c));
       lift_run (st_http_client S) (\<lambda>_. do {
         let h = (if record_history c then Some (history_new (history_settings c)) else None);
         let g = (if vpn_reassertion c then Some (guard_target (dns_target c)) else None);
         if \<not> st_receiver S then None \<comment> \<open>\<open>expect\<close>\<close>
         else lift_run (checked S (resolvers c)) (\<lambda>healthy.
           lift_run (start_relays S (relays c) healthy) (\<lambda>picker. do {
             finder \<leftarrow> start_finder S c;
             lift_run (bind_udp_socket (st_parse_v6 S) (st_udp S) (dns_target c)) (\<lambda>socket.
             lift_run (start_obfs S (obfs c)) (\<lambda>listener.
               Some (Inr \<lparr>run_rules = rules, run_metrics = m, run_history = h, run_guard = g, run_pool = healthy,
                 run_relays = picker, run_finder = finder, run_socket = socket, run_obfs = listener\<rparr>))) })) }) })"

section \<open>The proxy\<close>

record ('k, 'o) started_proxy =
  prun_rules :: domain_trie
  prun_metrics :: "metrics option"
  prun_reload :: bool
  prun_guard :: "rstr option"
  prun_picker :: "'o target_picker"
  prun_socket :: socket_addr

definition proxy_run_server ::
  "('k, 'o) start_env \<Rightarrow> (rstr \<Rightarrow> socket_addr list option) \<Rightarrow> error + proxy_settings \<Rightarrow>
     (error + ('k, 'o) started_proxy) run" where
  "proxy_run_server S lookup_addr loaded =
     lift_run loaded (\<lambda>c. do {
       let rules = build (st_lower S) (st_files S) (drop_list c) (redirect_list c);
       (if hr_enable (p_hotreload c) then start_timer (poll_interval_ms (p_hotreload c)) else Some ());
       let g = (if p_vpn_reassertion c then Some (guard_target (p_dns_target c)) else None);
       m \<leftarrow> start_metrics (p_metrics c);
       lift_run (resolve_targets lookup_addr (st_from_base64 S) (pc_targets (p_targets c))) (\<lambda>ts.
       lift_run (target_picker_new ts (pc_strategy (p_targets c))) (\<lambda>picker.
       lift_run (bind_udp_socket (st_parse_v6 S) (st_udp S) (p_dns_target c)) (\<lambda>socket.
         Some (Inr \<lparr>prun_rules = rules, prun_metrics = m, prun_reload = hr_enable (p_hotreload c), prun_guard = g,
           prun_picker = picker, prun_socket = socket\<rparr>)))) })"

section \<open>Steps of start-up\<close>

lemma lift_run_None: "lift_run r f = None \<longleftrightarrow> (\<exists>x. r = Inr x \<and> f x = None)"
  by (cases r) (auto simp: lift_run_def)

lemma lift_run_Inr: "lift_run r f = Some (Inr y) \<longleftrightarrow> (\<exists>x. r = Inr x \<and> f x = Some (Inr y))"
  by (cases r) (auto simp: lift_run_def)

lemma start_timer_None [simp]: "start_timer n = None \<longleftrightarrow> n = 0"
  by (simp add: start_timer_def)

lemma start_metrics_None:
  "start_metrics c = None \<longleftrightarrow> m_enable c \<and> m_report_type c = Log \<and> m_report_interval c = 0"
  by (cases "m_report_type c") (auto simp: start_metrics_def start_reporting_def start_timer_def)

lemma start_finder_None:
  "start_finder S c = None \<longleftrightarrow> searching_enabled c \<and> resfresh_interval (resolver_searching c) = Some 0"
  by (auto simp: start_finder_def finder_setup_def start_timer_def SEARCH_RESOLVER_INTERVAL_def bind_eq_None_conv split: option.split)

lemma obfs_keys_read: "k \<in> set (obfs_keys b ks) \<longleftrightarrow> (\<exists>t \<in> set ks. b t = Inr k)"
  by (induction ks) (auto simp: obfs_keys_def map_filter_simps split: sum.split)

lemma start_relays_Inr:
  assumes "start_relays S c healthy = Inr p"
  shows "(p \<noteq> None \<longleftrightarrow> rl_enable c) \<and>
    (\<forall>q. p = Some q \<longrightarrow> instances q \<noteq> [] \<and> length (instances q) = length (relay_instances c))"
proof (cases "rl_enable c")
  case True
  with assms obtain q where q: "p = Some q" "relay_picker_new (st_crates S) (host_addresses S healthy) (resolve_manual c) (relay_instances c) = Inr q"
    by (cases "relay_picker_new (st_crates S) (host_addresses S healthy) (resolve_manual c) (relay_instances c)") (auto simp: start_relays_def)
  then show ?thesis using True relay_instances_new_length
    by (fastforce simp: relay_picker_new_def try_then_Inr split: if_splits)
qed (use assms in \<open>auto simp: start_relays_def\<close>)

lemma start_obfs_Inr:
  "start_obfs S c = Inr (Some (a, keys)) \<Longrightarrow> ob_enable c \<and> keys \<noteq> [] \<and> keys = obfs_keys (st_from_base64 S) (ob_keys c)"
  by (auto simp: start_obfs_def Let_def try_then_Inr split: if_splits)

text \<open>The state in which the first query finds the handlers. \<open>saved\<close> is what \<open>history.txt\<close> holds.\<close>

definition start_state :: "('k, 'o) started_relay \<Rightarrow> 'c \<Rightarrow> rstr option \<Rightarrow> ('c, 'conn, 'k) relay_state" where
  "start_state R empty_cache saved =
     \<lparr>cache = empty_cache, metric_wrapper = run_metrics R, relay_picker = run_relays R, resolver_pool = run_pool R,
      doq_pool = Map.empty, hist = \<lparr>queue = [], flush_task = Idle, hist_file = saved\<rparr>\<rparr>"

lemma relay_start_None:
  "relay_run_server S (Inr c) = None \<longleftrightarrow>
     poll_interval_ms (hotreload c) = 0 \<or>
     (m_enable (metric_settings c) \<and> m_report_type (metric_settings c) = Log \<and> m_report_interval (metric_settings c) = 0) \<or>
     (st_http_client S = Inr () \<and>
      (if st_receiver S
       then \<exists>healthy p. checked S (resolvers c) = Inr healthy \<and> start_relays S (relays c) healthy = Inr p \<and>
         searching_enabled c \<and> resfresh_interval (resolver_searching c) = Some 0
       else True))"
proof -
  have http: "(\<exists>x. st_http_client S = Inr x \<and> P) \<longleftrightarrow> st_http_client S = Inr () \<and> P" for P by auto
  show ?thesis
    by (auto simp: relay_run_server_def lift_run_None start_metrics_None start_finder_None bind_eq_None_conv Let_def http
      split: if_splits)
qed

lemma check_rules_conf:
  "check_rules uni d (conf_rules uni fs c) =
     (case decide (config_rules uni fs (drop_list c) (redirect_list c)) (rsplit_on dot (to_lowercase uni (trim_end_dots d))) of
        PDrop \<Rightarrow> RuleDrop | PRedirect ips \<Rightarrow> RuleRedirect ips | PNone \<Rightarrow> RuleNone)"
  unfolding check_rules_def conf_rules_def lookup_def build_load
  by (subst first_policy_decide) (auto dest: config_rules_not_None split: trie_policy.split)

lemma started_rules:
  assumes "relay_run_server S (Inr c) = Some (Inr R)"
  shows "run_rules R = conf_rules (st_lower S) (st_files S) (conf.truncate c)"
  using assms by (auto simp: relay_run_server_def lift_run_Inr bind_eq_Some_conv Let_def conf_rules_def conf.truncate_def split: if_splits)

section \<open>Properties\<close>

text \<open>A relay that has started is ready: it has a healthy resolver, a relay for each configured
  instance when relays are enabled, the rules of the configuration in force, and a key for the
  obfuscated listener if that runs; in this state no choice of a resolver or relay panics.\<close>

theorem started_relay_ready:
  assumes "relay_run_server S (Inr c) = Some (Inr R)"
    and "test_resolvers probe (resolvers c) (checked S (resolvers c))"
  shows "fit (start_state R empty_cache saved) \<and>
    (\<forall>(r, latency) \<in> set (run_pool R). r \<in> set (resolvers c) \<and> probe r = Inr latency) \<and>
    (case run_relays R of
       None \<Rightarrow> \<not> rl_enable (relays c)
     | Some p \<Rightarrow> rl_enable (relays c) \<and> length (instances p) = length (relay_instances (relays c))) \<and>
    in_force (st_lower S) (st_files S)
      \<lparr>last_mtime = t, current_conf = conf.truncate c, rule_trie = run_rules R, rule_cache = empty_cache\<rparr> \<and>
    (\<forall>a keys. run_obfs R = Some (a, keys) \<longrightarrow>
       keys \<noteq> [] \<and> (\<forall>k \<in> set keys. \<exists>s \<in> set (ob_keys (obfs c)). st_from_base64 S s = Inr k))"
proof -
  from assms(1) obtain healthy where h: "checked S (resolvers c) = Inr healthy" "run_pool R = healthy"
    and p: "start_relays S (relays c) healthy = Inr (run_relays R)" and o: "start_obfs S (obfs c) = Inr (run_obfs R)"
    and r: "run_rules R = build (st_lower S) (st_files S) (drop_list c) (redirect_list c)"
    by (auto simp: relay_run_server_def lift_run_Inr bind_eq_Some_conv Let_def split: if_splits)
  have healthy: "healthy \<noteq> []" "\<forall>(r, latency) \<in> set healthy. r \<in> set (resolvers c) \<and> probe r = Inr latency"
    using test_resolvers_nonempty test_resolvers_healthy assms(2) unfolding h(1) by blast+
  with start_relays_Inr [OF p] h(2) have "fit (start_state R empty_cache saved)" by (auto simp: fit_def start_state_def)
  moreover have "case run_relays R of None \<Rightarrow> \<not> rl_enable (relays c)
      | Some p \<Rightarrow> rl_enable (relays c) \<and> length (instances p) = length (relay_instances (relays c))"
    using start_relays_Inr [OF p] by (auto split: option.split)
  moreover have "in_force (st_lower S) (st_files S)
      \<lparr>last_mtime = t, current_conf = conf.truncate c, rule_trie = run_rules R, rule_cache = empty_cache\<rparr>"
    using r by (simp add: in_force_def conf_rules_def conf.truncate_def)
  moreover have "\<forall>a keys. run_obfs R = Some (a, keys) \<longrightarrow>
      keys \<noteq> [] \<and> (\<forall>k \<in> set keys. \<exists>s \<in> set (ob_keys (obfs c)). st_from_base64 S s = Inr k)"
  proof (intro allI impI)
    fix a keys
    assume "run_obfs R = Some (a, keys)"
    with o have "start_obfs S (obfs c) = Inr (Some (a, keys))" by simp
    from start_obfs_Inr [OF this] have "keys \<noteq> []" and keys: "keys = obfs_keys (st_from_base64 S) (ob_keys (obfs c))" by blast+
    then show "keys \<noteq> [] \<and> (\<forall>k \<in> set keys. \<exists>s \<in> set (ob_keys (obfs c)). st_from_base64 S s = Inr k)"
      unfolding keys by (simp add: obfs_keys_read)
  qed
  ultimately show ?thesis using healthy(2) h(2) by simp
qed

text \<open>A start with one healthy resolver, a relay and the obfuscated listener.\<close>

definition demo_start :: "(u8, u8) start_env" where
  "demo_start =
     \<lparr>st_lower = (\<lambda>s. s), st_files = (\<lambda>_. None), st_http_builder = (\<lambda>_. True), st_receiver = True,
      st_udp = \<lparr>sock_created = (\<lambda>_. True), sock_bound = (\<lambda>_. True), sock_nonblocking = (\<lambda>_. True), sock_registered = (\<lambda>_. True)\<rparr>,
      st_parse_v6 = (\<lambda>_. Some (SockV4 (127, 0, 0, 1) 53)), checked = (\<lambda>_. Inr [(lit ''1.1.1.1:53'', 20)]),
      host_addresses = (\<lambda>_ _. Inr [(1, 2, 3, 4)]), st_crates = demo_env, st_from_base64 = (\<lambda>_. Inr 7),
      st_finder_builder = (\<lambda>_. True), st_finder_socket = True\<rparr>"

definition demo_settings :: relay_settings where
  "demo_settings =
     \<lparr>drop_list = [lit ''a.b''], redirect_list = [], dns_target = lit ''localhost'',
      resolvers = [lit ''1.1.1.1:53'', lit ''9.9.9.9:53''],
      resolver_searching = \<lparr>s_enable = False, resolver_source = [], resfresh_interval = None, s_ipv4 = True, s_doh = True\<rparr>,
      hotreload = relay_hotreload_default,
      relays = \<lparr>rl_enable = True, resolve_manual = True, relay_timeout_sec = default_relay_timeout_sec, relay_instances = [demo_conf]\<rparr>,
      metric_settings = \<lparr>m_enable = True, m_report_type = Log, m_report_interval = default_report_interval\<rparr>,
      vpn_reassertion = True, init_tls = False, record_history = True, history_settings = None,
      obfs = \<lparr>ob_enable = True, ob_bind_addr = lit ''localhost'', ob_keys = [lit ''k'']\<rparr>\<rparr>"

definition demo_probe :: "rstr \<Rightarrow> error + nat" where
  "demo_probe r = (if r = lit ''1.1.1.1:53'' then Inr 20 else Inl UdpTimeout)"

lemma demo_start_sel [simp]:
  "st_lower demo_start = (\<lambda>s. s)" "st_files demo_start = (\<lambda>_. None)" "st_http_client demo_start = Inr ()"
  "st_http_client (demo_start\<lparr>st_receiver := False\<rparr>) = Inr ()" "st_receiver demo_start" "checked demo_start rs = Inr [(lit ''1.1.1.1:53'', 20)]" "st_from_base64 demo_start s = Inr 7"
  by (simp_all add: demo_start_def st_http_client_def build_http_client_def)

lemma demo_settings_sel [simp]:
  "resolvers demo_settings = [lit ''1.1.1.1:53'', lit ''9.9.9.9:53'']" "hotreload demo_settings = relay_hotreload_default"
  "ob_keys (obfs demo_settings) = [lit ''k'']" "rl_enable (relays demo_settings)"
  by (simp_all add: demo_settings_def)

lemma demo_bind: "bind_udp_socket (st_parse_v6 demo_start) (st_udp demo_start) (lit ''localhost'') = Inr (SockV4 (127, 0, 0, 1) 53)"
proof -
  have "colon \<notin> set (lit ''localhost'')" by code_simp
  then show ?thesis by (simp add: bind_udp_socket_def demo_start_def parse_socket_addr_def split_once_def)
qed

lemma demo_started: "\<exists>R. relay_run_server demo_start (Inr demo_settings) = Some (Inr R)"
proof -
  have "\<exists>p. start_relays demo_start (relays demo_settings) [(lit ''1.1.1.1:53'', 20)] = Inr p"
    by (simp add: start_relays_def demo_settings_def demo_start_def relay_picker_new_def relay_instance_new_def
      demo_conf_def demo_env_def host_from_url_def client_for_relay_def load_key_from_str_def)
  moreover have "\<exists>m. start_metrics (metric_settings demo_settings) = Some m"
    by (simp add: start_metrics_def demo_settings_def start_reporting_def start_timer_def default_report_interval_def)
  moreover have "start_finder demo_start demo_settings = Some False"
    by (simp add: start_finder_def searching_enabled_def demo_settings_def)
  moreover have "start_obfs demo_start (obfs demo_settings) = Inr (Some (SockV4 (127, 0, 0, 1) 53, [7]))"
    using demo_bind by (simp add: start_obfs_def demo_settings_def obfs_keys_def map_filter_simps)
  moreover have "bind_udp_socket (st_parse_v6 demo_start) (st_udp demo_start) (dns_target demo_settings) = Inr (SockV4 (127, 0, 0, 1) 53)"
    using demo_bind by (simp add: demo_settings_def)
  ultimately show ?thesis
    by (auto simp: relay_run_server_def lift_run_def start_timer_def relay_hotreload_default_def Let_def)
qed

theorem started_relay_ready_witness:
  "\<exists>R :: (u8, u8) started_relay. relay_run_server demo_start (Inr demo_settings) = Some (Inr R) \<and> fit (start_state R () None) \<and> run_relays R \<noteq> None"
proof -
  obtain R where R: "relay_run_server demo_start (Inr demo_settings) = Some (Inr R)" using demo_started by blast
  have "lit ''9.9.9.9:53'' \<noteq> lit ''1.1.1.1:53''" by code_simp
  then have "test_resolvers demo_probe (resolvers demo_settings) (checked demo_start (resolvers demo_settings))"
    by (auto simp: healthy_results_def demo_probe_def map_filter_simps sorted_by_latency_def intro!: test_resolvers.some)
  from started_relay_ready [OF R this, of "()" None] R show ?thesis by (cases "run_relays R") auto
qed

text \<open>C36: Start-up ends in a panic exactly when a timer that it starts has a period of zero, or the
  receiver socket cannot be bound. The timer of the configuration watch is always started: a relay
  whose hot reload is switched off with an interval of zero does not run.\<close>

theorem relay_start_panics_iff:
  "relay_run_server S (Inr c) = None \<longleftrightarrow>
     poll_interval_ms (hotreload c) = 0 \<or>
     (m_enable (metric_settings c) \<and> m_report_type (metric_settings c) = Log \<and> m_report_interval (metric_settings c) = 0) \<or>
     (st_http_client S = Inr () \<and>
      (if st_receiver S
       then \<exists>healthy p. checked S (resolvers c) = Inr healthy \<and> start_relays S (relays c) healthy = Inr p \<and>
         searching_enabled c \<and> resfresh_interval (resolver_searching c) = Some 0
       else True))"
  by (rule relay_start_None)



definition demo_proxy_conf :: proxy_conf where
  "demo_proxy_conf = \<lparr>listen_addr = [],
     pc_targets = [\<lparr>pt_name = lit ''relay'', pt_mode = UdpObfs, pt_address = lit ''10.0.0.1:8853'', pt_shared_key = Some (lit ''k'')\<rparr>],
     pc_strategy = RoundRobin, upstream_timeout_ms = default_upstream_timeout_ms\<rparr>"

text \<open>A proxy that has started has the targets of its configuration, at least one, each with a key if
  its queries are obfuscated, so that forwarding never panics; and its watch runs exactly when it is
  enabled.\<close>

theorem started_proxy_ready:
  assumes "proxy_run_server S lookup_addr (Inr c) = Some (Inr R)"
  shows "targets (prun_picker R) \<noteq> [] \<and> list_all keyed (targets (prun_picker R)) \<and>
    list_all2 (\<lambda>t r. rt_name r = pt_name t \<and> rt_mode r = pt_mode t) (pc_targets (p_targets c)) (targets (prun_picker R)) \<and>
    prun_reload R = hr_enable (p_hotreload c) \<and>
    prun_rules R = conf_rules (st_lower S) (st_files S) (conf.truncate c)"
proof -
  from assms obtain ts where ts: "resolve_targets lookup_addr (st_from_base64 S) (pc_targets (p_targets c)) = Inr ts"
    "target_picker_new ts (pc_strategy (p_targets c)) = Inr (prun_picker R)"
    and r: "prun_reload R = hr_enable (p_hotreload c)"
      "prun_rules R = build (st_lower S) (st_files S) (drop_list c) (redirect_list c)"
    by (auto simp: proxy_run_server_def lift_run_Inr bind_eq_Some_conv Let_def split: if_splits)
  from ts(2) have "targets (prun_picker R) = ts" "ts \<noteq> []"
    by (cases "prun_picker R"; auto simp: target_picker_new_def split: if_splits)+
  with resolve_targets_keyed [OF ts(1)] r show ?thesis by (simp add: conf_rules_def conf.truncate_def)
qed

theorem started_proxy_ready_witness:
  "\<exists>R :: (u8, u8) started_proxy. proxy_run_server demo_start (\<lambda>_. Some [SockV4 (10, 0, 0, 1) 8853])
      (Inr \<lparr>drop_list = [], redirect_list = [], p_dns_target = lit ''localhost'',
        p_targets = demo_proxy_conf,        p_hotreload = proxy_hotreload_default,
        p_metrics = \<lparr>m_enable = False, m_report_type = Log, m_report_interval = 0\<rparr>, p_vpn_reassertion = False\<rparr>) = Some (Inr R)
    \<and> map rt_key (targets (prun_picker R)) = [Some 7] \<and> \<not> prun_reload R"
proof -
  let ?c = "\<lparr>drop_list = [], redirect_list = [], p_dns_target = lit ''localhost'',
      p_targets = demo_proxy_conf,      p_hotreload = proxy_hotreload_default,
      p_metrics = \<lparr>m_enable = False, m_report_type = Log, m_report_interval = 0\<rparr>, p_vpn_reassertion = False\<rparr>"
  obtain R :: "(u8, u8) started_proxy" where R: "proxy_run_server demo_start (\<lambda>_. Some [SockV4 (10, 0, 0, 1) 8853]) (Inr ?c) = Some (Inr R)"
    "map rt_key (targets (prun_picker R)) = [Some 7]"
    using demo_bind by (auto simp: proxy_run_server_def lift_run_def start_metrics_def resolve_target_def target_picker_new_def
      demo_proxy_conf_def proxy_hotreload_default_def Let_def)
  from started_proxy_ready [OF R(1)] R show ?thesis by (intro exI [of _ R]) (simp add: proxy_hotreload_default_def)
qed

end
