(* ===== verification/Deployment.thy ===== *)
theory Deployment
  imports Whole_Relay Whole_Proxy Start_Up
begin

text \<open>
  Both programs together, each started from its own configuration: a client asks the proxy, the proxy asks
  the relay over obfuscated UDP. The network between them is a hypothesis of the theorems: a datagram
  that the proxy sends to the relay's address is handled by the relay's listener (\<open>obfs_datagram\<close>), and
  what the listener sends comes back.
\<close>

section \<open>The proxy after start-up\<close>

definition proxy_start_state :: "('k, 'o) started_proxy \<Rightarrow> 'c \<Rightarrow> ('c, 'o) proxy_state" where
  "proxy_start_state R empty_cache =
     \<lparr>proxy_cache = empty_cache, proxy_metrics = prun_metrics R, target_picker = prun_picker R\<rparr>"

lemma started_proxy_rules:
  assumes "proxy_run_server S lookup_addr (Inr c) = Some (Inr R)"
  shows "prun_rules R = conf_rules (st_lower S) (st_files S) (conf.truncate c)"
  using assms by (auto simp: proxy_run_server_def lift_run_Inr bind_eq_Some_conv Let_def conf_rules_def conf.truncate_def
    split: if_splits)

section \<open>One query\<close>

text \<open>What a query gets that the proxy has no rule and no cached answer for.\<close>

lemma proxy_forwards:
  assumes "12 \<le> length p" "parse_domain (proxy_lower P) p 12 = Some (Some (d, qe))" "qe + 2 \<le> length p"
    and "check_rules (proxy_lower P) d tr = RuleNone"
    and "cache_lookup (proxy_lru P) t_l (question_key p d qe) (proxy_cache s) = (None, c)"
    and "forward_query (proxy_net P) (proxy_cipher P) rnd p (target_picker s) = Some (Inr b, picker)"
    and "cache_ttl (proxy_lower P) b \<noteq> None"
  shows "\<exists>s'. proxy_handle_query P tr t_l t_s rnd p s = Some ([with_txid b (p ! 0) (p ! 1)], s')"
  using assms rd_header [OF assms(1)] cache_key_of_parse [OF assms(2)]
  by (auto simp: proxy_handle_query_def Let_def cache_store_def question_key_def)

text \<open>A query for a name that the relay drops.\<close>

lemma relay_drops:
  assumes "12 \<le> length p" "parse_domain (lower E) p 12 = Some (Some (d, qe))" "check_rules (lower E) d tr = RuleDrop"
  shows "resolve_query E tr W p s = Some (Some (p[2 := 0x81, 3 := 0x83]), incr_drop s)"
  using query_front_eq [OF assms(1,2), of tr "lookup_time W" s] assms(3) by (simp add: resolve_query_def)

lemma question_has_no_ttl:
  assumes "12 \<le> length p" "rd16 p 6 = Some 0"
  shows "cache_ttl uni (p[2 := x, 3 := y]) \<noteq> None"
proof -
  have "rd16 (p[2 := x, 3 := y]) 6 = Some 0" using assms by (simp add: rd16_in)
  then show ?thesis by (simp add: cache_ttl_def min_answer_ttl_def)
qed

lemma with_own_txid:
  assumes "12 \<le> length p"
  shows "with_txid (p[2 := x, 3 := y]) (p ! 0) (p ! 1) = p[2 := x, 3 := y]"
proof -
  have "(p[2 := x, 3 := y])[0 := p ! 0] = p[2 := x, 3 := y]"
    by (rule list_update_same_conv [THEN iffD2]) (use assms in auto)
  moreover have "(p[2 := x, 3 := y])[1 := p ! 1] = p[2 := x, 3 := y]"
    by (rule list_update_same_conv [THEN iffD2]) (use assms in auto)
  ultimately show ?thesis using assms by (simp add: with_txid_def)
qed

section \<open>Properties\<close>

text \<open>C3: The rules of the relay hold for the clients of the proxy. Both programs have started and have not
  reloaded their rules since; their states are arbitrary otherwise (cache, counters, round robin). The configuration
  of the proxy has no rule for the name and that of the relay drops it; the proxy has no cached answer, and
  the target whose turn it is, or the first after targets that fail, is the relay, over obfuscated UDP
  under one of its keys. The query has 12 to 1024 bytes, a question with its type, and no answers. The
  relay has a permit for it, none of its keys before the right one opens the datagram, and datagrams arrive. Then
  the client gets NXDOMAIN under the transaction ID of its query. With targets that do not block, a
  query that one of them answers first is not blocked.\<close>

theorem deployment_blocks:
  assumes "relay_run_server S (Inr c) = Some (Inr R)" "lower E = st_lower S"
    and "proxy_run_server S' lookup_addr (Inr c') = Some (Inr Q)" "proxy_lower P = st_lower S'"
    and "run_obfs R = Some (laddr, before @ k # after)"
    and "try_order (target_picker sp) = Some (failing @ t # ts, picker)" "rt_mode t = UdpObfs" "rt_key t = Some k"
    and "\<forall>j < length failing. \<exists>e. try_target (proxy_net P) (proxy_cipher P) (rnd j) p (failing ! j) = Some (Inl e)"
    and "aead_contract (proxy_cipher P)" "obfs_random_ok (rnd (length failing))" "obfs_random_ok rr"
    and "obfs_encode (proxy_cipher P) k (rnd (length failing)) p = Some dg"
    and "\<forall>k' \<in> set before. obfs_decode (proxy_cipher P) k' dg = Some None"
    and "udp_exchange (proxy_net P) (rt_addr t) dg =
      (case obfs_datagram E (run_rules R) W (proxy_cipher P) rr (before @ k # after) True dg sr of
         Some (Some e, _) \<Rightarrow> Received e | _ \<Rightarrow> NoReply)"
    and "12 \<le> length p" "length p \<le> 1024" "rd16 p 6 = Some 0" "qe + 2 \<le> length p"
    and "parse_domain (lower E) p 12 = Some (Some (d, qe))" "parse_domain (proxy_lower P) p 12 = Some (Some (d, qe))"
    and "cache_lookup (proxy_lru P) t_l (question_key p d qe) (proxy_cache sp) = (None, cp)"
    and "decide (config_rules (st_lower S') (st_files S') (drop_list c') (redirect_list c'))
      (rsplit_on dot (to_lowercase (st_lower S') (trim_end_dots d))) = PNone"
    and "decide (config_rules (st_lower S) (st_files S) (drop_list c) (redirect_list c))
      (rsplit_on dot (to_lowercase (st_lower S) (trim_end_dots d))) = PDrop"
  shows "\<exists>s. proxy_handle_query P (prun_rules Q) t_l t_s rnd p sp = Some ([p[2 := 0x81, 3 := 0x83]], s)"
proof -
  let ?r = "p[2 := 0x81, 3 := 0x83]"
  have "check_rules (lower E) d (run_rules R) = RuleDrop"
    using started_rules [OF assms(1)] assms(2,24) by (simp add: check_rules_conf conf.truncate_def)
  then have "resolve_query E (run_rules R) W p sr = Some (Some ?r, incr_drop sr)"
    using relay_drops assms(16,20) by blast
  moreover have "length ?r \<le> 3874" using assms(17) by simp
  ultimately have "send_obfs (proxy_net P) (proxy_cipher P) (rt_addr t) k (rnd (length failing)) p = Some (Inr ?r)"
    by (rule obfs_exchange [OF assms(10,11,12,17,13,14) _ _ assms(15)])
  then have "try_target (proxy_net P) (proxy_cipher P) (rnd (0 + length failing)) p t = Some (Inr ?r)"
    using assms(7,8) by (simp add: try_target_def)
  with forward_loop_first [of failing "proxy_net P" "proxy_cipher P" rnd 0 p t ?r NoHealthyResolvers ts] assms(9)
  have fwd: "forward_query (proxy_net P) (proxy_cipher P) rnd p (target_picker sp) = Some (Inr ?r, picker)"
    using assms(6) by (simp add: forward_query_def)
  have "check_rules (proxy_lower P) d (prun_rules Q) = RuleNone"
    using started_proxy_rules [OF assms(3)] assms(4,23) by (simp add: check_rules_conf conf.truncate_def)
  from proxy_forwards [OF assms(16,21,19) this assms(22) fwd question_has_no_ttl [OF assms(16,18)], of t_s]
  show ?thesis using with_own_txid [OF assms(16)] by simp
qed

text \<open>The proxy of the example asks the relay of the example, which drops the name that is asked for.\<close>

definition demo_proxy_settings :: proxy_settings where
  "demo_proxy_settings =
     \<lparr>drop_list = [], redirect_list = [], p_dns_target = lit ''localhost'', p_targets = demo_proxy_conf,
      p_hotreload = proxy_hotreload_default, p_metrics = metric_default, p_vpn_reassertion = False\<rparr>"

definition demo_relay_target :: "u8 resolved_target" where
  "demo_relay_target = \<lparr>rt_name = lit ''relay'', rt_mode = UdpObfs, rt_addr = SockV4 (10, 0, 0, 1) 8853, rt_key = Some 7\<rparr>"

definition demo_relay_proxy :: "(bytes \<Rightarrow> bytes option) \<Rightarrow> ((cache_key, cache_entry) recency, nat, u8) proxy_server" where
  "demo_relay_proxy answer = \<lparr>proxy_lower = (\<lambda>s. s), proxy_lru = list_lru, proxy_net = relay_net answer, proxy_cipher = xor_aead\<rparr>"

lemma demo_proxy_started:
  "\<exists>Q :: (u8, u8) started_proxy. proxy_run_server demo_start (\<lambda>_. Some [SockV4 (10, 0, 0, 1) 8853]) (Inr demo_proxy_settings) = Some (Inr Q) \<and>
     prun_picker Q = \<lparr>targets = [demo_relay_target], strategy = RoundRobin, cursor = 0\<rparr>"
  using demo_bind by (simp add: proxy_run_server_def lift_run_def start_metrics_def resolve_target_def target_picker_new_def
    demo_proxy_settings_def demo_proxy_conf_def proxy_hotreload_default_def metric_default_def demo_relay_target_def Let_def)

lemma demo_relay_listens:
  "\<exists>R :: (u8, u8) started_relay. relay_run_server demo_start (Inr demo_settings) = Some (Inr R) \<and>
     run_obfs R = Some (SockV4 (127, 0, 0, 1) 53, [7])"
proof -
  obtain R :: "(u8, u8) started_relay" where R: "relay_run_server demo_start (Inr demo_settings) = Some (Inr R)"
    using demo_started by blast
  then have "start_obfs demo_start (obfs demo_settings) = Inr (run_obfs R)"
    by (auto simp: relay_run_server_def lift_run_Inr bind_eq_Some_conv Let_def split: if_splits)
  moreover have "start_obfs demo_start (obfs demo_settings) = Inr (Some (SockV4 (127, 0, 0, 1) 53, [7]))"
    using demo_bind by (simp add: start_obfs_def demo_settings_def obfs_keys_def map_filter_simps)
  ultimately show ?thesis using R by (intro exI [of _ R]) simp
qed

text \<open>The second query that the proxy of the example gets.\<close>

theorem deployment_blocks_witness:
  "\<exists>answer (Q :: (u8, u8) started_proxy) s. prun_picker Q = \<lparr>targets = [demo_relay_target], strategy = RoundRobin, cursor = 0\<rparr> \<and>
     proxy_handle_query (demo_relay_proxy answer) (prun_rules Q) 0 0 demo_random demo_query
       ((proxy_start_state Q (3, []))\<lparr>target_picker := (prun_picker Q)\<lparr>cursor := 1\<rparr>\<rparr>)
       = Some ([demo_query[2 := 0x81, 3 := 0x83]], s)"
proof -
  obtain R where R: "relay_run_server demo_start (Inr demo_settings) = Some (Inr R)"
    "run_obfs R = Some (SockV4 (127, 0, 0, 1) 53, [] @ 7 # [])"
    using demo_relay_listens by auto
  obtain Q :: "(u8, u8) started_proxy" where Q: "proxy_run_server demo_start (\<lambda>_. Some [SockV4 (10, 0, 0, 1) 8853]) (Inr demo_proxy_settings) = Some (Inr Q)"
    "prun_picker Q = \<lparr>targets = [demo_relay_target], strategy = RoundRobin, cursor = 0\<rparr>"
    using demo_proxy_started by blast
  let ?E = "demo_server demo_reply" and ?run = "demo_run InTime"
  let ?sr = "start_state R (0, []) None"
  let ?sp = "(proxy_start_state Q (3, []))\<lparr>target_picker := (prun_picker Q)\<lparr>cursor := 1\<rparr>\<rparr> :: ((cache_key, cache_entry) recency, u8) proxy_state"
  define answer where "answer d = (case obfs_datagram ?E (run_rules R) ?run xor_aead (demo_random 1) ([] @ 7 # []) True d ?sr of
      Some (Some e, _) \<Rightarrow> Some e | _ \<Rightarrow> None)" for d
  let ?P = "demo_relay_proxy answer"
  have sel [simp]: "proxy_lower ?P = (\<lambda>s. s)" "proxy_cipher ?P = xor_aead" "proxy_net ?P = relay_net answer"
    "proxy_lru ?P = list_lru" "lower ?E = (\<lambda>s. s)"
    by (simp_all add: demo_relay_proxy_def)
  obtain dg where dg: "obfs_encode xor_aead 7 (demo_random 0) demo_query = Some dg"
    using xor.obfs_encode_total [OF demo_random_ok, of demo_query 7 0] by (auto simp: demo_length)
  have net: "udp_exchange (relay_net answer) a dg =
      (case obfs_datagram ?E (run_rules R) ?run xor_aead (demo_random 1) ([] @ 7 # []) True dg ?sr of
         Some (Some e, _) \<Rightarrow> Received e | _ \<Rightarrow> NoReply)" for a
    by (auto simp: relay_net_def answer_def split: option.split)
  have "\<exists>picker. try_order (target_picker ?sp) = Some ([] @ demo_relay_target # [], picker)"
    by (simp add: Q(2) try_order_def start_ticket_def)
  then obtain picker where order: "try_order (target_picker ?sp) = Some ([] @ demo_relay_target # [], picker)" by blast
  have "rd16 demo_query 6 = Some 0"
    "decide (config_rules (\<lambda>s. s) (\<lambda>_. None) [] []) (rsplit_on dot (to_lowercase (\<lambda>s. s) (trim_end_dots (lit ''a.b'')))) = PNone"
    "decide (config_rules (\<lambda>s. s) (\<lambda>_. None) [lit ''a.b''] []) (rsplit_on dot (to_lowercase (\<lambda>s. s) (trim_end_dots (lit ''a.b'')))) = PDrop"
    by code_simp+
  with deployment_blocks [where P = ?P and E = ?E and W = ?run and rr = "demo_random 1" and sr = ?sr and
      rnd = demo_random and p = demo_query and t_l = 0 and t_s = 0 and cp = "(3, [])" and dg = dg and d = "lit ''a.b''" and qe = 17,
      OF R(1) _ Q(1) _ R(2) order]
  have "\<exists>s. proxy_handle_query ?P (prun_rules Q) 0 0 demo_random demo_query ?sp = Some ([demo_query[2 := 0x81, 3 := 0x83]], s)"
    using dg net by (simp add: demo_relay_target_def xor.aead_contract_axioms demo_random_ok demo_length demo_parse
      demo_settings_def demo_proxy_settings_def cache_lookup_def proxy_start_state_def)
  with Q(2) show ?thesis by blast
qed

end
