(* ===== verification/Log_Output.thy ===== *)
theory Log_Output
  imports Rust_Str
begin

text \<open>
  The set-up of the log of both programs (\<open>shared/src/logger.rs\<close>): two layers, one to the console and one, through
  a thread, to a file that is rotated. What the crates \<open>tracing\<close>, \<open>tracing_appender\<close> and \<open>file_rotate\<close> do with a line
  is not modelled; of them the start depends only on whether the set-up succeeds.
\<close>

text \<open>\<open>FileRotate::new(path, AppendCount(n), ContentLimit::Bytes(limit), Compression::None, None)\<close>.\<close>

record file_rotate =
  rotate_path :: rstr
  rotated_files :: nat
  rotate_bytes :: nat

definition app_log :: file_rotate where
  "app_log = \<lparr>rotate_path = lit ''logs/app.log'', rotated_files = 10, rotate_bytes = 1000000000\<rparr>"

text \<open>What the system and the crates say: the directory can be created; the subscriber whose second layer writes to
  this file can be installed, which fails when the process has one.\<close>

record log_crates =
  create_dir_all :: "rstr \<Rightarrow> bool"
  subscriber_init :: "file_rotate \<Rightarrow> bool"

text \<open>The result stands for the \<open>WorkerGuard\<close>, by the file that its thread writes to.\<close>

definition init_logger :: "log_crates \<Rightarrow> file_rotate run" where
  "init_logger C =
     (if \<not> create_dir_all C (lit ''logs'') then None \<comment> \<open>\<open>expect\<close>\<close>
      else if \<not> subscriber_init C app_log then None \<comment> \<open>\<open>init\<close>\<close>
      else Some app_log)"

text \<open>\<open>let _ = init_logger()\<close>: the pattern binds nothing, so \<open>main\<close> does not have the guard.\<close>

definition main_logger :: "log_crates \<Rightarrow> unit run" where
  "main_logger C = map_option (\<lambda>guard. ()) (init_logger C)"

end
