(* ===== verification/Commands.thy ===== *)
theory Commands
  imports Start_Up Log_Output
begin

text \<open>
  What a call of either program does (\<open>main\<close> of \<open>dns_relay/src/main.rs\<close> and of
  \<open>resolver_proxy/src/main.rs\<close>): the dispatch of the commands, what each prints, and how it ends.

  Command lines are parsed by the crate \<open>clap\<close> into the commands below; \<open>first\<close> and \<open>second\<close> are the two
  results of \<open>load_conf\<close> that a call of the relay sees, since \<open>main\<close> and the command each load the file.
  Output is a list of lines for each of the two streams; the text of an error is the argument \<open>text\<close>
  (theory \<open>Error_Text\<close>). Random bytes of new keys are arguments. The log is that of theory \<open>Log_Output\<close>; when it
  cannot be set up, the program ends.
\<close>

section \<open>Commands\<close>

datatype relay_command =
    Run
  | CheckConf
  | ListRules
  | Resolvers
  | Resolve rstr bool "rstr option" \<comment> \<open>\<open>domain\<close>, \<open>relay\<close>, \<open>resolver\<close>\<close>
  | GenRelayKey

datatype proxy_command =
    ProxyRun
  | ProxyCheckConf
  | ProxyListRules
  | ProxyGenRelayKey
  | ProxyGenObfsKey

text \<open>A call ends with what it printed and its result, or serves queries without an end.\<close>

datatype 's ending =
    Ended (stdout: "rstr list") (stderr: "rstr list") (result: "error + unit")
  | Serving 's

definition serve :: "(error + 's) run \<Rightarrow> 's ending run" where
  "serve r = map_option (\<lambda>x. case x of Inl e \<Rightarrow> Ended [] [] (Inl e) | Inr R \<Rightarrow> Serving R) r"

definition printing :: "(error + rstr list) run \<Rightarrow> 's ending run" where
  "printing r = map_option (\<lambda>x. case x of Inl e \<Rightarrow> Ended [] [] (Inl e) | Inr ls \<Rightarrow> Ended ls [] (Inr ())) r"

section \<open>Configuration and rules\<close>

definition check_conf :: "(error \<Rightarrow> rstr) \<Rightarrow> error + 'c conf_scheme \<Rightarrow> 's ending" where
  "check_conf text loaded =
     (case loaded of
        Inr c \<Rightarrow> Ended [lit ''conf OK: '' @ show_nat (length (redirect_list c)) @ lit '' redirect rules, ''
                   @ show_nat (length (drop_list c)) @ lit '' drop rules''] [] (Inr ())
      | Inl e \<Rightarrow> Ended [] [lit ''conf error: '' @ text e] (Inl e))"

definition proxy_check_conf :: "(error \<Rightarrow> rstr) \<Rightarrow> error + 'c conf_scheme \<Rightarrow> 's ending" where
  "proxy_check_conf text loaded =
     (case loaded of
        Inr c \<Rightarrow> Ended [lit ''conf OK: '' @ show_nat (length (redirect_list c)) @ lit '' redirect rules, ''
                   @ show_nat (length (drop_list c)) @ lit '' drop rules''] [] (Inr ())
      | Inl e \<Rightarrow> Ended [] [lit ''conf error: '' @ text e] (Inl e))"

definition rule_lines :: "rstr \<Rightarrow> 'c conf_scheme \<Rightarrow> rstr list" where
  "rule_lines drop_word c =
     map (\<lambda>domain. drop_word @ domain) (drop_list c)
     @ map (\<lambda>(from, to). lit ''REDIRECT '' @ from @ lit '' -> '' @ to) (redirect_list c)"

definition relay_list_rules :: "error + 'c conf_scheme \<Rightarrow> 's ending" where
  "relay_list_rules loaded =
     (case loaded of Inr c \<Rightarrow> Ended (rule_lines (lit ''DROPu   '') c) [] (Inr ()) | Inl e \<Rightarrow> Ended [] [] (Inl e))"

definition proxy_list_rules :: "error + 'c conf_scheme \<Rightarrow> 's ending" where
  "proxy_list_rules loaded =
     (case loaded of Inr c \<Rightarrow> Ended (rule_lines (lit ''DROP    '') c) [] (Inr ()) | Inl e \<Rightarrow> Ended [] [] (Inl e))"

section \<open>Keys\<close>

text \<open>\<open>gen_relay_key\<close> of the relay and the one of \<open>shared\<close>, which the proxy calls: the same code.\<close>

definition gen_relay_key :: "(bytes \<Rightarrow> rstr) \<Rightarrow> bytes \<Rightarrow> 's ending" where
  "gen_relay_key b64 key = Ended [b64 key] [] (Inr ())"

definition shared_gen_relay_key :: "(bytes \<Rightarrow> rstr) \<Rightarrow> bytes \<Rightarrow> 's ending" where
  "shared_gen_relay_key b64 key = Ended [b64 key] [] (Inr ())"

definition generate_base64 :: "(bytes \<Rightarrow> rstr) \<Rightarrow> bytes \<Rightarrow> rstr" where
  "generate_base64 b64 key = b64 key"

definition gen_obfs_key :: "(bytes \<Rightarrow> rstr) \<Rightarrow> bytes \<Rightarrow> 's ending" where
  "gen_obfs_key b64 key = Ended [generate_base64 b64 key] [] (Inr ())"

section \<open>The list of resolvers\<close>

text \<open>\<open>{:<w}\<close> and \<open>{:>w}\<close>: the width counts characters.\<close>

definition char_count :: "rstr \<Rightarrow> nat" where
  "char_count s = length (filter (\<lambda>b. \<not> is_cont b) s)"

definition fmt_left :: "nat \<Rightarrow> rstr \<Rightarrow> rstr" where
  "fmt_left w s = s @ replicate (w - char_count s) 32"

definition fmt_right :: "nat \<Rightarrow> rstr \<Rightarrow> rstr" where
  "fmt_right w s = replicate (w - char_count s) 32 @ s"

definition CLEAR_SCREEN :: rstr where
  "CLEAR_SCREEN = 27 # lit ''[2J'' @ 27 # lit ''[1;1H''"

definition top_resolvers :: "resolver list \<Rightarrow> resolver list" where
  "top_resolvers healthy = take (min 10 (length healthy)) healthy"

text \<open>Latencies are in nanoseconds; \<open>as_millis\<close> rounds down.\<close>

definition resolver_row :: "nat \<Rightarrow> resolver \<Rightarrow> rstr" where
  "resolver_row i r =
     fmt_left 4 (show_nat (i + 1)) @ fmt_left 40 (fst r) @ fmt_right 10 (show_nat (snd r div 1000000))"

definition resolver_table :: "resolver list \<Rightarrow> rstr list" where
  "resolver_table shown =
     [CLEAR_SCREEN @ fmt_left 4 (lit ''#'') @ fmt_left 40 (lit ''Address'') @ fmt_right 10 (lit ''Latency (ms)''),
      replicate 54 45]
     @ concat (map (\<lambda>(i, r). [resolver_row i r, []]) (enumerate 0 shown))"

definition list_resolvers :: "('k, 'o) start_env \<Rightarrow> error + relay_settings \<Rightarrow> error + rstr list" where
  "list_resolvers S loaded =
     try_then loaded (\<lambda>c. try_then (st_http_client S) (\<lambda>_.
       if \<not> st_receiver S then Inl Io
       else try_then (checked S (resolvers c)) (\<lambda>healthy. Inr (resolver_table (top_resolvers healthy)))))"

section \<open>Resolving one name\<close>

text \<open>The text that the command \<open>resolve\<close> prints for what it found.\<close>

definition resolved_lines :: "rstr \<Rightarrow> ipv4 list \<Rightarrow> rstr list" where
  "resolved_lines domain ips =
     (if ips = [] then [lit '';; no A records found for '' @ domain]
      else map (\<lambda>ip. [newline] @ domain @ lit ''.'' @ [9] @ lit ''IN'' @ [9] @ lit ''A'' @ [9] @ show_ipv4 ip) ips)"

text \<open>The command \<open>resolve\<close>. Here a receiver socket that cannot be bound is an error.\<close>

definition resolve_command ::
  "('k, 'o) start_env \<Rightarrow> 'conn net \<Rightarrow> u16 \<Rightarrow> bytes \<Rightarrow> ip_addr option \<Rightarrow> error + relay_settings \<Rightarrow>
     rstr \<Rightarrow> rstr option \<Rightarrow> bool \<Rightarrow> (error + rstr list) run" where
  "resolve_command S net txid nonce public_ip loaded domain resolver relay =
     lift_run loaded (\<lambda>c. lift_run (st_http_client S) (\<lambda>_.
       if \<not> st_receiver S then Some (Inl Io)
       else lift_run (checked S (resolvers c)) (\<lambda>healthy.
         if relay then
           (if relay_instances (relays c) = [] then Some (Inl Other)
            else lift_run (relay_picker_new (st_crates S) (host_addresses S healthy)
                (resolve_manual (relays c)) (relay_instances (relays c))) (\<lambda>picker. do {
              (client, _) \<leftarrow> relay_pick picker;
              r \<leftarrow> resolve_domain_via_relay (st_crates S) (relay_client client) (ri_url client) (ri_key client) nonce txid domain;
              lift_run r (\<lambda>ips. Some (Inr (resolved_lines domain ips))) }))
         else do {
           (r, _) \<leftarrow> picker_resolve net healthy txid domain resolver public_ip Map.empty;
           lift_run r (\<lambda>ips. Some (Inr (resolved_lines domain ips))) })))"

section \<open>Dispatch\<close>

record ('k, 'o, 'conn) call_env =
  logging :: log_crates
  starting :: "('k, 'o) start_env"
  network :: "'conn net"
  show_error :: "error \<Rightarrow> rstr"
  tls_provider :: bool \<comment> \<open>\<open>install_default\<close> succeeds\<close>
  base64 :: "bytes \<Rightarrow> rstr"
  fresh_key :: bytes
  fresh_txid :: u16
  fresh_nonce :: bytes
  public_ip :: "ip_addr option"

definition relay_main ::
  "('k, 'o, 'conn) call_env \<Rightarrow> error + relay_settings \<Rightarrow> error + relay_settings \<Rightarrow> relay_command option \<Rightarrow>
     ('k, 'o) started_relay ending run" where
  "relay_main C first second command = do {
     _ \<leftarrow> main_logger (logging C);
     (case first of
        Inl e \<Rightarrow> Some (Ended [] [] (Inl e))
      | Inr conf \<Rightarrow>
          if init_tls conf \<and> \<not> tls_provider C then None
          else (case (case command of None \<Rightarrow> Run | Some c \<Rightarrow> c) of
              Run \<Rightarrow> serve (relay_run_server (starting C) second)
            | CheckConf \<Rightarrow> Some (check_conf (show_error C) second)
            | ListRules \<Rightarrow> Some (relay_list_rules second)
            | Resolvers \<Rightarrow> printing (Some (list_resolvers (starting C) second))
            | GenRelayKey \<Rightarrow> Some (gen_relay_key (base64 C) (fresh_key C))
            | Resolve domain relay resolver \<Rightarrow>
                printing (resolve_command (starting C) (network C) (fresh_txid C) (fresh_nonce C) (public_ip C) second
                  domain resolver relay))) }"

definition proxy_main ::
  "('k, 'o, 'conn) call_env \<Rightarrow> (rstr \<Rightarrow> socket_addr list option) \<Rightarrow> error + proxy_settings \<Rightarrow> proxy_command option \<Rightarrow>
     ('k, 'o) started_proxy ending run" where
  "proxy_main C lookup_addr loaded command = do {
     _ \<leftarrow> main_logger (logging C);
     (case (case command of None \<Rightarrow> ProxyRun | Some c \<Rightarrow> c) of
        ProxyRun \<Rightarrow> serve (proxy_run_server (starting C) lookup_addr loaded)
      | ProxyCheckConf \<Rightarrow> Some (proxy_check_conf (show_error C) loaded)
      | ProxyListRules \<Rightarrow> Some (proxy_list_rules loaded)
      | ProxyGenRelayKey \<Rightarrow> Some (shared_gen_relay_key (base64 C) (fresh_key C))
      | ProxyGenObfsKey \<Rightarrow> Some (gen_obfs_key (base64 C) (fresh_key C))) }"

section \<open>The table\<close>

lemma char_count_simps [simp]:
  "char_count [] = 0" "char_count (s @ t) = char_count s + char_count t" "char_count (replicate n 32) = n"
  by (auto simp: char_count_def is_cont_def)

lemma char_count_fmt [simp]:
  "char_count (fmt_left w s) = max w (char_count s)" "char_count (fmt_right w s) = max w (char_count s)"
  by (simp_all add: fmt_left_def fmt_right_def)

text \<open>The rows of the table are as wide as the rule under its header, unless an entry is too long for its column.\<close>

theorem rows_aligned:
  "char_count (resolver_row i r) =
     max 4 (char_count (show_nat (i + 1))) + max 40 (char_count (fst r)) + max 10 (char_count (show_nat (snd r div 1000000)))"
  by (simp add: resolver_row_def)

section \<open>Properties\<close>

text \<open>C37: A key that either program prints is a key that both accept: whatever 32 bytes the random source
  gives, the printed line is read back to these bytes as the key of a relay instance and as the key of an
  obfuscated listener or target. The relay needs a configuration that loads to print one, the proxy does not.\<close>

theorem generated_keys_load:
  assumes "\<And>bs. b64_decode E (base64 C bs) = Some bs" "length (fresh_key C) = 32"
    and "command \<in> {Some ProxyGenRelayKey, Some ProxyGenObfsKey}" "main_logger (logging C) \<noteq> None"
  shows "\<exists>line. proxy_main C lookup_addr loaded command = Some (Ended [line] [] (Inr ())) \<and>
    relay_main C first second (Some GenRelayKey) =
      (case first of
         Inl e \<Rightarrow> Some (Ended [] [] (Inl e))
       | Inr conf \<Rightarrow> if init_tls conf \<and> \<not> tls_provider C then None else Some (Ended [line] [] (Inr ()))) \<and>
    load_key_from_str E line = Inr (mk_key E (fresh_key C)) \<and>
    obfs_from_base64 (b64_decode E) mk line = Inr (mk (fresh_key C))"
  using assms by (auto simp: proxy_main_def relay_main_def shared_gen_relay_key_def gen_relay_key_def gen_obfs_key_def
    generate_base64_def load_key_from_str_def obfs_from_base64_def obfs_constants split: sum.split)

definition demo_call :: "(u8, u8, nat) call_env" where
  "demo_call = \<lparr>logging = \<lparr>create_dir_all = (\<lambda>_. True), subscriber_init = (\<lambda>_. True)\<rparr>, starting = demo_start, network = silent_net, show_error = (\<lambda>_. []), tls_provider = True, base64 = (\<lambda>b. b),
     fresh_key = replicate 32 5, fresh_txid = 0, fresh_nonce = replicate 12 0, public_ip = None\<rparr>"

lemma demo_log: "main_logger (logging demo_call) = Some ()"
  by (simp add: demo_call_def main_logger_def init_logger_def)

theorem generated_keys_load_witness:
  "load_key_from_str (demo_env\<lparr>b64_decode := Some\<rparr>) (replicate 32 5) = Inr 7"
proof -
  have "\<And>bs. b64_decode (demo_env\<lparr>b64_decode := Some\<rparr>) (base64 demo_call bs) = Some bs" "length (fresh_key demo_call) = 32"
    by (simp_all add: demo_call_def)
  from generated_keys_load [OF this _ , of "Some ProxyGenObfsKey" "\<lambda>_. None" "Inl Config" "Inl Io" "Inl Io" "\<lambda>_. ()"]
  obtain line where line: "proxy_main demo_call (\<lambda>_. None) (Inl Config) (Some ProxyGenObfsKey) = Some (Ended [line] [] (Inr ()))"
    "load_key_from_str (demo_env\<lparr>b64_decode := Some\<rparr>) line = Inr (mk_key (demo_env\<lparr>b64_decode := Some\<rparr>) (fresh_key demo_call))"
    using demo_log by auto
  then have "line = replicate 32 5" using demo_log by (simp add: proxy_main_def gen_obfs_key_def generate_base64_def demo_call_def)
  with line(2) show ?thesis by (simp add: demo_env_def)
qed

text \<open>The command \<open>resolvers\<close> shows the ten fastest of the healthy resolvers, or all when there are fewer,
  in the order of their latencies: no resolver that passed its health check and is left out is faster than
  one that is shown.\<close>

theorem resolvers_shows_fastest:
  assumes "relay_main C (Inr conf) (Inr c) (Some Resolvers) = Some (Ended ls [] (Inr ()))"
    and "test_resolvers probe (resolvers c) (checked (starting C) (resolvers c))"
  shows "\<exists>shown rest. ls = resolver_table shown \<and>
    mset (shown @ rest) = mset (healthy_results probe (resolvers c)) \<and> length shown = min 10 (length (shown @ rest)) \<and>
    sorted (map snd (shown @ rest))"
proof -
  from assms(1) have "list_resolvers (starting C) (Inr c) = Inr ls"
    by (cases "list_resolvers (starting C) (Inr c)") (auto simp: relay_main_def printing_def bind_eq_Some_conv split: if_splits)
  then obtain healthy where h: "checked (starting C) (resolvers c) = Inr healthy" "ls = resolver_table (top_resolvers healthy)"
    by (auto simp: list_resolvers_def try_then_Inr split: if_splits)
  from assms(2) have "mset healthy = mset (healthy_results probe (resolvers c))" "sorted (map snd healthy)"
    unfolding h(1) by (auto elim: test_resolvers_InrE simp: sorted_by_latency_def)
  moreover have "top_resolvers healthy @ drop 10 healthy = healthy" "length (top_resolvers healthy) = min 10 (length healthy)"
    by (auto simp: top_resolvers_def min_def)
  ultimately show ?thesis using h(2) by metis
qed

theorem resolvers_shows_fastest_witness:
  "\<exists>ls. relay_main demo_call (Inr demo_settings) (Inr demo_settings) (Some Resolvers) = Some (Ended ls [] (Inr ())) \<and>
     ls = resolver_table [(lit ''1.1.1.1:53'', 20)]"
proof -
  have run: "relay_main demo_call (Inr demo_settings) (Inr demo_settings) (Some Resolvers) =
      Some (Ended (resolver_table [(lit ''1.1.1.1:53'', 20)]) [] (Inr ()))"
    using demo_log by (simp add: relay_main_def demo_call_def demo_settings_def printing_def list_resolvers_def top_resolvers_def)
  have "lit ''9.9.9.9:53'' \<noteq> lit ''1.1.1.1:53''" by code_simp
  then have healthy: "healthy_results demo_probe (resolvers demo_settings) = [(lit ''1.1.1.1:53'', 20)]"
    by (simp add: healthy_results_def demo_probe_def map_filter_simps)
  then have "test_resolvers demo_probe (resolvers demo_settings) (checked (starting demo_call) (resolvers demo_settings))"
    by (auto simp: demo_call_def healthy sorted_by_latency_def intro!: test_resolvers.some)
  from resolvers_shows_fastest [OF run this] obtain shown rest where
    "resolver_table [(lit ''1.1.1.1:53'', 20)] = resolver_table shown" "mset (shown @ rest) = {#(lit ''1.1.1.1:53'', 20)#}"
    unfolding healthy by auto
  then show ?thesis using run by blast
qed

end
