(* ===== verification/Error_Text.thy ===== *)
theory Error_Text
  imports Relay
begin

text \<open>
  The errors with what they carry, and their texts (\<open>shared/src/errors.rs\<close>): \<open>Display\<close>, \<open>source\<close> and the
  conversions of the question mark operator. The rest of the development needs the kind of an error only,
  the datatype \<open>error\<close> of \<open>Upstream_Error\<close>; \<open>error_kind\<close> forgets the rest.

  \<open>'io\<close> is \<open>std::io::Error\<close>, \<open>'rq\<close> is \<open>reqwest::Error\<close>. How these and a status are shown, and how \<open>Debug\<close>
  shows a character beyond ASCII, is the record \<open>shown\<close>.
\<close>

section \<open>Errors\<close>

datatype 'rq rust_doh_error =
    RTimeout
  | RRequest 'rq
  | RStatus nat
  | RBody 'rq

datatype ('io, 'rq) rust_error =
    RIo 'io
  | RConfig rstr
  | RInvalidResolver rstr
  | RDoh "'rq rust_doh_error"
  | RUdpTimeout
  | RUpstreamUnreachable
  | RNoHealthyResolvers
  | RResolveTimeout
  | ROther rstr
  | RRelayErr rstr

fun doh_kind :: "'rq rust_doh_error \<Rightarrow> doh_error" where
  "doh_kind RTimeout = DohTimeout"
| "doh_kind (RRequest _) = DohRequest"
| "doh_kind (RStatus s) = DohStatus s"
| "doh_kind (RBody _) = DohBody"

fun error_kind :: "('io, 'rq) rust_error \<Rightarrow> error" where
  "error_kind (RIo _) = Io"
| "error_kind (RConfig _) = Config"
| "error_kind (RInvalidResolver r) = InvalidResolver r"
| "error_kind (RDoh d) = Doh (doh_kind d)"
| "error_kind RUdpTimeout = UdpTimeout"
| "error_kind RUpstreamUnreachable = UpstreamUnreachable"
| "error_kind RNoHealthyResolvers = NoHealthyResolvers"
| "error_kind RResolveTimeout = ResolveTimeout"
| "error_kind (ROther _) = Other"
| "error_kind (RRelayErr _) = RelayErr"

text \<open>\<open>From<io::Error>\<close> and \<open>From<DohError>\<close>.\<close>

definition from_io_error :: "'io \<Rightarrow> ('io, 'rq) rust_error" where "from_io_error e = RIo e"
definition from_doh_error :: "'rq rust_doh_error \<Rightarrow> ('io, 'rq) rust_error" where "from_doh_error e = RDoh e"

datatype ('io, 'rq) cause = IoCause 'io | DohCause "'rq rust_doh_error" | RequestCause 'rq

fun doh_source :: "'rq rust_doh_error \<Rightarrow> ('io, 'rq) cause option" where
  "doh_source (RRequest e) = Some (RequestCause e)"
| "doh_source (RBody e) = Some (RequestCause e)"
| "doh_source RTimeout = None"
| "doh_source (RStatus _) = None"

fun error_source :: "('io, 'rq) rust_error \<Rightarrow> ('io, 'rq) cause option" where
  "error_source (RIo e) = Some (IoCause e)"
| "error_source (RDoh d) = Some (DohCause d)"
| "error_source _ = None"

section \<open>Texts\<close>

record ('io, 'rq) shown =
  show_io :: "'io \<Rightarrow> rstr"
  show_request :: "'rq \<Rightarrow> rstr"
  show_status :: "nat \<Rightarrow> rstr"
  debug_char :: "rstr \<Rightarrow> rstr" \<comment> \<open>one character beyond ASCII, itself or an escape\<close>

text \<open>\<open>Debug\<close> of a \<open>str\<close>: in quotes, with the escapes of \<open>char::escape_debug\<close>; single quotes stay.\<close>

definition debug_ascii :: "u8 \<Rightarrow> rstr" where
  "debug_ascii b =
     (if b = 0 then [92, 48]
      else if b = 9 then [92, 116]
      else if b = 10 then [92, 110]
      else if b = 13 then [92, 114]
      else if b = 34 \<or> b = 92 then [92, b]
      else if 32 \<le> b \<and> b < 127 then [b]
      else [92] @ lit ''u{'' @ (if b < 16 then [hex_digit (unat b)] else hex_encode [b]) @ lit ''}'')"

definition char_len :: "u8 \<Rightarrow> nat" where
  "char_len b = (if b < 0x80 then 1 else if b < 0xE0 then 2 else if b < 0xF0 then 3 else 4)"

function debug_chars :: "(rstr \<Rightarrow> rstr) \<Rightarrow> rstr \<Rightarrow> rstr" where
  "debug_chars dbg [] = []"
| "debug_chars dbg (b # s) =
     (if b < 0x80 then debug_ascii b @ debug_chars dbg s
      else dbg (take (char_len b) (b # s)) @ debug_chars dbg (drop (char_len b - 1) s))"
  by pat_completeness auto
termination by (relation "measure (\<lambda>(_, s). length s)") auto

definition debug_str :: "(rstr \<Rightarrow> rstr) \<Rightarrow> rstr \<Rightarrow> rstr" where
  "debug_str dbg s = 34 # debug_chars dbg s @ [34]"

fun doh_text :: "('io, 'rq) shown \<Rightarrow> 'rq rust_doh_error \<Rightarrow> rstr" where
  "doh_text X RTimeout = lit ''DoH request timed out''"
| "doh_text X (RRequest e) = lit ''DoH request failed: '' @ show_request X e"
| "doh_text X (RStatus s) = lit ''DoH upstream returned status '' @ show_status X s"
| "doh_text X (RBody e) = lit ''failed to read DoH response body: '' @ show_request X e"

text \<open>\<open>RESOLVE_TIMEOUT\<close> is two seconds, whose \<open>Debug\<close> is \<open>2s\<close>.\<close>

fun error_text :: "('io, 'rq) shown \<Rightarrow> ('io, 'rq) rust_error \<Rightarrow> rstr" where
  "error_text X (RIo e) = show_io X e"
| "error_text X (RConfig msg) = lit ''config error: '' @ msg"
| "error_text X (RInvalidResolver r) = lit ''invalid resolver address: '' @ r"
| "error_text X (RDoh d) = doh_text X d"
| "error_text X RUdpTimeout = lit ''UDP request timed out''"
| "error_text X RUpstreamUnreachable = lit ''could not resolve domain upstream''"
| "error_text X RNoHealthyResolvers = lit ''all provided DNS upstream resolvers are unhealthy or unreachable''"
| "error_text X RResolveTimeout = lit ''resolve timed out after '' @ lit ''2s''"
| "error_text X (ROther e) = lit ''Error: '' @ debug_str (debug_char X) e"
| "error_text X (RRelayErr e) = lit ''Relay error: '' @ debug_str (debug_char X) e"

section \<open>Control characters in texts\<close>

definition printable :: "rstr \<Rightarrow> bool" where
  "printable s \<longleftrightarrow> list_all (\<lambda>b. 32 \<le> b \<and> b \<noteq> 127) s"

lemma printable_simps [simp]:
  "printable []" "printable (b # s) \<longleftrightarrow> 32 \<le> b \<and> b \<noteq> 127 \<and> printable s" "printable (s @ t) \<longleftrightarrow> printable s \<and> printable t"
  by (simp_all add: printable_def)

lemma hex_digit_printable: "n < 16 \<Longrightarrow> 32 \<le> hex_digit n \<and> hex_digit n \<noteq> 127"
proof -
  assume "n < 16"
  then have "n \<in> set [0..<16]" by simp
  moreover have "list_all (\<lambda>n. 32 \<le> hex_digit n \<and> hex_digit n \<noteq> 127) [0..<16]" by code_simp
  ultimately show ?thesis by (simp add: list_all_iff)
qed

lemma debug_ascii_printable: "printable (debug_ascii b)"
proof -
  have "unat b div 16 < 16" using unat_u8_less [of b] by linarith
  moreover have "unat b < 16" if "b < 16" using that by (simp add: word_less_nat_alt)
  moreover have "printable (lit ''u{'')" "printable (lit ''}'')" by code_simp+
  ultimately show ?thesis
    by (auto simp: debug_ascii_def hex_encode_def hex_digit_printable)
qed

lemma debug_chars_printable: "(\<And>c. printable (dbg c)) \<Longrightarrow> printable (debug_chars dbg s)"
  by (induction dbg s rule: debug_chars.induct) (simp_all add: debug_ascii_printable)

text \<open>Messages that come from outside are quoted: the text of \<open>Other\<close> and \<open>RelayErr\<close> has no line feed or
  other control character, whatever message they carry. The texts of \<open>Config\<close> and \<open>InvalidResolver\<close> have
  the message as it is.\<close>

theorem quoted_texts_printable:
  assumes "\<And>c. printable (debug_char X c)"
  shows "printable (error_text X (ROther m)) \<and> printable (error_text X (RRelayErr m)) \<and>
    (printable (error_text X (RConfig m)) \<longleftrightarrow> printable m) \<and> (printable (error_text X (RInvalidResolver m)) \<longleftrightarrow> printable m)"
proof -
  have "printable (lit ''Error: '')" "printable (lit ''Relay error: '')" "printable (lit ''config error: '')"
    "printable (lit ''invalid resolver address: '')" by code_simp+
  then show ?thesis using assms by (simp add: debug_str_def debug_chars_printable)
qed

text \<open>The conversions of the question mark operator keep the kind of an error, and what they wrap is its source.\<close>

theorem conversions_keep_source:
  "error_kind (from_io_error e) = Io \<and> error_source (from_io_error e) = Some (IoCause e) \<and>
   error_kind (from_doh_error d) = Doh (doh_kind d) \<and> error_source (from_doh_error d) = Some (DohCause d) \<and>
   error_text X (from_doh_error d) = doh_text X d"
  by (simp add: from_io_error_def from_doh_error_def)

end
