(* ===== verification/Conf_Watch.thy ===== *)
theory Conf_Watch
  imports Conf_File
begin

text \<open>
  The watch task of both programs against a file that changes (\<open>watch_conf_and_reload\<close> of
  \<open>dns_relay/src/conf.rs\<close> and of \<open>resolver_proxy/src/conf.rs\<close>). A turn of its loop is cut where the file can
  change under it: \<open>stat\<close> reads the modification time, \<open>load\<close> reads the content and does what the tick of
  \<open>Config_Reload\<close> says. Before its first turn the task takes the modification time as it finds it, which
  may be later than the content that \<open>run_server\<close> has loaded.

  A change gives the file any content and any modification time: a later one, as a rule, but also an
  earlier one or the same (\<open>cp -p\<close>, a coarse clock). \<open>written\<close>, \<open>read_at\<close> and \<open>baseline\<close> are ghosts: every time and content the
  file has had, the time of the content that was last read, and the time that the task found at first. What both
  programs share of their ticks is the locale \<open>reloading\<close>.
\<close>

section \<open>The task and the file\<close>

datatype watch_phase = Unstarted | Waiting | Stated "nat option"

record 'c watch_system =
  mtime :: nat
  content :: "rstr option"
  watch_phase :: watch_phase
  watched :: "'c watched"
  written :: "(nat \<times> rstr option) list"
  read_at :: nat
  baseline :: "nat option"

text \<open>\<open>std::fs::metadata(&path).and_then(|m| m.modified()).ok()\<close>, before the loop.\<close>

definition watch_begin :: "nat option \<Rightarrow> 'c watched \<Rightarrow> 'c watched" where
  "watch_begin metadata w = w\<lparr>last_mtime := metadata\<rparr>"

definition new_conf :: "toml_crate \<Rightarrow> rstr option \<Rightarrow> conf option" where
  "new_conf T cnt = (case load_conf T cnt of Inl _ \<Rightarrow> None | Inr c \<Rightarrow> Some (conf.truncate c))"

definition proxy_new_conf :: "toml_crate \<Rightarrow> rstr option \<Rightarrow> conf option" where
  "proxy_new_conf T cnt = (case proxy_load_conf T cnt of Inl _ \<Rightarrow> None | Inr c \<Rightarrow> Some (conf.truncate c))"

text \<open>\<open>tick\<close> is the tick of the program, \<open>ld\<close> its \<open>load_conf\<close>.\<close>

inductive watch_step ::
  "(nat option \<Rightarrow> conf option \<Rightarrow> 'c watched \<Rightarrow> 'c watched) \<Rightarrow> (rstr option \<Rightarrow> conf option) \<Rightarrow>
     'c watch_system \<Rightarrow> 'c watch_system \<Rightarrow> bool"
  for tick ld where
  change: "watch_step tick ld s (s\<lparr>mtime := m, content := cnt, written := written s @ [(m, cnt)]\<rparr>)"
| start: "watch_phase s = Unstarted \<Longrightarrow> metadata \<in> {None, Some (mtime s)} \<Longrightarrow>
    watch_step tick ld s (s\<lparr>watch_phase := Waiting, watched := watch_begin metadata (watched s), baseline := metadata\<rparr>)"
| stat: "watch_phase s = Waiting \<Longrightarrow> metadata \<in> {None, Some (mtime s)} \<Longrightarrow>
    watch_step tick ld s (s\<lparr>watch_phase := Stated metadata\<rparr>)"
| load: "watch_phase s = Stated metadata \<Longrightarrow>
    watch_step tick ld s (s\<lparr>watch_phase := Waiting,
      watched := tick metadata (ld (content s)) (watched s),
      read_at := (if metadata = None \<or> metadata = last_mtime (watched s) then read_at s else mtime s)\<rparr>)"

abbreviation watch_steps where "watch_steps tick ld \<equiv> (watch_step tick ld)\<^sup>*\<^sup>*"

inductive_cases watch_stepE: "watch_step tick ld s s'"

text \<open>After \<open>run_server\<close> has loaded the content of time \<open>m\<close> and has spawned the task.\<close>

definition watch_system_start ::
  "(rstr \<Rightarrow> rstr) \<Rightarrow> (rstr \<Rightarrow> rstr option) \<Rightarrow> nat \<Rightarrow> rstr option \<Rightarrow> conf \<Rightarrow> 'c \<Rightarrow> 'c watch_system" where
  "watch_system_start uni fs m cnt c k =
     \<lparr>mtime = m, content = cnt, watch_phase = Unstarted,
      watched = \<lparr>last_mtime = None, current_conf = c, rule_trie = conf_rules uni fs c, rule_cache = k\<rparr>,
      written = [(m, cnt)], read_at = m, baseline = None\<rparr>"

text \<open>No change has given the file a modification time that it has had before.\<close>

abbreviation times_fresh :: "'c watch_system \<Rightarrow> bool" where
  "times_fresh s \<equiv> distinct (map fst (written s))"

lemma step_written: "watch_step tick ld s s' \<Longrightarrow> times_fresh s' \<Longrightarrow> times_fresh s"
  by (erule watch_stepE) auto

section \<open>What holds at every moment\<close>

text \<open>As long as all times are fresh, the configuration in force is what the content of time \<open>read_at\<close> says, if
  it can be loaded.\<close>

definition watch_ok :: "(rstr option \<Rightarrow> conf option) \<Rightarrow> 'c watch_system \<Rightarrow> bool" where
  "watch_ok ld s \<longleftrightarrow>
     {read_at s, mtime s} \<subseteq> fst ` set (written s) \<and>
     (read_at s = mtime s \<longrightarrow> (\<forall>c. ld (content s) = Some c \<longrightarrow> current_conf (watched s) = c)) \<and>
     (\<forall>m. last_mtime (watched s) = Some m \<longrightarrow> m \<in> fst ` set (written s)) \<and>
     (last_mtime (watched s) = Some (mtime s) \<longrightarrow> read_at s = mtime s \<or> baseline s = Some (mtime s)) \<and>
     (\<forall>m. watch_phase s = Stated (Some m) \<longrightarrow> m \<in> fst ` set (written s))"

lemma watch_start_ok:
  "ld cnt = Some c \<Longrightarrow> watch_ok ld (watch_system_start uni fs m cnt c k)"
  by (simp add: watch_ok_def watch_system_start_def)

text \<open>While the file is as the task found it at first, nothing has been loaded by the task.\<close>

definition unread :: "conf \<Rightarrow> 'c watch_system \<Rightarrow> bool" where
  "unread c s \<longleftrightarrow>
     (watch_phase s = Unstarted \<or> baseline s = Some (mtime s) \<longrightarrow> current_conf (watched s) = c) \<and>
     (watch_phase s = Unstarted \<longrightarrow> baseline s = None) \<and>
     (watch_phase s \<noteq> Unstarted \<and> baseline s = Some (mtime s) \<longrightarrow>
        last_mtime (watched s) = baseline s \<and> watch_phase s \<in> {Waiting, Stated None, Stated (baseline s)}) \<and>
     mtime s \<in> fst ` set (written s) \<and> (\<forall>m. baseline s = Some m \<longrightarrow> m \<in> fst ` set (written s))"

lemma unread_start: "unread c (watch_system_start uni fs m cnt c k)"
  by (simp add: unread_def watch_system_start_def)

text \<open>One undisturbed turn, from the moment between two turns.\<close>

definition turn_converges ::
  "(nat option \<Rightarrow> conf option \<Rightarrow> 'c watched \<Rightarrow> 'c watched) \<Rightarrow> (rstr option \<Rightarrow> conf option) \<Rightarrow> (rstr \<Rightarrow> rstr) \<Rightarrow>
     (rstr \<Rightarrow> rstr option) \<Rightarrow> conf \<Rightarrow> 'c watch_system \<Rightarrow> bool" where
  "turn_converges tick ld uni fs c s \<longleftrightarrow>
     (let w = tick (Some (mtime s)) (ld (content s)) (watched s);
          says = (case ld (content s) of Some c' \<Rightarrow> current_conf w = c' | None \<Rightarrow> current_conf w = current_conf (watched s)) in
      in_force uni fs w \<and>
      (if last_mtime (watched s) = Some (mtime s) then w = watched s else says) \<and>
      (times_fresh s \<longrightarrow> (if baseline s = Some (mtime s) then current_conf w = c else says)))"

section \<open>The task over a tick\<close>

text \<open>What both programs do in a tick: nothing when the file cannot be asked or has not changed; otherwise its
  time is kept, and so is its configuration with its rules, if it can be loaded.\<close>

locale reloading =
  fixes tick :: "nat option \<Rightarrow> conf option \<Rightarrow> 'c watched \<Rightarrow> 'c watched"
    and uni :: "rstr \<Rightarrow> rstr" and fs :: "rstr \<Rightarrow> rstr option"
  assumes tick_idle: "metadata = None \<or> metadata = last_mtime w \<Longrightarrow> tick metadata loaded w = w"
    and tick_seen: "metadata \<noteq> None \<Longrightarrow> last_mtime (tick metadata loaded w) = metadata"
    and tick_failed: "current_conf (tick metadata None w) = current_conf w" "rule_trie (tick metadata None w) = rule_trie w"
    and tick_loaded: "metadata \<noteq> None \<Longrightarrow> metadata \<noteq> last_mtime w \<Longrightarrow>
      current_conf (tick metadata (Some c) w) = c \<and> rule_trie (tick metadata (Some c) w) = conf_rules uni fs c"
begin

lemma step_in_force: "watch_step tick ld s s' \<Longrightarrow> in_force uni fs (watched s) \<Longrightarrow> in_force uni fs (watched s')"
proof (erule watch_stepE)
  fix metadata
  assume f: "in_force uni fs (watched s)"
    and s': "s' = s\<lparr>watch_phase := Waiting, watched := tick metadata (ld (content s)) (watched s),
      read_at := (if metadata = None \<or> metadata = last_mtime (watched s) then read_at s else mtime s)\<rparr>"
  show "in_force uni fs (watched s')"
  proof (cases "metadata = None \<or> metadata = last_mtime (watched s)")
    case True
    with f s' tick_idle [OF True] show ?thesis by simp
  next
    case False
    with f s' show ?thesis by (cases "ld (content s)") (auto simp: in_force_def tick_failed tick_loaded)
  qed
qed (auto simp: in_force_def watch_begin_def)

lemma steps_in_force: "watch_steps tick ld s s' \<Longrightarrow> in_force uni fs (watched s) \<Longrightarrow> in_force uni fs (watched s')"
  by (induction rule: rtranclp_induct) (auto dest: step_in_force)

lemma step_ok: "watch_step tick ld s s' \<Longrightarrow> times_fresh s' \<Longrightarrow> watch_ok ld s \<Longrightarrow> watch_ok ld s'"
proof (erule watch_stepE)
  fix metadata
  assume ok: "watch_ok ld s" "watch_phase s = Stated metadata"
    and s': "s' = s\<lparr>watch_phase := Waiting, watched := tick metadata (ld (content s)) (watched s),
      read_at := (if metadata = None \<or> metadata = last_mtime (watched s) then read_at s else mtime s)\<rparr>"
  show "watch_ok ld s'"
  proof (cases "metadata = None \<or> metadata = last_mtime (watched s)")
    case True
    with ok s' tick_idle [OF True] show ?thesis by (simp add: watch_ok_def)
  next
    case False
    with ok s' show ?thesis
      by (cases "ld (content s)") (auto simp: watch_ok_def tick_seen tick_failed tick_loaded)
  qed
qed (auto simp: watch_ok_def watch_begin_def)

lemma step_unread: "watch_step tick ld s s' \<Longrightarrow> times_fresh s' \<Longrightarrow> unread c s \<Longrightarrow> unread c s'"
proof (erule watch_stepE)
  fix metadata
  assume u: "unread c s" "watch_phase s = Stated metadata"
    and s': "s' = s\<lparr>watch_phase := Waiting, watched := tick metadata (ld (content s)) (watched s),
      read_at := (if metadata = None \<or> metadata = last_mtime (watched s) then read_at s else mtime s)\<rparr>"
  show "unread c s'"
  proof (cases "metadata = None \<or> metadata = last_mtime (watched s)")
    case True
    with u s' tick_idle [OF True] show ?thesis by (auto simp: unread_def)
  next
    case False
    with u s' show ?thesis by (auto simp: unread_def)
  qed
qed (auto simp: unread_def watch_begin_def)

lemma steps_ok:
  "watch_steps tick ld s s' \<Longrightarrow> times_fresh s' \<Longrightarrow> watch_ok ld s \<Longrightarrow> unread c s \<Longrightarrow> watch_ok ld s' \<and> unread c s'"
proof (induction rule: rtranclp_induct)
  case (step u v)
  with step_written [OF step.hyps(2)] step_ok [OF step.hyps(2)] step_unread [OF step.hyps(2)] show ?case by blast
qed simp

lemma converges:
  assumes "watch_steps tick ld (watch_system_start uni fs m cnt c k) s" "ld cnt = Some c" "watch_phase s = Waiting"
  shows "turn_converges tick ld uni fs c s"
proof -
  let ?w = "tick (Some (mtime s)) (ld (content s)) (watched s)"
  have f: "in_force uni fs (watched s)"
    using steps_in_force [OF assms(1)] by (simp add: watch_system_start_def in_force_def)
  have ok: "times_fresh s \<Longrightarrow> watch_ok ld s \<and> unread c s"
    by (rule steps_ok [OF assms(1) _ watch_start_ok [of ld, OF assms(2)] unread_start])
  then have u: "times_fresh s \<Longrightarrow> baseline s = Some (mtime s) \<Longrightarrow> current_conf (watched s) = c \<and> last_mtime (watched s) = Some (mtime s)"
    using assms(3) by (simp add: unread_def)
  show ?thesis
  proof (cases "last_mtime (watched s) = Some (mtime s)")
    case True
    then have w: "?w = watched s" by (simp add: tick_idle)
    have "times_fresh s \<Longrightarrow> baseline s \<noteq> Some (mtime s) \<Longrightarrow> read_at s = mtime s" using ok True by (auto simp: watch_ok_def)
    then have "times_fresh s \<Longrightarrow> baseline s \<noteq> Some (mtime s) \<Longrightarrow> ld (content s) = Some c' \<Longrightarrow> current_conf (watched s) = c'" for c'
      using ok by (simp add: watch_ok_def)
    then show ?thesis using u f True unfolding turn_converges_def Let_def w by (simp split: option.split)
  next
    case False
    with u f show ?thesis
      by (cases "ld (content s)") (auto simp: turn_converges_def Let_def in_force_def tick_failed tick_loaded)
  qed
qed

end

interpretation relay_watch: reloading "watch_tick L uni fs" uni fs
  by unfold_locales (auto simp: watch_tick_def Let_def split: option.split)

interpretation proxy_watch: reloading "proxy_watch_tick uni fs" uni fs
  by unfold_locales (auto simp: proxy_watch_tick_def Let_def split: option.split)

section \<open>Properties\<close>

text \<open>C11: What a turn of the loop does that no change interrupts, however the file was changed before. If the file
  has the modification time that was seen last, nothing happens, whatever it says; otherwise its content is put in
  force, if it can be loaded. So as long as no change gives the file a time that it has had before, the turn puts the
  content in force, with one exception: a change between \<open>load_conf\<close> of \<open>run_server\<close> and the
  first \<open>stat\<close> of the task is not taken up while the file stays so. A change that keeps the modification time is missed.\<close>

theorem reload_converges:
  assumes "watch_steps (watch_tick L uni fs) (new_conf T) (watch_system_start uni fs m cnt c k) s" "new_conf T cnt = Some c"
    and "watch_phase s = Waiting"
  shows "let w = watch_tick L uni fs (Some (mtime s)) (new_conf T (content s)) (watched s);
      says = (case new_conf T (content s) of Some c' \<Rightarrow> current_conf w = c' | None \<Rightarrow> current_conf w = current_conf (watched s)) in
    in_force uni fs w \<and>
    (if last_mtime (watched s) = Some (mtime s) then w = watched s else says) \<and>
    (distinct (map fst (written s)) \<longrightarrow> (if baseline s = Some (mtime s) then current_conf w = c else says))"
  using relay_watch.converges [OF assms] by (simp add: turn_converges_def)

text \<open>The file is changed after the task has looked at it, once with a new time and once with the same.\<close>

theorem reload_converges_witness:
  "\<exists>(s :: (cache_key, cache_entry) recency watch_system) (s' :: (cache_key, cache_entry) recency watch_system). content s = Some (lit ''c.d'') \<and> content s' = Some (lit ''c.d'') \<and>
     drop_list (current_conf (watch_tick list_lru (\<lambda>s. s) (\<lambda>_. None) (Some (mtime s)) (new_conf demo_toml (content s)) (watched s))) = [lit ''c.d''] \<and>
     drop_list (current_conf (watch_tick list_lru (\<lambda>s. s) (\<lambda>_. None) (Some (mtime s')) (new_conf demo_toml (content s')) (watched s'))) = [lit ''a.b'']"
proof -
  let ?tick = "watch_tick list_lru (\<lambda>s. s) (\<lambda>_. None)"
  let ?c = "conf.truncate demo_bare"
  let ?s = "watch_system_start (\<lambda>s. s) (\<lambda>_. None) 5 (Some (lit ''a.b'')) ?c (3, []) :: (cache_key, cache_entry) recency watch_system"
  let ?t = "?s\<lparr>watch_phase := Waiting, watched := watch_begin (Some 5) (watched ?s), baseline := Some 5\<rparr>"
  let ?u = "\<lambda>m. ?t\<lparr>mtime := m, content := Some (lit ''c.d''), written := written ?t @ [(m, Some (lit ''c.d''))]\<rparr>"
  have "watch_step ?tick (new_conf demo_toml) ?s ?t"
    by (rule watch_step.start) (simp_all add: watch_system_start_def)
  moreover have "watch_step ?tick (new_conf demo_toml) ?t (?u m)" for m by (rule watch_step.change)
  ultimately have steps: "watch_steps ?tick (new_conf demo_toml) ?s (?u m)" for m
    by (rule converse_rtranclp_into_rtranclp [OF _ r_into_rtranclp])
  have c: "new_conf demo_toml (Some (lit ''a.b'')) = Some ?c" by (simp add: new_conf_def demo_loads)
  have "map_option drop_list (new_conf demo_toml (Some (lit ''c.d''))) = Some [lit ''c.d'']" by code_simp
  then obtain c' where "new_conf demo_toml (Some (lit ''c.d'')) = Some c'" "drop_list c' = [lit ''c.d'']" by blast
  note load = this
  note start = watch_system_start_def watch_begin_def conf.truncate_def demo_bare_def
  from reload_converges [OF steps c, of 6] load
  have new: "current_conf (?tick (Some (mtime (?u 6))) (new_conf demo_toml (content (?u 6))) (watched (?u 6))) = c'"
    by (simp add: Let_def start)
  from reload_converges [OF steps c, of 5]
  have old: "?tick (Some (mtime (?u 5))) (new_conf demo_toml (content (?u 5))) (watched (?u 5)) = watched (?u 5)"
    by (simp add: Let_def start)
  have "drop_list (current_conf (watched (?u 5))) = [lit ''a.b'']" by (simp add: start)
  with new old load(2) show ?thesis by - (rule exI [of _ "?u 6"], rule exI [of _ "?u 5"], simp)
qed

text \<open>The same holds for the proxy, where the task runs if the configuration enables it.\<close>

theorem proxy_reload_converges:
  assumes "watch_steps (proxy_watch_tick uni fs) (proxy_new_conf T) (watch_system_start uni fs m cnt c k) s"
    and "proxy_new_conf T cnt = Some c" "watch_phase s = Waiting"
  shows "turn_converges (proxy_watch_tick uni fs) (proxy_new_conf T) uni fs c s"
  by (rule proxy_watch.converges [OF assms])

end
