(* ===== verification/Doq_Endpoint.thy ===== *)
theory Doq_Endpoint
  imports Upstream
begin

text \<open>
  The QUIC endpoint of the process (\<open>QUIC_ENDPOINT\<close>, \<open>quic_endpoint\<close> and \<open>build_quic_endpoint\<close> of
  \<open>dns_relay/src/resolver.rs\<close>) and how a connection is made with it (\<open>DoqPool::connection_for\<close>). The
  crates \<open>rustls\<close> and \<open>quinn\<close> are the record \<open>quic_crate\<close>; \<open>'e\<close> is an endpoint, \<open>'g\<close> a connection that is
  being set up. Calls of \<open>quic_endpoint\<close> by many tasks are a step relation over the \<open>OnceLock\<close>.
\<close>

section \<open>Building the endpoint\<close>

record tls_config =
  alpn_protocols :: "bytes list"
  enable_early_data :: bool

record quic_config =
  crypto :: tls_config
  max_idle_timeout :: nat \<comment> \<open>milliseconds\<close>
  keep_alive_interval :: nat

record ('e, 'g, 'conn) quic_crate =
  tls_ok :: "tls_config \<Rightarrow> bool" \<comment> \<open>\<open>QuicClientConfig::try_from\<close>\<close>
  endpoint_client :: "socket_addr \<Rightarrow> 'e option"
  with_default_config :: "quic_config \<Rightarrow> 'e \<Rightarrow> 'e"
  endpoint_connect :: "'e \<Rightarrow> socket_addr \<Rightarrow> rstr \<Rightarrow> 'g option"
  into_0rtt :: "'g \<Rightarrow> 'conn option"
  handshake :: "'g \<Rightarrow> 'conn option"

definition DOQ_ALPN :: bytes where "DOQ_ALPN = lit ''doq''"
definition DOQ_IDLE_TIMEOUT :: nat where "DOQ_IDLE_TIMEOUT = 30 * 1000"

definition doq_tls :: tls_config where
  "doq_tls = \<lparr>alpn_protocols = [DOQ_ALPN], enable_early_data = True\<rparr>"

definition doq_config :: quic_config where
  "doq_config = \<lparr>crypto = doq_tls, max_idle_timeout = DOQ_IDLE_TIMEOUT, keep_alive_interval = 10 * 1000\<rparr>"

text \<open>An idle timeout is a QUIC integer of 62 bits, in milliseconds.\<close>

definition build_quic_endpoint :: "('e, 'g, 'conn) quic_crate \<Rightarrow> error + 'e" where
  "build_quic_endpoint Q =
     (if \<not> tls_ok Q doq_tls then Inl Config
      else if \<not> DOQ_IDLE_TIMEOUT < 2 ^ 62 then Inl Config
      else case parse_socket_addr (\<lambda>_. None) (lit ''0.0.0.0:0'') of
          None \<Rightarrow> Inl Config
        | Some bind_addr \<Rightarrow>
            (case endpoint_client Q bind_addr of
               None \<Rightarrow> Inl Config
             | Some endpoint \<Rightarrow> Inr (with_default_config Q doq_config endpoint)))"

section \<open>One call\<close>

text \<open>The \<open>OnceLock\<close> before and after. Nothing comes between the calls of \<open>set\<close> and \<open>get\<close> here.\<close>

definition quic_endpoint :: "('e, 'g, 'conn) quic_crate \<Rightarrow> 'e option \<Rightarrow> (error + 'e) \<times> 'e option" where
  "quic_endpoint Q cell =
     (case cell of
        Some ep \<Rightarrow> (Inr ep, cell)
      | None \<Rightarrow>
          (case build_quic_endpoint Q of
             Inl e \<Rightarrow> (Inl e, cell)
           | Inr endpoint \<Rightarrow> (Inr endpoint, Some endpoint)))"

text \<open>With a valid session ticket the connection is used at once, otherwise after its handshake.\<close>

definition doq_connect :: "('e, 'g, 'conn) quic_crate \<Rightarrow> 'e \<Rightarrow> rstr \<times> socket_addr \<Rightarrow> 'conn option" where
  "doq_connect Q endpoint target =
     (case target of (host, addr) \<Rightarrow>
       (case endpoint_connect Q endpoint addr host of
          None \<Rightarrow> None
        | Some connecting \<Rightarrow>
            (case into_0rtt Q connecting of
               Some connection \<Rightarrow> Some connection
             | None \<Rightarrow> handshake Q connecting)))"

definition doq_connection_for ::
  "('e, 'g, 'conn) quic_crate \<Rightarrow> 'conn net \<Rightarrow> 'e option \<Rightarrow> 'conn doq_pool \<Rightarrow> rstr \<Rightarrow>
     (error + 'conn) \<times> 'e option \<times> 'conn doq_pool" where
  "doq_connection_for Q net cell connections resolver =
     (case doq_cached net connections resolver of
        Some conn \<Rightarrow> (Inr conn, cell, connections)
      | None \<Rightarrow>
          (case parse_doq_target (parse_ip net) (host_lookup net) resolver of
             Inl e \<Rightarrow> (Inl e, cell, connections)
           | Inr target \<Rightarrow>
               (case quic_endpoint Q cell of
                  (Inl e, cell) \<Rightarrow> (Inl e, cell, connections)
                | (Inr endpoint, cell) \<Rightarrow>
                    (case doq_connect Q endpoint target of
                       None \<Rightarrow> (Inl Config, cell, connections)
                     | Some conn \<Rightarrow> (Inr conn, cell, doq_store connections resolver conn)))))"

section \<open>Calls that race\<close>

datatype 'e endpoint_call =
    Called
  | Building
  | Built 'e
  | WasSet
  | Returned "error + 'e"
  | Panicked

record 'e endpoints =
  cell :: "'e option"
  calls :: "'e endpoint_call list"

text \<open>\<open>OnceLock::set\<close> keeps the first value.\<close>

definition once_set :: "'e \<Rightarrow> 'e option \<Rightarrow> 'e option" where
  "once_set e c = (case c of None \<Rightarrow> Some e | Some x \<Rightarrow> Some x)"

text \<open>One call makes its next step; \<open>Q\<close> is what the system answers at that moment.\<close>

inductive call_step :: "'e option \<times> 'e endpoint_call \<Rightarrow> 'e option \<times> 'e endpoint_call \<Rightarrow> bool" where
  found: "call_step (Some e, Called) (Some e, Returned (Inr e))"
| missing: "call_step (None, Called) (None, Building)"
| failed: "build_quic_endpoint (Q :: ('e, unit, unit) quic_crate) = Inl err \<Longrightarrow> call_step (c, Building) (c, Returned (Inl err))"
| built: "build_quic_endpoint (Q :: ('e, unit, unit) quic_crate) = Inr e \<Longrightarrow> call_step (c, Building) (c, Built e)"
| set_once: "call_step (c, Built e) (once_set e c, WasSet)"
| got: "call_step (Some e, WasSet) (Some e, Returned (Inr e))"
| lost: "call_step (None, WasSet) (None, Panicked)"

inductive endpoint_step :: "'e endpoints \<Rightarrow> 'e endpoints \<Rightarrow> bool" where
  call: "endpoint_step s (s\<lparr>calls := calls s @ [Called]\<rparr>)"
| step: "calls s = xs @ x # ys \<Longrightarrow> call_step (cell s, x) (c, y) \<Longrightarrow>
    endpoint_step s (s\<lparr>cell := c, calls := xs @ y # ys\<rparr>)"

abbreviation endpoint_steps where "endpoint_steps \<equiv> endpoint_step\<^sup>*\<^sup>*"

inductive_cases call_stepE: "call_step (c, x) (c', y)"
inductive_cases endpoint_stepE: "endpoint_step s s'"

definition call_ok :: "'e option \<Rightarrow> 'e endpoint_call \<Rightarrow> bool" where
  "call_ok c x \<longleftrightarrow>
     (case x of
        WasSet \<Rightarrow> c \<noteq> None
      | Returned (Inr e) \<Rightarrow> c = Some e
      | Panicked \<Rightarrow> False
      | _ \<Rightarrow> True)"

lemma call_step_ok:
  assumes "call_step (c, x) (c', y)" "call_ok c x"
  shows "call_ok c' y \<and> (c \<noteq> None \<longrightarrow> c' = c)"
  using assms by cases (auto simp: call_ok_def once_set_def split: option.splits)

lemma call_ok_keep: "call_ok c x \<Longrightarrow> c \<noteq> None \<longrightarrow> c' = c \<Longrightarrow> call_ok c' x"
  by (auto simp: call_ok_def split: endpoint_call.splits sum.splits)

lemma endpoint_step_ok:
  assumes "endpoint_step s s'" "list_all (call_ok (cell s)) (calls s)"
  shows "list_all (call_ok (cell s')) (calls s') \<and> (cell s \<noteq> None \<longrightarrow> cell s' = cell s)"
  using assms(1)
proof cases
  case call
  then show ?thesis using assms(2) by (simp add: call_ok_def)
next
  case (step xs x ys c y)
  with assms(2) have "call_ok c y" "cell s \<noteq> None \<longrightarrow> c = cell s" using call_step_ok [of "cell s" x c y] by auto
  with step assms(2) show ?thesis by (auto simp: list_all_iff intro: call_ok_keep)
qed

lemma endpoint_steps_ok:
  assumes "endpoint_steps s s'" "list_all (call_ok (cell s)) (calls s)"
  shows "list_all (call_ok (cell s')) (calls s') \<and> (cell s \<noteq> None \<longrightarrow> cell s' = cell s)"
  using assms by (induction rule: rtranclp_induct) (auto dest: endpoint_step_ok)

section \<open>Properties\<close>

text \<open>C24: The process has one QUIC endpoint: however the calls of \<open>quic_endpoint\<close> race, from the start of the
  process on, none panics (the \<open>expect\<close> after \<open>set\<close> always finds an endpoint), and every call that succeeds returns the
  same endpoint, for the rest of the process.\<close>

theorem one_endpoint:
  assumes "endpoint_steps \<lparr>cell = None, calls = []\<rparr> s" "endpoint_steps s s'"
  shows "Panicked \<notin> set (calls s') \<and> (WasSet \<in> set (calls s') \<longrightarrow> cell s' \<noteq> None) \<and>
    (\<forall>e. Returned (Inr e) \<in> set (calls s) \<longrightarrow>
       cell s' = Some e \<and> (\<forall>e'. Returned (Inr e') \<in> set (calls s') \<longrightarrow> e' = e))"
proof -
  have ok: "list_all (call_ok (cell s)) (calls s)" using endpoint_steps_ok [OF assms(1)] by simp
  then have "Returned (Inr e) \<in> set (calls s) \<Longrightarrow> cell s = Some e" for e by (auto simp: list_all_iff call_ok_def)
  with endpoint_steps_ok [OF assms(2) ok] show ?thesis by (fastforce simp: list_all_iff call_ok_def)
qed

text \<open>Two calls build an endpoint each; both return the one that was set first.\<close>

definition demo_quic :: "nat \<Rightarrow> (nat, unit, unit) quic_crate" where
  "demo_quic n = \<lparr>tls_ok = (\<lambda>_. True), endpoint_client = (\<lambda>_. Some n), with_default_config = (\<lambda>_ e. e),
     endpoint_connect = (\<lambda>_ _ _. Some ()), into_0rtt = (\<lambda>_. None), handshake = (\<lambda>_. Some ())\<rparr>"

lemma demo_build: "build_quic_endpoint (demo_quic n) = Inr n"
proof -
  have addr: "parse_socket_addr (\<lambda>_. None) (lit ''0.0.0.0:0'') = Some (SockV4 (0, 0, 0, 0) 0)"
  proof -
    have "split_once colon (lit ''0.0.0.0:0'') = Some (lit ''0.0.0.0'', [48])" "parse_ipv4 (lit ''0.0.0.0'') = Some (0, 0, 0, 0)"
      by code_simp+
    moreover have "parse_port [48] = Some 0" by (simp add: parse_port_def is_digit_def dec_val_def)
    ultimately show ?thesis by (simp add: parse_socket_addr_def)
  qed
  have "\<not> \<not> DOQ_IDLE_TIMEOUT < 2 ^ 62" by (simp add: DOQ_IDLE_TIMEOUT_def)
  then show ?thesis unfolding build_quic_endpoint_def addr by (simp add: demo_quic_def)
qed

lemma demo_race:
  "endpoint_steps \<lparr>cell = None, calls = []\<rparr> \<lparr>cell = Some (2 :: nat), calls = [WasSet, Returned (Inr 2)]\<rparr>"
proof -
  let ?s = "\<lambda>c xs. \<lparr>cell = c, calls = xs\<rparr> :: nat endpoints"
  note steps = rtranclp.rtrancl_into_rtrancl [of endpoint_step]
  have call: "endpoint_steps a (?s c xs) \<Longrightarrow> endpoint_steps a (?s c (xs @ [Called]))" for a c xs
    using steps endpoint_step.call [of "?s c xs"] by fastforce
  have at: "endpoint_steps a (?s c (xs @ x # ys)) \<Longrightarrow> call_step (c, x) (c', y) \<Longrightarrow> endpoint_steps a (?s c' (xs @ y # ys))"
    for a c c' x y xs ys
    using steps endpoint_step.step [of "?s c (xs @ x # ys)" xs x ys c' y] by fastforce
  have "endpoint_steps (?s None []) (?s None [])" by simp
  from call [OF call [OF this]] have "endpoint_steps (?s None []) (?s None [Called, Called])" by simp
  from at [where xs = "[]", simplified, OF this call_step.missing]
  have "endpoint_steps (?s None []) (?s None [Building, Called])" .
  from at [where xs = "[Building]" and ys = "[]", simplified, OF this call_step.missing]
  have "endpoint_steps (?s None []) (?s None [Building, Building])" .
  from at [where xs = "[]", simplified, OF this call_step.built [OF demo_build [of 3]]]
  have "endpoint_steps (?s None []) (?s None [Built 3, Building])" .
  from at [where xs = "[Built 3]" and ys = "[]", simplified, OF this call_step.built [OF demo_build [of 2]]]
  have "endpoint_steps (?s None []) (?s None [Built 3, Built 2])" .
  from at [where xs = "[Built 3]" and ys = "[]", simplified, OF this call_step.set_once]
  have "endpoint_steps (?s None []) (?s (Some 2) [Built 3, WasSet])" by (simp add: once_set_def)
  from at [where xs = "[Built 3]" and ys = "[]", simplified, OF this call_step.got]
  have "endpoint_steps (?s None []) (?s (Some 2) [Built 3, Returned (Inr 2)])" .
  from at [where xs = "[]", simplified, OF this call_step.set_once]
  show ?thesis by (simp add: once_set_def)
qed

theorem one_endpoint_witness:
  "\<exists>s. endpoint_steps \<lparr>cell = Some (2 :: nat), calls = [WasSet, Returned (Inr 2)]\<rparr> s \<and>
     calls s = [Returned (Inr 2), Returned (Inr 2)] \<and> Panicked \<notin> set (calls s) \<and> cell s = Some 2"
proof -
  let ?s = "\<lparr>cell = Some (2 :: nat), calls = [WasSet, Returned (Inr 2)]\<rparr>"
    and ?t = "\<lparr>cell = Some (2 :: nat), calls = [Returned (Inr 2), Returned (Inr 2)]\<rparr>"
  have "endpoint_step ?s ?t"
    using endpoint_step.step [of ?s "[]" WasSet "[Returned (Inr 2)]" "Some 2" "Returned (Inr 2)"] by (simp add: call_step.got)
  then have t: "endpoint_steps ?s ?t" by blast
  have "Returned (Inr 2) \<in> set (calls ?s)" by simp
  with one_endpoint [OF demo_race t] have "Panicked \<notin> set (calls ?t) \<and> cell ?t = Some 2" by blast
  then show ?thesis using t by (intro exI [of _ ?t]) simp
qed

text \<open>\<open>connection_for\<close> of theory \<open>Upstream\<close>, with its parameter \<open>quic_connect\<close> replaced by the code of this theory. The
  endpoint is only asked for when there is no connection to use and the resolver has an address.\<close>

lemma connection_for_refined:
  "doq_connection_for Q net ep connections resolver =
     (case connection_for (net\<lparr>quic_connect := \<lambda>_ target.
          (case fst (quic_endpoint Q ep) of Inl _ \<Rightarrow> None | Inr endpoint \<Rightarrow> doq_connect Q endpoint target)\<rparr>) connections resolver of
        (r, connections') \<Rightarrow>
          (r, if doq_cached net connections resolver = None \<and> (\<exists>t. parse_doq_target (parse_ip net) (host_lookup net) resolver = Inr t)
              then snd (quic_endpoint Q ep) else ep, connections'))"
proof -
  have sel: "quic_alive (net\<lparr>quic_connect := f\<rparr>) = quic_alive net" "parse_ip (net\<lparr>quic_connect := f\<rparr>) = parse_ip net"
    "host_lookup (net\<lparr>quic_connect := f\<rparr>) = host_lookup net" for f by simp_all
  have err: "build_quic_endpoint Q = Inl e \<Longrightarrow> e = Config" for e
    by (auto simp: build_quic_endpoint_def split: if_splits option.splits)
  show ?thesis
    by (auto simp: doq_connection_for_def connection_for_def quic_endpoint_def doq_cached_def sel
        dest: err split: option.splits sum.splits)
qed

end
