(* ===== verification/Task_Pool.thy ===== *)
theory Task_Pool
  imports Upstream "HOL-Library.Multiset"
begin

text \<open>
  \<open>collect_concurrent\<close> of \<open>dns_relay/src/resolver.rs\<close>, on which the health checks and the fetching of
  resolver sources run: one task per item, a semaphore that lets at most \<open>limit\<close> of them work, and
  the results in the order in which the tasks end.

  The tasks work on a state that they share, for the health checks the socket of all UDP probes and the pool of
  QUIC connections. \<open>ends x st r st'\<close> says that the work on item \<open>x\<close> may end with result \<open>r\<close> and take the shared
  state from \<open>st\<close> to \<open>st'\<close>; \<open>env\<close> is what happens to that state meanwhile, such as datagrams that arrive. A task does not
  fail: a panic aborts the process, and the semaphore is never closed.
\<close>

section \<open>The tasks\<close>

record ('t, 'r, 's) pool =
  waiting :: "'t list" \<comment> \<open>tasks without a permit\<close>
  in_flight :: "'t list" \<comment> \<open>tasks with a permit\<close>
  joined :: "('t \<times> 'r) list" \<comment> \<open>\<open>out\<close>, each result with its item\<close>
  common :: 's \<comment> \<open>what the tasks share\<close>

definition spawn_all :: "'t list \<Rightarrow> 's \<Rightarrow> ('t, 'r, 's) pool" where
  "spawn_all items st = \<lparr>waiting = items, in_flight = [], joined = [], common = st\<rparr>"

inductive pool_step :: "nat \<Rightarrow> ('t \<Rightarrow> 's \<Rightarrow> 'r \<Rightarrow> 's \<Rightarrow> bool) \<Rightarrow> ('t, 'r, 's) pool \<Rightarrow> ('t, 'r, 's) pool \<Rightarrow> bool"
  for limit :: nat and ends :: "'t \<Rightarrow> 's \<Rightarrow> 'r \<Rightarrow> 's \<Rightarrow> bool" where
  acquire: "x \<in> set (waiting s) \<Longrightarrow> length (in_flight s) < max limit 1 \<Longrightarrow>
    pool_step limit ends s (s\<lparr>waiting := remove1 x (waiting s), in_flight := x # in_flight s\<rparr>)"
| join: "x \<in> set (in_flight s) \<Longrightarrow> ends x (common s) r st \<Longrightarrow>
    pool_step limit ends s (s\<lparr>in_flight := remove1 x (in_flight s), joined := joined s @ [(x, r)], common := st\<rparr>)"

inductive_cases pool_stepE: "pool_step limit ends s s'"

text \<open>\<open>n\<close> is the number of steps of the tasks.\<close>

inductive pool_trace ::
  "nat \<Rightarrow> ('t \<Rightarrow> 's \<Rightarrow> 'r \<Rightarrow> 's \<Rightarrow> bool) \<Rightarrow> ('s \<Rightarrow> 's \<Rightarrow> bool) \<Rightarrow> ('t, 'r, 's) pool \<Rightarrow> nat \<Rightarrow> ('t, 'r, 's) pool \<Rightarrow> bool"
  for limit ends env s0 where
  start: "pool_trace limit ends env s0 0 s0"
| work: "pool_trace limit ends env s0 n s \<Longrightarrow> pool_step limit ends s s' \<Longrightarrow> pool_trace limit ends env s0 (Suc n) s'"
| meanwhile: "pool_trace limit ends env s0 n s \<Longrightarrow> env (common s) st \<Longrightarrow> pool_trace limit ends env s0 n (s\<lparr>common := st\<rparr>)"

text \<open>The call returns \<open>out\<close> when every task has been joined.\<close>

definition collect_concurrent ::
  "nat \<Rightarrow> ('t \<Rightarrow> 's \<Rightarrow> 'r \<Rightarrow> 's \<Rightarrow> bool) \<Rightarrow> ('s \<Rightarrow> 's \<Rightarrow> bool) \<Rightarrow> 't list \<Rightarrow> 's \<Rightarrow> 'r list \<Rightarrow> 's \<Rightarrow> bool" where
  "collect_concurrent limit ends env items st out st' \<longleftrightarrow>
     (\<exists>n s. pool_trace limit ends env (spawn_all items st) n s \<and> waiting s = [] \<and> in_flight s = [] \<and>
        out = map snd (joined s) \<and> st' = common s)"

section \<open>Nothing is lost\<close>

definition pool_ok :: "nat \<Rightarrow> ('t \<Rightarrow> 's \<Rightarrow> 'r \<Rightarrow> 's \<Rightarrow> bool) \<Rightarrow> 't list \<Rightarrow> ('t, 'r, 's) pool \<Rightarrow> bool" where
  "pool_ok limit ends items s \<longleftrightarrow>
     length (in_flight s) \<le> max limit 1 \<and>
     mset items = mset (waiting s) + mset (in_flight s) + mset (map fst (joined s)) \<and>
     list_all (\<lambda>(x, r). \<exists>st st'. ends x st r st') (joined s)"

lemma taken_out: "x \<in> set xs \<Longrightarrow> mset xs = add_mset x (mset (remove1 x xs))"
  by simp

lemma length_taken_out: "x \<in> set xs \<Longrightarrow> length xs = Suc (length (remove1 x xs))"
  by (metis One_nat_def Suc_pred length_pos_if_in_set length_remove1)

lemma pool_step_ok: "pool_step limit ends s s' \<Longrightarrow> pool_ok limit ends items s \<Longrightarrow> pool_ok limit ends items s'"
proof (induction rule: pool_step.induct)
  case (acquire x s)
  then show ?case using taken_out [of x "waiting s"] by (simp add: pool_ok_def del: mset_remove1)
next
  case (join x s r st)
  then show ?case
    using taken_out [of x "in_flight s"] length_taken_out [of x "in_flight s"]
    by (auto simp: pool_ok_def simp del: mset_remove1)
qed

lemma pool_start_ok: "pool_ok limit ends items (spawn_all items st)"
  by (simp add: pool_ok_def spawn_all_def)

lemma pool_trace_ok: "pool_trace limit ends env (spawn_all items st) n s \<Longrightarrow> pool_ok limit ends items s"
proof (induction rule: pool_trace.induct)
  case (meanwhile n s st')
  then show ?case by (simp add: pool_ok_def)
qed (auto intro: pool_start_ok pool_step_ok)

definition pool_load :: "('t, 'r, 's) pool \<Rightarrow> nat" where
  "pool_load s = 2 * length (waiting s) + length (in_flight s)"

lemma pool_step_load: "pool_step limit ends s s' \<Longrightarrow> pool_load s' < pool_load s"
  by (elim pool_stepE) (auto simp: pool_load_def dest: length_taken_out)

lemma pool_trace_load: "pool_trace limit ends env s0 n s \<Longrightarrow> pool_load s + n \<le> pool_load s0"
proof (induction rule: pool_trace.induct)
  case (work n s s')
  with pool_step_load [of limit ends s s'] show ?case by simp
qed (simp_all add: pool_load_def)

lemma pool_progress:
  assumes "\<And>x st. \<exists>r st'. ends x st r st'" "waiting s \<noteq> [] \<or> in_flight s \<noteq> []"
  shows "\<exists>s'. pool_step limit ends s s'"
proof (cases "in_flight s")
  case Nil
  with assms(2) obtain x where "x \<in> set (waiting s)" by (cases "waiting s") auto
  then have "pool_step limit ends s (s\<lparr>waiting := remove1 x (waiting s), in_flight := x # in_flight s\<rparr>)"
    by (rule pool_step.acquire) (simp add: Nil)
  then show ?thesis ..
next
  case (Cons x xs)
  from assms(1) obtain r st where "ends x (common s) r st" by blast
  then have "pool_step limit ends s (s\<lparr>in_flight := remove1 x (in_flight s), joined := joined s @ [(x, r)], common := st\<rparr>)"
    by (intro pool_step.join) (simp_all add: Cons)
  then show ?thesis ..
qed

lemma collected:
  assumes "collect_concurrent limit ends env items st out st'"
  shows "\<exists>js. mset (map fst js) = mset items \<and> out = map snd js \<and> list_all (\<lambda>(x, r). \<exists>st st'. ends x st r st') js"
proof -
  obtain n s where s: "pool_trace limit ends env (spawn_all items st) n s" "waiting s = []" "in_flight s = []"
    "out = map snd (joined s)" using assms by (auto simp: collect_concurrent_def)
  from pool_trace_ok [OF s(1)] s(2-4) show ?thesis by (intro exI [of _ "joined s"]) (simp add: pool_ok_def)
qed

section \<open>Fetching the sources\<close>

definition HEALTH_CHECK_CONCURRENCY :: nat where "HEALTH_CHECK_CONCURRENCY = 100"
definition SOURCE_FETCH_CONCURRENCY :: nat where "SOURCE_FETCH_CONCURRENCY = 8"

text \<open>The lists fetched at the start of a turn of the finder; a source that cannot be read gives the empty
  list. The tasks share nothing.\<close>

definition source_entries :: "(rstr \<Rightarrow> http_outcome) \<Rightarrow> bool \<Rightarrow> bool \<Rightarrow> rstr \<Rightarrow> rstr list" where
  "source_entries http_get keep_ipv4 keep_doh addr =
     (case fetch_resolvers_from_addr http_get keep_ipv4 keep_doh addr of Inr list \<Rightarrow> list | Inl _ \<Rightarrow> [])"

definition fetch_sources :: "(rstr \<Rightarrow> http_outcome) \<Rightarrow> bool \<Rightarrow> bool \<Rightarrow> rstr list \<Rightarrow> rstr list list \<Rightarrow> bool" where
  "fetch_sources http_get keep_ipv4 keep_doh sources fetched \<longleftrightarrow>
     collect_concurrent (min SOURCE_FETCH_CONCURRENCY (max (length sources) 1))
       (\<lambda>addr (_ :: unit) list _. list = source_entries http_get keep_ipv4 keep_doh addr) (\<lambda>_ _. False) sources () fetched ()"

text \<open>The order in which the sources answer does not matter for the candidates.\<close>

lemma fetched_candidates:
  assumes "fetch_sources http_get k4 kd sources fetched"
  shows "finder_candidates s fetched =
    {r. (\<exists>addr \<in> set sources. r \<in> set (source_entries http_get k4 kd addr)) \<and> \<not> is_failed_resolver (failures s) r}
    - fst ` set (healthy_resolvers s)"
proof -
  obtain js where js: "mset (map fst js) = mset sources" "fetched = map snd js"
    "list_all (\<lambda>(x, r). r = source_entries http_get k4 kd x) js"
    using collected [OF assms [unfolded fetch_sources_def]] by auto
  from js(3) have "map snd js = map (source_entries http_get k4 kd) (map fst js)" by (induction js) auto
  with js(1,2) have "set fetched = source_entries http_get k4 kd ` set sources" by (metis mset_eq_setD set_map)
  then show ?thesis by (auto simp: finder_candidates_def)
qed

section \<open>Health checks at start\<close>

text \<open>What the probes share. \<open>arrivals\<close> is a ghost: the number of datagrams that the socket has got.\<close>

record 'conn probing =
  doq_conns :: "'conn doq_pool"
  socket_inbox :: inbox
  arrivals :: nat

text \<open>One probe, from its permit to its end: how long it took, whether it was too slow, whether the socket broke. A DoQ
  probe is one step; it touches the entry of its own resolver only.\<close>

inductive probe_ends :: "'conn net \<Rightarrow> rstr \<Rightarrow> 'conn probing \<Rightarrow> resolver option \<Rightarrow> 'conn probing \<Rightarrow> bool" for net where
  "measure_latency net elapsed slow broken r (doq_conns st) (socket_inbox st) = (res, conns, inbox) \<Longrightarrow>
   probe_ends net r st (case res of Inr latency \<Rightarrow> Some (r, latency) | Inl _ \<Rightarrow> None)
     (st\<lparr>doq_conns := conns, socket_inbox := inbox\<rparr>)"

inductive datagram_arrives :: "'conn probing \<Rightarrow> 'conn probing \<Rightarrow> bool" where
  "datagram_arrives st (st\<lparr>socket_inbox := socket_inbox st @ [(sender, d)], arrivals := Suc (arrivals st)\<rparr>)"

abbreviation probing_trace where
  "probing_trace net resolvers st \<equiv>
     pool_trace HEALTH_CHECK_CONCURRENCY (probe_ends net) datagram_arrives (spawn_all resolvers st)"

definition test_resolvers_run ::
  "'conn net \<Rightarrow> rstr list \<Rightarrow> 'conn probing \<Rightarrow> error + resolver list \<Rightarrow> 'conn probing \<Rightarrow> bool" where
  "test_resolvers_run net resolvers st res st' \<longleftrightarrow>
     (\<exists>out. collect_concurrent HEALTH_CHECK_CONCURRENCY (probe_ends net) datagram_arrives resolvers st out st' \<and>
        (let results = List.map_filter id out in
         if results = [] then res = Inl NoHealthyResolvers
         else \<exists>sorted_resolvers. sorted_by_latency results sorted_resolvers \<and> res = Inr sorted_resolvers))"

section \<open>What the probes say\<close>

definition plain_resolver :: "rstr \<Rightarrow> bool" where
  "plain_resolver r \<longleftrightarrow> \<not> starts_with r HTTPS \<and> \<not> starts_with r QUIC"

text \<open>A DoH resolver answers the probe.\<close>

definition doh_answers :: "'conn net \<Rightarrow> rstr \<Rightarrow> bool" where
  "doh_answers net r \<longleftrightarrow>
     (case http_post net r DNS_PROBE_PACKET of Response status (Some _) \<Rightarrow> is_success status | _ \<Rightarrow> False)"

lemma probe_doh: "probe_ends net r st x st' \<Longrightarrow> starts_with r HTTPS \<Longrightarrow> x \<noteq> None \<longleftrightarrow> doh_answers net r"
  by (erule probe_ends.cases)
    (auto simp: measure_latency_def doh_answers_def split: http_outcome.splits option.splits if_splits)

lemma probe_named: "probe_ends net r st (Some y) st' \<Longrightarrow> fst y = r"
  by (erule probe_ends.cases) (auto split: sum.splits)

text \<open>A plain probe that succeeds takes one datagram from the socket; no other probe takes any.\<close>

lemma probe_takes:
  assumes "probe_ends net r st x st'"
  shows "length (socket_inbox st) = length (socket_inbox st') + (if x \<noteq> None \<and> plain_resolver r then 1 else 0) \<and>
    arrivals st' = arrivals st"
  using assms
  by cases (auto simp: measure_latency_def plain_resolver_def Let_def split: option.splits list.splits prod.splits sum.splits if_splits)

definition plain_healthy :: "(rstr \<times> resolver option) list \<Rightarrow> nat" where
  "plain_healthy js = length (filter (\<lambda>(r, x). x \<noteq> None \<and> plain_resolver r) js)"

lemma probing_inbox:
  "probing_trace net resolvers st n s \<Longrightarrow>
     plain_healthy (joined s) + length (socket_inbox (common s)) + arrivals st =
       length (socket_inbox st) + arrivals (common s)"
proof (induction rule: pool_trace.induct)
  case start
  show ?case by (simp add: spawn_all_def plain_healthy_def)
next
  case (work n s s')
  from work.hyps(2) show ?case
  proof (rule pool_stepE)
    fix x r st'
    assume "s' = s\<lparr>in_flight := remove1 x (in_flight s), joined := joined s @ [(x, r)], common := st'\<rparr>"
      and "probe_ends net x (common s) r st'"
    with probe_takes [of net x "common s" r st'] work.IH show ?thesis by (auto simp: plain_healthy_def split: if_splits)
  qed (use work.IH in simp)
next
  case (meanwhile n s st')
  then show ?case by (auto elim!: datagram_arrives.cases)
qed

lemma probe_returns: "\<exists>x st'. probe_ends net r st x st'"
proof -
  obtain res conns inbox where "measure_latency net 0 False False r (doq_conns st) (socket_inbox st) = (res, conns, inbox)"
    by (metis surj_pair)
  from probe_ends.intros [OF this] show ?thesis by blast
qed

lemma named_results:
  assumes "list_all (\<lambda>(r, x). \<forall>y. x = Some y \<longrightarrow> fst y = r) js"
  shows "map fst (List.map_filter id (map snd js)) = map fst (filter (\<lambda>j. snd j \<noteq> None) js)"
  using assms by (induction js) (auto simp: map_filter_simps split: option.split)

lemma doh_results:
  "list_all (\<lambda>(r, x). \<exists>st st'. probe_ends net r st x st') js \<Longrightarrow>
     filter (\<lambda>r. starts_with r HTTPS) (map fst (filter (\<lambda>j. snd j \<noteq> None) js)) =
     filter (\<lambda>r. starts_with r HTTPS \<and> doh_answers net r) (map fst js)"
  by (induction js) (auto dest: probe_doh)

lemma healthy_results_none: "healthy_results probe rs = [] \<longleftrightarrow> (\<forall>r \<in> set rs. \<exists>e. probe r = Inl e)"
  by (induction rs) (auto simp: healthy_results_def map_filter_simps split: sum.split)

section \<open>Properties\<close>

text \<open>C39: The health check at start, run as tasks that share one UDP socket, whatever datagrams arrive
  meanwhile: at most 100 probes work at a time, and the check ends after two steps for each resolver, never stuck
  before. The result is an error when no resolver
  passed; otherwise the resolvers that passed, sorted by latency, each as often as it was given or less. A DoH resolver
  passes exactly when it answers the probe. Of the plain resolvers as many pass as datagrams were taken
  from the socket, from whatever sender: which of them answered plays no role.\<close>

theorem health_check_counts_datagrams:
  assumes "test_resolvers_run net resolvers st res st'"
  shows "(\<forall>n s. probing_trace net resolvers st n s \<longrightarrow> length (in_flight s) \<le> 100 \<and> n \<le> 2 * length resolvers \<and>
      (waiting s = [] \<and> in_flight s = [] \<or> (\<exists>s'. pool_step HEALTH_CHECK_CONCURRENCY (probe_ends net) s s'))) \<and>
    (case res of
       Inl e \<Rightarrow> e = NoHealthyResolvers \<and> (\<forall>r \<in> set resolvers. \<not> (starts_with r HTTPS \<and> doh_answers net r)) \<and>
         length (socket_inbox st') + arrivals st = length (socket_inbox st) + arrivals st'
     | Inr rs \<Rightarrow> rs \<noteq> [] \<and> sorted (map snd rs) \<and> mset (map fst rs) \<subseteq># mset resolvers \<and>
         mset (filter (\<lambda>r. starts_with r HTTPS) (map fst rs)) =
           mset (filter (\<lambda>r. starts_with r HTTPS \<and> doh_answers net r) resolvers) \<and>
         length (filter plain_resolver (map fst rs)) + length (socket_inbox st') + arrivals st =
           length (socket_inbox st) + arrivals st')"
proof
  show "\<forall>n s. probing_trace net resolvers st n s \<longrightarrow> length (in_flight s) \<le> 100 \<and> n \<le> 2 * length resolvers \<and>
      (waiting s = [] \<and> in_flight s = [] \<or> (\<exists>s'. pool_step HEALTH_CHECK_CONCURRENCY (probe_ends net) s s'))"
  proof (intro allI impI)
    fix n s
    assume t: "probing_trace net resolvers st n s"
    from pool_trace_ok [OF t] have "length (in_flight s) \<le> 100" by (simp add: pool_ok_def HEALTH_CHECK_CONCURRENCY_def)
    moreover from pool_trace_load [OF t] have "n \<le> 2 * length resolvers" by (simp add: pool_load_def spawn_all_def)
    moreover have "waiting s = [] \<and> in_flight s = [] \<or> (\<exists>s'. pool_step HEALTH_CHECK_CONCURRENCY (probe_ends net) s s')"
      using pool_progress [where ends = "probe_ends net", OF probe_returns, of s] by blast
    ultimately show "length (in_flight s) \<le> 100 \<and> n \<le> 2 * length resolvers \<and>
      (waiting s = [] \<and> in_flight s = [] \<or> (\<exists>s'. pool_step HEALTH_CHECK_CONCURRENCY (probe_ends net) s s'))" by blast
  qed
next
  obtain n s where s: "probing_trace net resolvers st n s" "waiting s = []" "in_flight s = []" "st' = common s"
    and res: "if List.map_filter id (map snd (joined s)) = [] then res = Inl NoHealthyResolvers
      else \<exists>rs. sorted_by_latency (List.map_filter id (map snd (joined s))) rs \<and> res = Inr rs"
    using assms by (auto simp: test_resolvers_run_def collect_concurrent_def Let_def)
  let ?js = "joined s" and ?ok = "List.map_filter id (map snd (joined s))"
  have js: "mset (map fst ?js) = mset resolvers" "list_all (\<lambda>(r, x). \<exists>st st'. probe_ends net r st x st') ?js"
    using pool_trace_ok [OF s(1)] s(2,3) by (simp_all add: pool_ok_def)
  have names: "map fst ?ok = map fst (filter (\<lambda>j. snd j \<noteq> None) ?js)"
    by (rule named_results) (use js(2) in \<open>fastforce simp: list_all_iff dest: probe_named\<close>)
  have same: "mset (filter P (map fst ?js)) = mset (filter P resolvers)" for P by (simp only: mset_filter js(1))
  have doh: "filter (\<lambda>r. starts_with r HTTPS) (map fst ?ok) = filter (\<lambda>r. starts_with r HTTPS \<and> doh_answers net r) (map fst ?js)"
    unfolding names by (rule doh_results [OF js(2)])
  have plain: "length (filter plain_resolver (map fst ?ok)) = plain_healthy ?js"
    unfolding names plain_healthy_def filter_map length_map filter_filter
    by (intro arg_cong [where f = length] filter_cong) auto
  have sub: "mset (map fst ?ok) \<subseteq># mset resolvers"
    unfolding names js(1) [symmetric] mset_map by (intro image_mset_subseteq_mono) simp
  note inbox = probing_inbox [OF s(1), folded s(4)]
  show "case res of
       Inl e \<Rightarrow> e = NoHealthyResolvers \<and> (\<forall>r \<in> set resolvers. \<not> (starts_with r HTTPS \<and> doh_answers net r)) \<and>
         length (socket_inbox st') + arrivals st = length (socket_inbox st) + arrivals st'
     | Inr rs \<Rightarrow> rs \<noteq> [] \<and> sorted (map snd rs) \<and> mset (map fst rs) \<subseteq># mset resolvers \<and>
         mset (filter (\<lambda>r. starts_with r HTTPS) (map fst rs)) =
           mset (filter (\<lambda>r. starts_with r HTTPS \<and> doh_answers net r) resolvers) \<and>
         length (filter plain_resolver (map fst rs)) + length (socket_inbox st') + arrivals st =
           length (socket_inbox st) + arrivals st'"
  proof (cases "?ok = []")
    case True
    then have "filter (\<lambda>r. starts_with r HTTPS \<and> doh_answers net r) resolvers = []"
      using doh same [of "\<lambda>r. starts_with r HTTPS \<and> doh_answers net r"] by simp
    then show ?thesis using True res plain inbox by (simp add: filter_empty_conv)
  next
    case False
    then obtain rs where rs: "mset rs = mset ?ok" "sorted (map snd rs)" "res = Inr rs"
      using res by (auto simp: sorted_by_latency_def)
    then have m: "mset (map fst rs) = mset (map fst ?ok)" by simp
    then have f: "mset (filter P (map fst rs)) = mset (filter P (map fst ?ok))" for P by (simp only: mset_filter)
    from f [of plain_resolver] have "length (filter plain_resolver (map fst rs)) = plain_healthy ?js"
      using plain by (metis size_mset)
    moreover have "rs \<noteq> []" using rs(1) False by auto
    ultimately show ?thesis using rs(2,3) m sub f [of "\<lambda>r. starts_with r HTTPS"] inbox unfolding doh same by simp
  qed
qed

text \<open>Two plain resolvers, and one datagram that neither of them sent.\<close>

definition demo_probing :: "nat probing" where
  "demo_probing = \<lparr>doq_conns = Map.empty, socket_inbox = [], arrivals = 0\<rparr>"

lemma demo_probe:
  "probe_ends silent_net (lit ''10.0.0.1:53'') \<lparr>doq_conns = c, socket_inbox = [], arrivals = a\<rparr> None
     \<lparr>doq_conns = c, socket_inbox = [], arrivals = a\<rparr>"
  "probe_ends silent_net (lit ''10.0.0.1:53'') \<lparr>doq_conns = c, socket_inbox = [(x, d)], arrivals = a\<rparr>
     (Some (lit ''10.0.0.1:53'', 40)) \<lparr>doq_conns = c, socket_inbox = [], arrivals = a\<rparr>"
proof -
  have h: "\<not> starts_with (lit ''10.0.0.1:53'') HTTPS" "\<not> starts_with (lit ''10.0.0.1:53'') QUIC" by code_simp+
  have "split_once colon (lit ''10.0.0.1:53'') = Some (lit ''10.0.0.1'', [53, 51])"
    "parse_ipv4 (lit ''10.0.0.1'') = Some (10, 0, 0, 1)" by code_simp+
  then have p: "parse_socket_addr (\<lambda>_. None) (lit ''10.0.0.1:53'') = Some (SockV4 (10, 0, 0, 1) 53)"
    by (simp add: parse_socket_addr_def parse_port_53)
  let ?st = "\<lambda>i. \<lparr>doq_conns = c, socket_inbox = i, arrivals = a\<rparr>"
  show "probe_ends silent_net (lit ''10.0.0.1:53'') (?st []) None (?st [])"
    using probe_ends.intros [of silent_net 40 False False "lit ''10.0.0.1:53''" "?st []"] h p
    by (simp add: measure_latency_def silent_net_def)
  show "probe_ends silent_net (lit ''10.0.0.1:53'') (?st [(x, d)]) (Some (lit ''10.0.0.1:53'', 40)) (?st [])"
    using probe_ends.intros [of silent_net 40 False False "lit ''10.0.0.1:53''" "?st [(x, d)]"] h p
    by (simp add: measure_latency_def silent_net_def)
qed

text \<open>The same resolver is given twice; one datagram from elsewhere makes one of the two probes pass.\<close>

lemma demo_health_check:
  "test_resolvers_run silent_net [lit ''10.0.0.1:53'', lit ''10.0.0.1:53''] demo_probing
     (Inr [(lit ''10.0.0.1:53'', 40)]) (demo_probing\<lparr>arrivals := 1\<rparr>)"
proof -
  let ?r = "lit ''10.0.0.1:53''" and ?st = demo_probing
  let ?m = "\<lparr>doq_conns = Map.empty, socket_inbox = [(SockV4 (9, 9, 9, 9) 53, [])], arrivals = 1\<rparr> :: nat probing"
    and ?e = "\<lparr>doq_conns = Map.empty, socket_inbox = [], arrivals = 1\<rparr> :: nat probing"
  let ?s = "\<lambda>w f j c. \<lparr>waiting = w, in_flight = f, joined = j, common = c\<rparr> :: (rstr, resolver option, nat probing) pool"
  let ?T = "probing_trace silent_net [?r, ?r] ?st"
  have acq: "?T (Suc n) (?s w (?r # f) j c)" if "?T n (?s (?r # w) f j c)" "length f < 100" for n w f j c
    using pool_trace.work [OF that(1) pool_step.acquire [of ?r]] that(2) by (simp add: HEALTH_CHECK_CONCURRENCY_def)
  have join: "?T (Suc n) (?s w f (j @ [(?r, x)]) c')" if "?T n (?s w (?r # f) j c)" "probe_ends silent_net ?r c x c'" for n w f j c c' x
    using pool_trace.work [OF that(1) pool_step.join [of ?r _ "probe_ends silent_net" x c']] that(2) by simp
  have "?T 0 (?s [?r, ?r] [] [] ?st)"
    using pool_trace.start [of HEALTH_CHECK_CONCURRENCY "probe_ends silent_net" datagram_arrives "spawn_all [?r, ?r] ?st"]
    by (simp add: spawn_all_def)
  from acq [OF acq [OF this]] have "?T (Suc (Suc 0)) (?s [] [?r, ?r] [] ?st)" by simp
  moreover have "datagram_arrives ?st ?m"
    using datagram_arrives.intros [of ?st "SockV4 (9, 9, 9, 9) 53" "[]"] by (simp add: demo_probing_def)
  ultimately have "?T (Suc (Suc 0)) (?s [] [?r, ?r] [] ?m)"
    using pool_trace.meanwhile [of _ _ datagram_arrives _ _ "?s [] [?r, ?r] [] ?st" ?m] by simp
  from join [OF join [OF this demo_probe(2)] demo_probe(1)]
  have "\<exists>n. ?T n (?s [] [] [(?r, Some (?r, 40)), (?r, None)] ?e)" by auto
  then have "collect_concurrent HEALTH_CHECK_CONCURRENCY (probe_ends silent_net) datagram_arrives [?r, ?r] ?st [Some (?r, 40), None] ?e"
    unfolding collect_concurrent_def by (elim exE, intro exI conjI) (assumption | simp)+
  then show ?thesis unfolding test_resolvers_run_def
    by (intro exI [of _ "[Some (?r, 40), None]"])
      (auto simp: map_filter_simps sorted_by_latency_def demo_probing_def intro: exI [of _ "[(?r, 40)]"])
qed

theorem health_check_counts_datagrams_witness:
  "length (filter plain_resolver [lit ''10.0.0.1:53'']) = 1 \<and>
   test_resolvers_run silent_net [lit ''10.0.0.1:53'', lit ''10.0.0.1:53''] demo_probing
     (Inr [(lit ''10.0.0.1:53'', 40)]) (demo_probing\<lparr>arrivals := 1\<rparr>)"
  using health_check_counts_datagrams [OF demo_health_check] demo_health_check by (simp add: demo_probing_def)

text \<open>What any run of the check over the shared socket says of different resolvers could have come from one probe after
  the other, with an outcome for each resolver; only which outcomes are possible depends on the others.\<close>

theorem concurrent_check_explained:
  assumes "test_resolvers_run net resolvers st res st'" "distinct resolvers"
  shows "\<exists>probe. test_resolvers probe resolvers res"
proof -
  obtain out where c: "collect_concurrent HEALTH_CHECK_CONCURRENCY (probe_ends net) datagram_arrives resolvers st out st'"
    and res: "if List.map_filter id out = [] then res = Inl NoHealthyResolvers
      else \<exists>rs. sorted_by_latency (List.map_filter id out) rs \<and> res = Inr rs"
    using assms(1) by (auto simp: test_resolvers_run_def Let_def)
  obtain js where js: "mset (map fst js) = mset resolvers" "out = map snd js"
    "list_all (\<lambda>(r, x). \<exists>st st'. probe_ends net r st x st') js"
    using collected [OF c] by blast
  define probe where "probe r = (case map_of js r of Some (Some (_, latency)) \<Rightarrow> Inr latency | _ \<Rightarrow> Inl UdpTimeout)" for r
  have d: "distinct (map fst js)" using js(1) assms(2) by (metis mset_eq_imp_distinct_iff)
  have at: "snd j = (case probe (fst j) of Inr latency \<Rightarrow> Some (fst j, latency) | Inl _ \<Rightarrow> None)" if "j \<in> set js" for j
  proof -
    have "map_of js (fst j) = Some (snd j)" using map_of_is_SomeI [OF d] that by simp
    moreover have "snd j = Some y \<Longrightarrow> fst y = fst j" for y using js(3) that by (fastforce simp: list_all_iff dest: probe_named)
    ultimately show ?thesis by (cases "snd j") (auto simp: probe_def)
  qed
  then have "out = map (\<lambda>r. case probe r of Inr latency \<Rightarrow> Some (r, latency) | Inl _ \<Rightarrow> None) (map fst js)"
    unfolding js(2) by simp
  then have "List.map_filter id out = healthy_results probe (map fst js)"
    by (simp add: healthy_results_def map_filter_def comp_def filter_map)
  then have same: "mset (List.map_filter id out) = mset (healthy_results probe resolvers)"
    by (simp only: healthy_results_def map_filter_def mset_map mset_filter js(1) [unfolded mset_map])
  then have "List.map_filter id out = [] \<longleftrightarrow> healthy_results probe resolvers = []" by (metis mset_zero_iff)
  with res same have "test_resolvers probe resolvers res"
    by (auto simp: healthy_results_none sorted_by_latency_def split: if_splits intro!: test_resolvers.intros)
  then show ?thesis by blast
qed

theorem concurrent_check_explained_witness:
  "\<exists>probe. test_resolvers probe [] (Inl NoHealthyResolvers)"
proof -
  have "pool_trace HEALTH_CHECK_CONCURRENCY (probe_ends silent_net) datagram_arrives (spawn_all [] demo_probing) 0 (spawn_all [] demo_probing)"
    by (rule pool_trace.start)
  then have "test_resolvers_run silent_net [] demo_probing (Inl NoHealthyResolvers) demo_probing"
    unfolding test_resolvers_run_def collect_concurrent_def
    by (intro exI [of _ "[]"] conjI exI [of _ "spawn_all [] demo_probing"] exI [of _ 0])
      (simp_all add: spawn_all_def map_filter_simps)
  from concurrent_check_explained [OF this] show ?thesis by simp
qed

text \<open>The concurrent collector never lets more than its limit work at once, its tasks take at most
  two steps per item, it is never stuck before, and returns one result per item.\<close>

theorem collect_concurrent_exact:
  assumes "pool_trace limit ends env (spawn_all items st) n s" "\<And>x st. \<exists>r st'. ends x st r st'"
  shows "length (in_flight s) \<le> max limit 1 \<and> n \<le> 2 * length items \<and>
    ((\<exists>s'. pool_step limit ends s s') \<or>
     (mset (map fst (joined s)) = mset items \<and> collect_concurrent limit ends env items st (map snd (joined s)) (common s)))"
proof (intro conjI)
  have ok: "pool_ok limit ends items s" by (rule pool_trace_ok [OF assms(1)])
  then show "length (in_flight s) \<le> max limit 1" by (simp add: pool_ok_def)
  show "n \<le> 2 * length items"
    using pool_trace_load [OF assms(1)] by (simp add: pool_load_def spawn_all_def)
  show "(\<exists>s'. pool_step limit ends s s') \<or>
      (mset (map fst (joined s)) = mset items \<and> collect_concurrent limit ends env items st (map snd (joined s)) (common s))"
    using pool_progress [OF assms(2), of s limit] ok assms(1)
    by (cases "waiting s = [] \<and> in_flight s = []") (auto simp: pool_ok_def collect_concurrent_def)
qed

theorem collect_concurrent_exact_witness:
  "length (in_flight \<lparr>waiting = [], in_flight = [2], joined = [(1 :: nat, 10 :: nat)], common = ()\<rparr>) \<le> max 1 1"
proof -
  define ends where "ends = (\<lambda>x (_ :: unit) r (_ :: unit). r = 10 * (x :: nat))"
  let ?s = "\<lambda>w f j. \<lparr>waiting = w, in_flight = f, joined = j, common = ()\<rparr> :: (nat, nat, unit) pool"
  let ?T = "pool_trace 1 ends (\<lambda>_ _. False) (spawn_all [1, 2] ())"
  have "?T 0 (?s [1, 2] [] [])"
    using pool_trace.start [of 1 ends "\<lambda>_ _. False" "spawn_all [1, 2] ()"] by (simp add: spawn_all_def)
  from pool_trace.work [OF this pool_step.acquire [of 1]] have "?T (Suc 0) (?s [2] [1] [])" by simp
  from pool_trace.work [OF this pool_step.join [of 1 _ ends 10 "()"]] have "?T (Suc (Suc 0)) (?s [2] [] [(1, 10)])" by (simp add: ends_def)
  from pool_trace.work [OF this pool_step.acquire [of 2]] have "?T (Suc (Suc (Suc 0))) (?s [] [2] [(1, 10)])" by simp
  from collect_concurrent_exact [OF this] show ?thesis by (simp add: ends_def)
qed

end
