(* ===== verification/Relay_Worker.thy ===== *)
theory Relay_Worker
  imports Relay
begin

text \<open>
  The relay at the other end of \<open>dns_relay/src/relay.rs\<close>: the Cloudflare worker
  \<open>assets/relay_worker.js\<close>. It opens a query, asks three resolvers over HTTPS (three times when the query is
  for addresses), puts the addresses of all replies into one of the replies, and seals it.

  A call of JavaScript is an \<open>'a js\<close>: \<open>None\<close> has no end, \<open>Some None\<close> threw an exception, \<open>Some (Some x)\<close>
  returned \<open>x\<close>. An element behind the end of an \<open>Uint8Array\<close> is \<open>undefined\<close>, which is 0 in bitwise
  operators and in a store to such an array, NaN in additions; \<open>getUint16\<close> of a \<open>DataView\<close> throws there.
  WebCrypto and \<open>fetch\<close> are parameters; the waits between rounds and the console are left out.
\<close>

section \<open>JavaScript\<close>

type_synonym 'a js = "'a option run"

abbreviation returns :: "'a \<Rightarrow> 'a js" where "returns x \<equiv> Some (Some x)"
abbreviation throws :: "'a js" where "throws \<equiv> Some None"

definition js_then :: "'a js \<Rightarrow> ('a \<Rightarrow> 'b js) \<Rightarrow> 'b js" where
  "js_then r f = (case r of None \<Rightarrow> None | Some None \<Rightarrow> throws | Some (Some x) \<Rightarrow> f x)"

definition js_catch :: "'a js \<Rightarrow> 'a \<Rightarrow> 'a run" where
  "js_catch r handler = map_option (\<lambda>x. case x of None \<Rightarrow> handler | Some v \<Rightarrow> v) r"

definition get_uint16 :: "bytes \<Rightarrow> nat \<Rightarrow> u16 js" where
  "get_uint16 p off = Some (rd16 p off)"

definition js_bits :: "bytes \<Rightarrow> nat \<Rightarrow> nat" where
  "js_bits p i = (if i < length p then unat (p ! i) else 0)"

text \<open>\<open>slice\<close> cuts its bounds to the array.\<close>

definition js_slice :: "bytes \<Rightarrow> nat \<Rightarrow> nat \<Rightarrow> bytes" where
  "js_slice p i j = take (j - i) (drop i p)"

definition set_uint16 :: "bytes \<Rightarrow> nat \<Rightarrow> u16 \<Rightarrow> bytes" where
  "set_uint16 b i w = b[i := ucast (drop_bit 8 w), Suc i := ucast w]"

section \<open>DNS messages\<close>

text \<open>Behind the end \<open>len\<close> is \<open>undefined\<close>, the offset becomes NaN, and so it stays: the loop has no end.\<close>

partial_function (option) js_skip_name :: "bytes \<Rightarrow> nat \<Rightarrow> nat run" where
  "js_skip_name p off =
     (if length p \<le> off then js_skip_name p off
      else if p ! off = 0 then Some (off + 1)
      else if is_ptr (p ! off) then Some (off + 2)
      else js_skip_name p (off + 1 + unat (p ! off)))"

definition getQuestionType :: "bytes \<Rightarrow> nat run" where
  "getQuestionType p = map_option (\<lambda>off. push_bit 8 (js_bits p off) OR js_bits p (off + 1)) (js_skip_name p 12)"

fun js_skip_questions :: "nat \<Rightarrow> bytes \<Rightarrow> nat \<Rightarrow> nat run" where
  "js_skip_questions 0 p off = Some off"
| "js_skip_questions (Suc n) p off = do { off \<leftarrow> js_skip_name p off; js_skip_questions n p (off + 4) }"

text \<open>An address is text; a byte that is not there is the word \<open>undefined\<close> in it, which is \<open>None\<close> here.\<close>

type_synonym js_ip = "u8 option list"

definition js_ip_at :: "bytes \<Rightarrow> nat \<Rightarrow> js_ip" where
  "js_ip_at p off = map (\<lambda>i. if i < length p then Some (p ! i) else None) [off, off + 1, off + 2, off + 3]"

fun js_answers :: "nat \<Rightarrow> bytes \<Rightarrow> nat \<Rightarrow> js_ip list \<Rightarrow> js_ip list js" where
  "js_answers 0 p off ips = returns ips"
| "js_answers (Suc n) p off ips = do {
     off \<leftarrow> js_skip_name p off;
     js_then (get_uint16 p off) (\<lambda>type.
     js_then (get_uint16 p (off + 8)) (\<lambda>rdlength.
       js_answers n p (off + 10 + unat rdlength)
         (if type = 1 \<and> rdlength = 4 then ips @ [js_ip_at p (off + 10)] else ips))) }"

definition extractARecords :: "bytes \<Rightarrow> js_ip list js" where
  "extractARecords p =
     js_then (get_uint16 p 4) (\<lambda>qdCount.
     js_then (get_uint16 p 6) (\<lambda>anCount. do {
       off \<leftarrow> js_skip_questions (unat qdCount) p 12;
       js_answers (unat anCount) p off [] }))"

fun js_skip_answers :: "nat \<Rightarrow> bytes \<Rightarrow> nat \<Rightarrow> nat js" where
  "js_skip_answers 0 p off = returns off"
| "js_skip_answers (Suc n) p off = do {
     off \<leftarrow> js_skip_name p off;
     js_then (get_uint16 p (off + 8)) (\<lambda>rdlength. js_skip_answers n p (off + 10 + unat rdlength)) }"

definition buildARecord :: "js_ip \<Rightarrow> bytes" where
  "buildARecord ip = [0xC0, 0x0C, 0, 1, 0, 1, 0, 0, 0, 60, 0, 4] @ map (\<lambda>b. case b of None \<Rightarrow> 0 | Some v \<Rightarrow> v) ip"

definition rewriteAnswersWithIps :: "bytes \<Rightarrow> js_ip list \<Rightarrow> bytes js" where
  "rewriteAnswersWithIps p ips =
     js_then (get_uint16 p 4) (\<lambda>qdCount.
     js_then (get_uint16 p 6) (\<lambda>anCount.
     js_then (get_uint16 p 8) (\<lambda>nsCount.
     js_then (get_uint16 p 10) (\<lambda>arCount. do {
       questionEnd \<leftarrow> js_skip_questions (unat qdCount) p 12;
       js_then (js_skip_answers (unat anCount) p questionEnd) (\<lambda>answersEnd.
         returns (set_uint16 (set_uint16 (set_uint16 (js_slice p 0 12) 6 (of_nat (length ips))) 8 nsCount) 10 arCount
           @ js_slice p 12 questionEnd @ concat (map buildARecord ips) @ drop answersEnd p)) }))))"

section \<open>The worker\<close>

definition DOH_ENDPOINTS :: "rstr list" where
  "DOH_ENDPOINTS = [lit ''https://cloudflare-dns.com/dns-query'', lit ''https://dns.google/dns-query'',
     lit ''https://dns.quad9.net/dns-query'']"

text \<open>\<open>raw_key\<close> is \<open>base64ToBytes(RELAY_KEY)\<close> unless \<open>atob\<close> throws. \<open>queryDoh\<close> of a round, an address and a query is
  \<open>None\<close> when the exchange fails or the status is not a success.\<close>

record 'k worker =
  worker_cipher :: "'k aead"
  raw_key :: "bytes option"
  importKey :: "bytes \<Rightarrow> 'k option"
  queryDoh :: "nat \<Rightarrow> rstr \<Rightarrow> bytes \<Rightarrow> bytes option"
  worker_nonce :: bytes

definition decodeFromRelay :: "'k worker \<Rightarrow> bytes \<Rightarrow> bytes \<Rightarrow> bytes option" where
  "decodeFromRelay W p rawKeyBytes =
     (if length p < 12 then None
      else case importKey W rawKeyBytes of
        None \<Rightarrow> None
      | Some key \<Rightarrow> aead_decrypt (worker_cipher W) key (js_slice p 0 12) (drop 12 p))"

definition encodeForRelay :: "'k worker \<Rightarrow> bytes \<Rightarrow> bytes \<Rightarrow> bytes js" where
  "encodeForRelay W plaintext rawKeyBytes =
     (case importKey W rawKeyBytes of
        None \<Rightarrow> throws
      | Some key \<Rightarrow> (case aead_encrypt (worker_cipher W) key (worker_nonce W) plaintext of
          None \<Rightarrow> throws
        | Some ciphertext \<Rightarrow> returns (worker_nonce W @ ciphertext)))"

text \<open>\<open>allIps.add\<close>: a \<open>Set\<close> keeps the order in which its members came.\<close>

definition add_ip :: "js_ip list \<Rightarrow> js_ip \<Rightarrow> js_ip list" where
  "add_ip allIps ip = (if ip \<in> set allIps then allIps else allIps @ [ip])"

text \<open>The loop over the responses of all rounds; a reply that cannot be parsed is skipped.\<close>

fun collect :: "bytes option list \<Rightarrow> js_ip list \<Rightarrow> bytes option \<Rightarrow> (js_ip list \<times> bytes option) run" where
  "collect [] allIps lastReply = Some (allIps, lastReply)"
| "collect (None # rs) allIps lastReply = collect rs allIps lastReply"
| "collect (Some reply # rs) allIps lastReply = do {
     r \<leftarrow> extractARecords reply;
     (case r of
        None \<Rightarrow> collect rs allIps lastReply
      | Some ips \<Rightarrow> collect rs (foldl add_ip allIps ips) (Some reply)) }"

definition doh_responses :: "'k worker \<Rightarrow> nat \<Rightarrow> bytes \<Rightarrow> bytes option list" where
  "doh_responses W rounds q = concat (map (\<lambda>r. map (\<lambda>url. queryDoh W r url q) DOH_ENDPOINTS) [0..<rounds])"

text \<open>A response is its status and its body.\<close>

definition worker_answer :: "'k worker \<Rightarrow> bytes \<Rightarrow> bytes \<Rightarrow> (nat \<times> bytes) run" where
  "worker_answer W rawKeyBytes dnsQuery = do {
     questionType \<leftarrow> getQuestionType dnsQuery;
     let isAQuery = (questionType = 1);
     (allIps, lastReply) \<leftarrow> collect (doh_responses W (if isAQuery then 3 else 1) dnsQuery) [] None;
     (case lastReply of
        None \<Rightarrow> Some (502, lit ''upstream failed'')
      | Some reply \<Rightarrow>
          js_catch
            (js_then (if isAQuery then rewriteAnswersWithIps reply allIps else returns reply) (\<lambda>finalReply.
             js_then (encodeForRelay W finalReply rawKeyBytes) (\<lambda>encryptedReply. returns (200, encryptedReply))))
            (500, lit ''internal error'')) }"

definition worker_fetch :: "'k worker \<Rightarrow> bool \<Rightarrow> bytes \<Rightarrow> (nat \<times> bytes) run" where
  "worker_fetch W is_post body =
     (if \<not> is_post then Some (404, lit ''not found'')
      else case raw_key W of
        None \<Rightarrow> Some (500, lit ''internal error'')
      | Some rawKeyBytes \<Rightarrow>
          (case decodeFromRelay W body rawKeyBytes of
             None \<Rightarrow> Some (400, lit ''bad request'')
           | Some dnsQuery \<Rightarrow> worker_answer W rawKeyBytes dnsQuery))"

section \<open>The walkers of both sides\<close>

lemma js_then_simps [simp]:
  "js_then (returns x) f = f x" "js_then throws f = throws" "js_then None f = None"
  by (simp_all add: js_then_def)

lemma js_catch_simps [simp]: "js_catch (returns x) h = Some x" "js_catch throws h = Some h" "js_catch None h = None"
  by (simp_all add: js_catch_def)

lemma get_uint16_in: "off + 1 < length p \<Longrightarrow> get_uint16 p off = returns (be16 (p ! off) (p ! (off + 1)))"
  by (simp add: get_uint16_def run_simps)

lemma get_rdlength:
  "q + 10 \<le> length p \<Longrightarrow> get_uint16 p (q + 8) = returns (be16 (p ! (q + 8)) (p ! (q + 9)))"
  using get_uint16_in [of "q + 8" p] by (simp add: add.commute [of _ q])

lemma js_skip_name_skip:
  assumes "js_skip_name p off = Some e"
  shows "skip_name p off = Some (Some e)"
proof (rule js_skip_name.raw_induct [where P = "\<lambda>p off e. skip_name p off = Some (Some e)", OF _ assms], goal_cases)
  case (1 f p off e)
  show ?case
  proof (cases "length p \<le> off")
    case True
    with 1(2) show ?thesis by (intro 1(1)) simp
  next
    case False
    with 1 show ?thesis by (auto simp: skip_name_eqs split: if_splits)
  qed
qed

lemma skip_name_js_skip: "skip_name p off = Some (Some e) \<Longrightarrow> js_skip_name p off = Some e"
  by (induction off rule: skip_induct [of p]; subst js_skip_name.simps) (simp_all add: skip_name_eqs)

text \<open>Where the Rust code stops with \<open>None\<close>, at the end of the message, the script goes on for ever.\<close>

lemma js_skip_name_iff: "js_skip_name p off = Some e \<longleftrightarrow> skip_name p off = Some (Some e)"
  using js_skip_name_skip skip_name_js_skip by blast

lemma js_skip_questions_iff: "js_skip_questions n p off = Some e \<longleftrightarrow> skip_questions n p off = Some (Some e)"
  by (induction n arbitrary: off) (auto simp: bind_eq_Some_conv js_skip_name_iff split: option.splits)

lemma js_skip_answers_rrs: "skip_rrs n p off = Some (Some e) \<Longrightarrow> js_skip_answers n p off = returns e"
proof (induction n arbitrary: off)
  case (Suc n)
  then obtain o' where o': "skip_rr p off = Some (Some o')" "skip_rrs n p o' = Some (Some e)"
    by (auto simp: bind_eq_Some_conv split: option.splits)
  from o'(1) obtain q where q: "skip_name p off = Some (Some q)" "o' = q + 10 + unat (be16 (p ! (q + 8)) (p ! (q + 9)))"
    "o' \<le> length p" by (rule skip_rr_nameE)
  then have "get_uint16 p (q + 8) = returns (be16 (p ! (q + 8)) (p ! (q + 9)))" by (intro get_rdlength) simp
  with q Suc.IH [OF o'(2)] show ?case by (simp add: js_skip_name_iff [THEN iffD2])
qed simp

text \<open>A reply whose questions and answers are there to their last byte.\<close>

definition whole_reply :: "bytes \<Rightarrow> nat \<Rightarrow> nat \<Rightarrow> bool" where
  "whole_reply b qe e \<longleftrightarrow> 12 \<le> length b \<and> skip_questions (unat (be16 (b ! 4) (b ! 5))) b 12 = Some (Some qe) \<and>
     skip_rrs (unat (be16 (b ! 6) (b ! 7))) b qe = Some (Some e) \<and> e \<le> length b"

definition js_ip_of :: "ipv4 \<Rightarrow> js_ip" where
  "js_ip_of ip = (case ip of (a, b, c, d) \<Rightarrow> [Some a, Some b, Some c, Some d])"

lemma js_ip_of_inj: "inj js_ip_of"
  by (auto simp: inj_def js_ip_of_def split: prod.splits)

text \<open>On such a reply the script reads what \<open>parse_a_records\<close> reads.\<close>

lemma js_answers_read:
  "skip_rrs n p off = Some (Some e) \<Longrightarrow>
     \<exists>ips'. read_answers n p off ips = Some ips' \<and> js_answers n p off (map js_ip_of ips) = returns (map js_ip_of ips')"
proof (induction n arbitrary: off ips)
  case (Suc n)
  then obtain o' where o': "skip_rr p off = Some (Some o')" "skip_rrs n p o' = Some (Some e)"
    by (auto simp: bind_eq_Some_conv split: option.splits)
  from o'(1) obtain q where q: "skip_name p off = Some (Some q)" and e: "o' = q + 10 + unat (be16 (p ! (q + 8)) (p ! (q + 9)))"
    "o' \<le> length p" by (rule skip_rr_nameE)
  let ?rdl = "be16 (p ! (q + 8)) (p ! (q + 9))"
  let ?ips = "if be16 (p ! q) (p ! (q + 1)) = 1 \<and> unat ?rdl = 4
    then ips @ [(p ! (q + 10), p ! (q + 11), p ! (q + 12), p ! (q + 13))] else ips"
  have four: "?rdl = 4 \<longleftrightarrow> unat ?rdl = 4" by (simp add: word_unat_eq_iff)
  have len: "q + 10 \<le> length p" "q + 1 < length p" using e by simp_all
  have "read_answers (Suc n) p off ips = read_answers n p o' ?ips"
    using q e by (auto simp: run_simps Let_def ac_simps)
  moreover have "js_answers (Suc n) p off (map js_ip_of ips) = js_answers n p o' (map js_ip_of ?ips)"
    using q e by (auto simp: js_skip_name_iff [THEN iffD2] get_rdlength [OF len(1)] get_uint16_in [OF len(2)] four
        js_ip_at_def js_ip_of_def add.commute [of _ q])
  ultimately show ?case using Suc.IH [OF o'(2), of ?ips] by simp
qed simp

lemma extract_whole:
  assumes "whole_reply b qe e"
  shows "\<exists>ips. parse_a_records b = Some ips \<and> extractARecords b = returns (map js_ip_of ips)"
proof -
  have b: "12 \<le> length b" "skip_questions (unat (be16 (b ! 4) (b ! 5))) b 12 = Some (Some qe)"
    "skip_rrs (unat (be16 (b ! 6) (b ! 7))) b qe = Some (Some e)"
    using assms by (simp_all add: whole_reply_def)
  with js_answers_read [OF b(3), of "[]"] show ?thesis
    by (auto simp: parse_a_records_def run_simps extractARecords_def get_uint16_in js_skip_questions_iff [THEN iffD2])
qed

section \<open>The rewritten reply\<close>

lemma buildARecord_redirect: "buildARecord (js_ip_of ip) = redirect_record [0, 1] [0, 1] ip"
  by (cases ip) (simp add: buildARecord_def js_ip_of_def)

lemma set_uint16_same: "Suc i < length b \<Longrightarrow> set_uint16 b i (be16 (b ! i) (b ! Suc i)) = b"
  using to_be16_be16 [of "b ! i" "b ! Suc i"] by (simp add: set_uint16_def to_be16_def)

lemma set_uint16_nth [simp]: "j \<noteq> i \<Longrightarrow> j \<noteq> Suc i \<Longrightarrow> set_uint16 b i w ! j = b ! j"
  and length_set_uint16 [simp]: "length (set_uint16 b i w) = length b"
  by (simp_all add: set_uint16_def)

definition rewritten :: "bytes \<Rightarrow> nat \<Rightarrow> nat \<Rightarrow> ipv4 list \<Rightarrow> bytes" where
  "rewritten b qe e ips = set_uint16 (take 12 b) 6 (of_nat (length ips)) @ take (qe - 12) (drop 12 b) @
     concat (map (redirect_record [0, 1] [0, 1]) ips) @ drop e b"

lemma rewrite_whole:
  assumes "whole_reply b qe e"
  shows "rewriteAnswersWithIps b (map js_ip_of ips) = returns (rewritten b qe e ips)"
proof -
  have b: "12 \<le> length b" "skip_questions (unat (be16 (b ! 4) (b ! 5))) b 12 = Some (Some qe)"
    "skip_rrs (unat (be16 (b ! 6) (b ! 7))) b qe = Some (Some e)"
    using assms by (simp_all add: whole_reply_def)
  let ?h = "set_uint16 (take 12 b) 6 (of_nat (length ips))"
  have at: "?h ! 8 = b ! 8" "?h ! Suc 8 = b ! 9" "?h ! 10 = b ! 10" "?h ! Suc 10 = b ! 11" by simp_all
  then have "set_uint16 ?h 8 (be16 (b ! 8) (b ! 9)) = ?h" "set_uint16 ?h 10 (be16 (b ! 10) (b ! 11)) = ?h"
    using b(1) set_uint16_same [of 8 ?h] set_uint16_same [of 10 ?h] by simp_all
  then show ?thesis
    using b(1) js_skip_questions_iff [THEN iffD2, OF b(2)] js_skip_answers_rrs [OF b(3)]
    by (simp add: rewriteAnswersWithIps_def get_uint16_in rewritten_def js_slice_def buildARecord_redirect comp_def)
qed

lemma read_redirect_records_then:
  "drop pos b = concat (map (redirect_record [0, 1] [0, 1]) ips) @ rest \<Longrightarrow>
     read_answers (length ips) b pos acc = Some (acc @ ips)"
proof (induction ips arbitrary: pos acc)
  case (Cons ip ips)
  then have at: "drop pos b = redirect_record [0, 1] [0, 1] ip @ concat (map (redirect_record [0, 1] [0, 1]) ips) @ rest"
    by simp
  then have "drop 16 (drop pos b) = concat (map (redirect_record [0, 1] [0, 1]) ips) @ rest" by simp
  then have "drop (pos + 16) b = concat (map (redirect_record [0, 1] [0, 1]) ips) @ rest" by (simp add: add.commute)
  from Cons.IH [OF this, of "acc @ [ip]"] read_redirect_record [OF at, of "length ips" acc] show ?case
    by (simp add: be16_def del: read_answers.simps)
qed simp

lemma rewritten_reads_back:
  assumes "whole_reply b qe e" "length ips < 65536"
  shows "parse_a_records (rewritten b qe e ips) = Some ips \<and> take 6 (rewritten b qe e ips) = take 6 b"
proof -
  let ?out = "rewritten b qe e ips"
  have b: "12 \<le> length b" "skip_questions (unat (be16 (b ! 4) (b ! 5))) b 12 = Some (Some qe)"
    "skip_rrs (unat (be16 (b ! 6) (b ! 7))) b qe = Some (Some e)" "e \<le> length b"
    using assms(1) by (simp_all add: whole_reply_def)
  have qe: "12 \<le> qe" "qe \<le> length b" using skip_questions_mono [OF b(2)] skip_rrs_mono [OF b(3)] b(4) by simp_all
  have nth: "?out ! i = b ! i" if "i < 6 \<or> 8 \<le> i" "i < qe" for i
    using that b(1) qe by (auto simp: rewritten_def nth_append)
  have six: "?out ! 6 = ucast (drop_bit 8 (of_nat (length ips) :: u16))" "?out ! 7 = ucast (of_nat (length ips) :: u16)"
    using b(1) by (simp_all add: rewritten_def nth_append set_uint16_def)
  have len: "length ?out = qe + length (concat (map (redirect_record [0, 1] [0, 1]) ips)) + (length b - e)"
    using b(1) qe by (simp add: rewritten_def)
  have "agree b ?out 12 qe" using nth qe len by (auto simp: agree_def)
  with b(2) have q: "skip_questions (unat (be16 (b ! 4) (b ! 5))) ?out 12 = Some (Some qe)"
    by (rule skip_questions_agree) simp
  have "drop qe ?out = concat (map (redirect_record [0, 1] [0, 1]) ips) @ drop e b"
    using b(1) qe by (simp add: rewritten_def)
  from read_redirect_records_then [OF this, of "[]"] have "parse_a_records ?out = Some ips"
    using q six len qe assms(2) nth [of 4] nth [of 5] by (simp add: parse_a_records_def run_simps)
  moreover have "take 6 ?out = take 6 b"
    using nth qe len b(1) by (intro nth_equalityI) auto
  ultimately show ?thesis by blast
qed

section \<open>Collecting the replies\<close>

definition reply_addresses :: "bytes \<Rightarrow> ipv4 list" where
  "reply_addresses b = (case parse_a_records b of Some ips \<Rightarrow> ips | None \<Rightarrow> [])"

text \<open>The first occurrences of all addresses, in their order.\<close>

definition all_addresses :: "bytes list \<Rightarrow> ipv4 list" where
  "all_addresses bs = rev (remdups (rev (concat (map reply_addresses bs))))"

fun somes :: "'a option list \<Rightarrow> 'a list" where
  "somes [] = []"
| "somes (None # rs) = somes rs"
| "somes (Some x # rs) = x # somes rs"

definition received :: "'k worker \<Rightarrow> nat \<Rightarrow> bytes \<Rightarrow> bytes list" where
  "received W rounds q = somes (doh_responses W rounds q)"

lemma mem_js_ip [simp]: "js_ip_of y \<in> js_ip_of ` A \<longleftrightarrow> y \<in> A"
  by (rule inj_image_mem_iff [OF js_ip_of_inj])

lemma add_ips: "foldl add_ip (map js_ip_of (rev (remdups (rev xs)))) (map js_ip_of ys) = map js_ip_of (rev (remdups (rev (xs @ ys))))"
proof (induction ys rule: rev_induct)
  case (snoc y ys)
  then show ?case by (auto simp: add_ip_def)
qed simp

lemma collect_whole:
  "\<forall>b \<in> set (somes rs). \<exists>qe e. whole_reply b qe e \<Longrightarrow>
     collect rs (map js_ip_of (rev (remdups (rev ips)))) lst =
       Some (map js_ip_of (rev (remdups (rev (ips @ concat (map reply_addresses (somes rs)))))),
         if somes rs = [] then lst else Some (last (somes rs)))"
proof (induction rs arbitrary: ips lst rule: somes.induct)
  case (3 b rs)
  then obtain qe e where "whole_reply b qe e" by auto
  then obtain new where new: "parse_a_records b = Some new" "extractARecords b = returns (map js_ip_of new)"
    using extract_whole by blast
  show ?case
    using "3.IH" [of "ips @ new" "Some b"] "3.prems" new
    by (simp add: add_ips reply_addresses_def del: rev_append)
qed simp_all

lemma A_question:
  assumes "host_name d"
  shows "getQuestionType (build_lookup_query txid d) = Some 1"
proof -
  let ?p = "build_lookup_query txid d" and ?q = "12 + length (trim_end_dots d) + 2"
  have "parse_name (\<lambda>s. s) ?p 12 [] = Some (Some (map ascii_lower (trim_end_dots d), ?q))"
    using parse_build_lookup_query [OF assms] by (simp add: parse_domain_def)
  then have "js_skip_name ?p 12 = Some ?q"
    using parse_name_skip_name by (auto simp: js_skip_name_iff)
  moreover have p: "drop 12 ?p = enc_name (split_on dot (trim_end_dots d)) @ [0, 0, 1, 0, 1]"
    by (simp add: build_lookup_query_def to_be16_def enc_name_def)
  have "length ?p = ?q + 4"
    by (simp add: build_lookup_query_def enc_name_def [symmetric] length_enc_name)
  moreover have "drop ?q ?p = drop (length (trim_end_dots d) + 2) (drop 12 ?p)" by (simp add: add.commute)
  then have "drop ?q ?p = [0, 1, 0, 1]" unfolding p by (simp add: length_enc_name)
  with \<open>length ?p = ?q + 4\<close> have "?p ! ?q = 0" "?p ! (?q + 1) = 1"
    using nth_drop [of ?q ?p 0] nth_drop [of ?q ?p 1] by simp_all
  ultimately show ?thesis by (simp add: getQuestionType_def js_bits_def)
qed

section \<open>Properties\<close>

text \<open>The key that both sides share, and a nonce of its length.\<close>

definition worker_has :: "'k worker \<Rightarrow> 'k \<Rightarrow> bool" where
  "worker_has W key \<longleftrightarrow> (\<exists>raw. raw_key W = Some raw \<and> importKey W raw = Some key) \<and> length (worker_nonce W) = 12"

lemma worker_fetch_opened:
  assumes "worker_has W key" "decode_from_relay (worker_cipher W) key body = Some q"
  shows "\<exists>raw. importKey W raw = Some key \<and> worker_fetch W True body = worker_answer W raw q"
  using assms by (auto simp: worker_has_def worker_fetch_def decodeFromRelay_def decode_from_relay_def js_slice_def split: if_splits)

lemma rewritten_length:
  assumes "whole_reply b qe e"
  shows "length (rewritten b qe e ips) \<le> length b + 16 * length ips"
proof -
  have "12 \<le> qe" "qe \<le> e" "e \<le> length b"
    using assms skip_questions_mono skip_rrs_mono by (auto simp: whole_reply_def)
  moreover have "length (concat (map (redirect_record [0, 1] [0, 1]) ips)) = 16 * length ips" by (induction ips) simp_all
  ultimately show ?thesis by (simp add: rewritten_def)
qed

lemma rewritten_header:
  assumes "whole_reply b qe e"
  shows "take 12 (rewritten b qe e ips) = take 6 b @ to_be16 (of_nat (length ips)) @ take 4 (drop 8 b)"
proof -
  have len: "12 \<le> length b" using assms by (simp add: whole_reply_def)
  have "take 12 (rewritten b qe e ips) = set_uint16 (take 12 b) 6 (of_nat (length ips))"
    using len by (simp add: rewritten_def)
  also have "\<dots> = take 6 b @ to_be16 (of_nat (length ips)) @ take 4 (drop 8 b)"
  proof (rule nth_equalityI)
    fix i
    assume "i < length (set_uint16 (take 12 b) 6 (of_nat (length ips)))"
    then have "i < 12" using len by simp
    then consider "i < 6" | "i = 6" | "i = 7" | "8 \<le> i" by linarith
    then show "set_uint16 (take 12 b) 6 (of_nat (length ips)) ! i = (take 6 b @ to_be16 (of_nat (length ips)) @ take 4 (drop 8 b)) ! i"
      using len \<open>i < 12\<close> by cases (simp_all add: set_uint16_def to_be16_def nth_append)
  qed (use len in \<open>simp add: to_be16_def\<close>)
  finally show ?thesis .
qed

text \<open>What the worker does with a question of type \<open>ty\<close>: three rounds for addresses, one for the rest.\<close>

lemma worker_answers:
  assumes "aead_contract (worker_cipher W)" "worker_has W key"
    and "decode_from_relay (worker_cipher W) key body = Some q" "getQuestionType q = Some ty"
    and "rs = received W (if ty = 1 then 3 else 1) q" "rs \<noteq> []"
    and "\<forall>b \<in> set rs. length b < 65536 \<and> (\<exists>qe e. whole_reply b qe e)" "length (all_addresses rs) < 65536"
  shows "\<exists>packet out. worker_fetch W True body = Some (200, packet) \<and>
    decode_from_relay (worker_cipher W) key packet = Some out \<and>
    (if ty = 1 then parse_a_records out = Some (all_addresses rs) \<and>
       take 12 out = take 6 (last rs) @ to_be16 (of_nat (length (all_addresses rs))) @ take 4 (drop 8 (last rs))
     else out = last rs)"
proof -
  let ?ips = "all_addresses rs" and ?b = "last rs"
  obtain raw where raw: "importKey W raw = Some key" "worker_fetch W True body = worker_answer W raw q"
    using worker_fetch_opened [OF assms(2,3)] by blast
  have "?b \<in> set rs" using assms(6) by simp
  then obtain qe e where b: "whole_reply ?b qe e" "length ?b < 65536" using assms(7) by blast
  define final where "final = (if ty = 1 then rewritten ?b qe e ?ips else ?b)"
  have col: "collect (doh_responses W (if ty = 1 then 3 else 1) q) [] None = Some (map js_ip_of ?ips, Some ?b)"
    using collect_whole [of "doh_responses W (if ty = 1 then 3 else 1) q" "[]" None] assms(5-7)
    by (auto simp: received_def all_addresses_def)
  have len: "length final < 2 ^ 32"
    using rewritten_length [OF b(1), of ?ips] b(2) assms(8) by (simp add: final_def)
  obtain c where c: "aead_encrypt (worker_cipher W) key (worker_nonce W) final = Some c"
    using aead_contract.encrypt_total [OF assms(1) _ len] assms(2) by (auto simp: worker_has_def)
  have made: "(if ty = 1 then rewriteAnswersWithIps ?b (map js_ip_of ?ips) else returns ?b) = returns final"
    using rewrite_whole [OF b(1), of ?ips] by (simp add: final_def)
  have "worker_fetch W True body = Some (200, worker_nonce W @ c)"
    unfolding raw(2) worker_answer_def assms(4) using col c raw(1) made
    by (cases "ty = 1") (simp_all add: encodeForRelay_def)
  moreover have "decode_from_relay (worker_cipher W) key (worker_nonce W @ c) = Some final"
    using aead_contract.relay_decode_sealed [OF assms(1) _ c] assms(2) by (simp add: worker_has_def)
  ultimately show ?thesis
    using rewritten_reads_back [OF b(1) assms(8)] rewritten_header [OF b(1), of ?ips] by (auto simp: final_def)
qed

end
