(* ===== verification/Relay_Chain.thy ===== *)
theory Relay_Chain
  imports Relay_Worker Metric_Report
begin

text \<open>
  The whole way of a query through a relay: the client of \<open>dns_relay/src/relay.rs\<close>, the Apps Script hop
  \<open>assets/relay_google_script.js\<close> with its cache, and the worker of theory \<open>Relay_Worker\<close>.

  A request of the script is the fields \<open>k\<close> and \<open>data\<close> of its JSON body, texts if they are there; a body that is
  no JSON is \<open>None\<close>. \<open>CacheService\<close> keeps a value until its time is over, or less; time is in seconds.
\<close>

section \<open>The script\<close>

definition CACHE_TTL_SECONDS :: nat where "CACHE_TTL_SECONDS = 300"

type_synonym script_cache = "rstr \<Rightarrow> (rstr \<times> nat) option"

text \<open>\<open>None\<close> stands for an exception: of \<open>base64Decode\<close>, of \<open>fetch\<close> at a moment. \<open>cache_takes\<close> says whether \<open>put\<close>
  accepts a key and a value (their lengths are limited), \<open>thrown\<close> is the text of an exception.\<close>

record script =
  workerUrl :: rstr
  base64Decode :: "rstr \<Rightarrow> bytes option"
  base64Encode :: "bytes \<Rightarrow> rstr"
  urlFetch :: "nat \<Rightarrow> rstr \<Rightarrow> bytes \<Rightarrow> (nat \<times> bytes) option"
  cache_takes :: "rstr \<Rightarrow> rstr \<Rightarrow> bool"
  thrown :: rstr

datatype script_reply = ScriptData rstr | ScriptError rstr

definition cache_get :: "nat \<Rightarrow> script_cache \<Rightarrow> rstr \<Rightarrow> rstr option" where
  "cache_get now c k = (case c k of Some (v, till) \<Rightarrow> if now < till then Some v else None | None \<Rightarrow> None)"

text \<open>A text is false when it is missing or empty.\<close>

definition truthy :: "rstr option \<Rightarrow> bool" where
  "truthy x \<longleftrightarrow> x \<noteq> None \<and> x \<noteq> Some []"

definition script_fetch :: "script \<Rightarrow> nat \<Rightarrow> rstr \<Rightarrow> rstr \<Rightarrow> script_cache \<Rightarrow> script_reply \<times> script_cache" where
  "script_fetch S now cacheKey dataB64 c =
     (case base64Decode S dataB64 of
        None \<Rightarrow> (ScriptError (thrown S), c)
      | Some bytes \<Rightarrow>
          (case urlFetch S now (workerUrl S) bytes of
             None \<Rightarrow> (ScriptError (thrown S), c)
           | Some (code, content) \<Rightarrow>
               if code \<noteq> 200 then (ScriptError (lit ''upstream error: '' @ show_nat code), c)
               else let replyB64 = base64Encode S content in
                 if cache_takes S cacheKey replyB64
                 then (ScriptData replyB64, c(cacheKey \<mapsto> (replyB64, now + CACHE_TTL_SECONDS)))
                 else (ScriptError (thrown S), c)))"

definition doPost ::
  "script \<Rightarrow> nat \<Rightarrow> (rstr option \<times> rstr option) option \<Rightarrow> script_cache \<Rightarrow> script_reply \<times> script_cache" where
  "doPost S now body c =
     (case body of
        None \<Rightarrow> (ScriptError (thrown S), c)
      | Some (k, data) \<Rightarrow>
          if \<not> truthy k \<or> \<not> truthy data then (ScriptError (lit ''bad request''), c)
          else let cached = cache_get now c (the k) in
            if truthy cached then (ScriptData (the cached), c)
            else if workerUrl S = [] then (ScriptError (lit ''worker url not configured''), c)
            else script_fetch S now (the k) (the data) c)"

section \<open>The two transports\<close>

text \<open>What the HTTP client sees of the worker; without an end the platform stops it.\<close>

definition worker_outcome :: "'k worker \<Rightarrow> bytes \<Rightarrow> http_outcome" where
  "worker_outcome W body =
     (case worker_fetch W True body of None \<Rightarrow> RequestTimeout | Some (status, b) \<Rightarrow> Response status (Some b))"

definition script_json :: "script_reply \<Rightarrow> json_outcome" where
  "script_json r = (case r of ScriptData d \<Rightarrow> JsonReply None (Some d) | ScriptError e \<Rightarrow> JsonReply (Some e) None)"

text \<open>The crates of a client whose relays are this worker, and this script with the cache \<open>c\<close>.\<close>

definition with_worker :: "'k relay_env \<Rightarrow> 'k worker \<Rightarrow> 'k relay_env" where
  "with_worker E W = E\<lparr>relay_post := \<lambda>_ _. worker_outcome W\<rparr>"

definition with_script :: "'k relay_env \<Rightarrow> script \<Rightarrow> nat \<Rightarrow> script_cache \<Rightarrow> 'k relay_env" where
  "with_script E S now c =
     E\<lparr>relay_post_json := \<lambda>_ _ (data, k). script_json (fst (doPost S now (Some (Some k, Some data)) c))\<rparr>"

lemma with_sel [simp]:
  "cipher (with_worker E W) = cipher E" "relay_post (with_worker E W) http url = worker_outcome W"
  "cipher (with_script E S now c) = cipher E" "b64_encode (with_script E S now c) = b64_encode E"
  "b64_decode (with_script E S now c) = b64_decode E" "hmac_sha256 (with_script E S now c) = hmac_sha256 E"
  "relay_post_json (with_script E S now c) http url (d, k) = script_json (fst (doPost S now (Some (Some k, Some d)) c))"
  "cache_key_for_domain (with_script E S now c) key name = cache_key_for_domain E key name"
  by (simp_all add: with_worker_def with_script_def cache_key_for_domain_def)

section \<open>Through the worker\<close>

text \<open>What the resolvers of the worker answered can be read to its end, and fits the format.\<close>

definition readable :: "bytes list \<Rightarrow> bool" where
  "readable bs \<longleftrightarrow> (\<forall>b \<in> set bs. length b < 65536 \<and> (\<exists>qe e. whole_reply b qe e)) \<and> length (all_addresses bs) < 65536"

lemma direct_opened:
  assumes "aead_contract (cipher E)" "length nonce = 12" "length payload < 2 ^ 32"
  shows "\<exists>packet. encode_for_relay (cipher E) key nonce payload = Some packet \<and>
    decode_from_relay (cipher E) key packet = Some payload"
proof -
  obtain c where "aead_encrypt (cipher E) key nonce payload = Some c"
    using aead_contract.encrypt_total [OF assms] by blast
  then show ?thesis
    using aead_contract.relay_decode_sealed [OF assms(1,2)] by (simp add: encode_for_relay_def)
qed

lemma host_query_length: "length (build_lookup_query txid d) = length (trim_end_dots d) + 18"
  by (simp add: build_lookup_query_def enc_name_def [symmetric] length_enc_name)

lemma worker_no_reply:
  assumes "worker_has W key" "decode_from_relay (worker_cipher W) key body = Some q" "getQuestionType q = Some ty"
    and "received W (if ty = 1 then 3 else 1) q = []"
  shows "worker_fetch W True body = Some (502, lit ''upstream failed'')"
proof -
  let ?n = "if ty = 1 then 3 else 1 :: nat"
  obtain raw where "worker_fetch W True body = worker_answer W raw q" using worker_fetch_opened [OF assms(1,2)] by blast
  moreover have "collect (doh_responses W ?n q) [] None = Some ([], None)"
    using collect_whole [of "doh_responses W ?n q" "[]" None] assms(4) by (simp add: received_def)
  ultimately show ?thesis using assms(3) by (simp add: worker_answer_def)
qed

text \<open>Error texts of the worker are too short for a sealed message.\<close>

lemma js_catch_status:
  "js_catch (js_then r (\<lambda>x. js_then (f x) (\<lambda>y. returns (200, y)))) (500, e) = Some (status, b) \<Longrightarrow> status \<noteq> 200 \<Longrightarrow> b = e"
  by (auto simp: js_catch_def js_then_def split: option.splits)

lemma worker_error_text:
  assumes "worker_fetch W True body = Some (status, b)" "status \<noteq> 200"
  shows "b \<in> {lit ''internal error'', lit ''bad request'', lit ''upstream failed''}"
proof (cases "raw_key W")
  case None
  with assms show ?thesis by (simp add: worker_fetch_def)
next
  case (Some raw)
  show ?thesis
  proof (cases "decodeFromRelay W body raw")
    case None
    with Some assms show ?thesis by (simp add: worker_fetch_def)
  next
    case dec: (Some q)
    then obtain ty ips lst where "getQuestionType q = Some ty"
      "(case lst of None \<Rightarrow> Some (502, lit ''upstream failed'')
        | Some reply \<Rightarrow> js_catch (js_then (if ty = 1 then rewriteAnswersWithIps reply ips else returns reply)
            (\<lambda>x. js_then (encodeForRelay W x raw) (\<lambda>y. returns (200, y)))) (500, lit ''internal error'')) = Some (status, b)"
      using Some assms(1) by (auto simp: worker_fetch_def worker_answer_def bind_eq_Some_conv Let_def simp del: One_nat_def split: prod.splits)
    then show ?thesis by (cases lst) (auto dest!: js_catch_status [OF _ assms(2)])
  qed
qed

lemma error_body_unsealed:
  assumes "aead_contract (cipher E)" "worker_fetch W True body = Some (status, b)" "status \<noteq> 200"
  shows "decode_from_relay (cipher E) key b = None"
proof -
  have "length b < 28" using worker_error_text [OF assms(2,3)] by (auto simp: lit_def)
  then show ?thesis
  proof (cases "length b < 12")
    case False
    then have "length (take 12 b) = 12" by simp
    from aead_contract.decrypt_iff [OF assms(1) this] aead_contract.encrypt_length [OF assms(1)] \<open>length b < 28\<close>
    show ?thesis by (cases "aead_decrypt (cipher E) key (take 12 b) (drop 12 b)") (force simp: decode_from_relay_def)+
  qed (simp add: decode_from_relay_def)
qed

lemma lookup_through:
  assumes "aead_contract (cipher E)" "worker_cipher W = cipher E" "worker_has W key" "length nonce = 12"
    and "host_name d" "length d < 65536" "readable (received W 3 (build_lookup_query txid d))"
  shows "resolve_domain_via_relay (with_worker E W) http url key nonce txid d =
    Some (let ips = all_addresses (received W 3 (build_lookup_query txid d)) in if ips = [] then Inl Config else Inr ips)"
proof -
  let ?q = "build_lookup_query txid d"
  have "length (trim_end_dots d) \<le> length d" using length_dropWhile_le [of "\<lambda>c. c = dot" "rev d"] by (simp add: trim_end_dots_def)
  then have "length ?q < 2 ^ 32" using assms(6) by (simp add: host_query_length)
  from direct_opened [OF assms(1,4) this] obtain packet where packet:
    "encode_for_relay (cipher E) key nonce ?q = Some packet" "decode_from_relay (worker_cipher W) key packet = Some ?q"
    using assms(2) by auto
  show ?thesis
  proof (cases "received W 3 ?q = []")
    case True
    from worker_no_reply [OF assms(3) packet(2) A_question [OF assms(5)]] True show ?thesis
      using packet(1) True
      by (simp add: resolve_domain_via_relay_def worker_outcome_def is_success_def all_addresses_def)
  next
    case False
    have "aead_contract (worker_cipher W)" using assms(1,2) by simp
    from worker_answers [OF this assms(3) packet(2) A_question [OF assms(5)], simplified, OF refl False] assms(7)
    obtain p out where "worker_fetch W True packet = Some (200, p)" "decode_from_relay (worker_cipher W) key p = Some out"
      "parse_a_records out = Some (all_addresses (received W 3 ?q))"
      unfolding readable_def by blast
    then show ?thesis
      using packet(1) assms(2)
      by (simp add: resolve_domain_via_relay_def worker_outcome_def is_success_def Let_def)
  qed
qed

lemma query_through:
  assumes "aead_contract (cipher E)" "worker_cipher W = cipher E" "worker_has W key" "length nonce = 12"
    and "length payload < 65536" "getQuestionType payload = Some ty"
    and "rs = received W (if ty = 1 then 3 else 1) payload" "readable rs"
  shows "if rs = [] then resolve_via_relay (with_worker E W) http url key nonce payload = Some (Inl Config)
    else \<exists>out. resolve_via_relay (with_worker E W) http url key nonce payload = Some (Inr out) \<and>
      (if ty = 1 then parse_a_records out = Some (all_addresses rs) \<and>
         take 12 out = take 6 (last rs) @ to_be16 (of_nat (length (all_addresses rs))) @ take 4 (drop 8 (last rs))
       else out = last rs)"
proof -
  have "length payload < 2 ^ 32" using assms(5) by simp
  from direct_opened [OF assms(1,4) this] obtain packet where packet:
    "encode_for_relay (cipher E) key nonce payload = Some packet" "decode_from_relay (worker_cipher W) key packet = Some payload"
    using assms(2) by auto
  have A: "aead_contract (worker_cipher W)" using assms(1,2) by simp
  show ?thesis
  proof (cases "rs = []")
    case True
    then have w: "worker_fetch W True packet = Some (502, lit ''upstream failed'')"
      using worker_no_reply [OF assms(3) packet(2) assms(6)] assms(7) by simp
    with True error_body_unsealed [OF assms(1) w] packet(1) show ?thesis
      by (simp add: resolve_via_relay_def worker_outcome_def)
  next
    case False
    from worker_answers [OF A assms(3) packet(2) assms(6,7) False] assms(8) obtain p out where
      out: "worker_fetch W True packet = Some (200, p)" "decode_from_relay (worker_cipher W) key p = Some out"
        "if ty = 1 then parse_a_records out = Some (all_addresses rs) \<and>
           take 12 out = take 6 (last rs) @ to_be16 (of_nat (length (all_addresses rs))) @ take 4 (drop 8 (last rs))
         else out = last rs"
      unfolding readable_def by blast
    then have "resolve_via_relay (with_worker E W) http url key nonce payload = Some (Inr out)"
      using packet(1) assms(2) by (simp add: resolve_via_relay_def worker_outcome_def)
    with out(3) False show ?thesis by simp
  qed
qed

section \<open>Through the script\<close>

text \<open>A script in front of the worker, with the base64 of the client.\<close>

definition script_over :: "script \<Rightarrow> 'k relay_env \<Rightarrow> 'k worker \<Rightarrow> bool" where
  "script_over S E W \<longleftrightarrow> workerUrl S \<noteq> [] \<and> base64Decode S = b64_decode E \<and> base64Encode S = b64_encode E \<and>
     (\<forall>now body. urlFetch S now (workerUrl S) body = worker_fetch W True body) \<and>
     (\<forall>bs. b64_decode E (b64_encode E bs) = Some bs) \<and> (\<forall>bs. b64_encode E bs = [] \<longrightarrow> bs = [])"

lemma doPost_cold:
  assumes "script_over S E W" "cache_get now c k = None" "k \<noteq> []" "d \<noteq> []"
  shows "doPost S now (Some (Some k, Some d)) c = script_fetch S now k d c"
  using assms by (simp add: doPost_def truthy_def script_over_def)

lemma encoded_nonempty: "script_over S E W \<Longrightarrow> encode_for_relay (cipher E) key nonce q = Some p \<Longrightarrow> length nonce = 12 \<Longrightarrow> b64_encode E p \<noteq> []"
  by (auto simp: script_over_def encode_for_relay_def bind_eq_Some_conv)

lemma script_cold:
  assumes "aead_contract (cipher E)" "worker_cipher W = cipher E" "length nonce = 12" "script_over S E W"
    and "cache_get now c (cache_key_for_domain E key name) = None" "cache_key_for_domain E key name \<noteq> []"
    and "\<And>r. cache_takes S (cache_key_for_domain E key name) r"
  shows "resolve_via_relay_apps_script (with_script E S now c) http url key nonce name q =
    resolve_via_relay (with_worker E W) http' url' key nonce q"
proof (cases "encode_for_relay (cipher E) key nonce q")
  case None
  then show ?thesis by (simp add: resolve_via_relay_apps_script_def resolve_via_relay_def)
next
  case (Some p)
  let ?k = "cache_key_for_domain E key name"
  have S: "base64Decode S (b64_encode E p) = Some p" "urlFetch S now (workerUrl S) p = worker_fetch W True p"
    "\<And>b. b64_decode E (base64Encode S b) = Some b"
    using assms(4) by (simp_all add: script_over_def)
  have post: "doPost S now (Some (Some ?k, Some (b64_encode E p))) c = script_fetch S now ?k (b64_encode E p) c"
    using doPost_cold [OF assms(4,5,6) encoded_nonempty [OF assms(4) Some assms(3)]] .
  show ?thesis
  proof (cases "worker_fetch W True p")
    case None
    with Some post S show ?thesis
      by (simp add: resolve_via_relay_apps_script_def resolve_via_relay_def worker_outcome_def script_fetch_def script_json_def)
  next
    case w: (Some r)
    obtain code b where r: "r = (code, b)" by (cases r)
    show ?thesis
    proof (cases "code = 200")
      case True
      with Some w r post S assms(7) show ?thesis
        by (simp add: resolve_via_relay_apps_script_def resolve_via_relay_def worker_outcome_def script_fetch_def script_json_def Let_def)
    next
      case False
      with error_body_unsealed [OF assms(1)] w r have "decode_from_relay (cipher E) key b = None" by blast
      with False Some w r post S show ?thesis
        by (simp add: resolve_via_relay_apps_script_def resolve_via_relay_def worker_outcome_def script_fetch_def script_json_def)
    qed
  qed
qed

section \<open>What the cache of the script holds\<close>

text \<open>The requests that the script has handled, with their moments and its replies.\<close>

inductive script_history ::
  "script \<Rightarrow> script_cache \<Rightarrow> nat \<Rightarrow> (nat \<times> rstr \<times> rstr \<times> script_reply) list \<Rightarrow> bool" for S where
  start: "script_history S Map.empty 0 []"
| post: "script_history S c t h \<Longrightarrow> t \<le> t' \<Longrightarrow> doPost S t' (Some (Some k, Some d)) c = (r, c') \<Longrightarrow>
    script_history S c' t' (h @ [(t', k, d, r)])"
| evict: "script_history S c t h \<Longrightarrow> script_history S (c(k := None)) t h"

text \<open>The text \<open>v\<close> is what the worker gave at \<open>t\<close> for a request with the tag \<open>k\<close>.\<close>

definition fetched :: "script \<Rightarrow> (nat \<times> rstr \<times> rstr \<times> script_reply) list \<Rightarrow> nat \<Rightarrow> rstr \<Rightarrow> rstr \<Rightarrow> bool" where
  "fetched S h t k v \<longleftrightarrow> (\<exists>d bs content. (t, k, d, ScriptData v) \<in> set h \<and> base64Decode S d = Some bs \<and>
     urlFetch S t (workerUrl S) bs = Some (200, content) \<and> v = base64Encode S content)"

definition script_ok :: "script \<Rightarrow> script_cache \<Rightarrow> (nat \<times> rstr \<times> rstr \<times> script_reply) list \<Rightarrow> bool" where
  "script_ok S c h \<longleftrightarrow>
     (\<forall>k v till. c k = Some (v, till) \<longrightarrow> (\<exists>t. till = t + 300 \<and> fetched S h t k v)) \<and>
     (\<forall>t k d v. (t, k, d, ScriptData v) \<in> set h \<longrightarrow> (\<exists>t0. t < t0 + 300 \<and> fetched S h t0 k v))"

lemma fetched_more: "fetched S h t k v \<Longrightarrow> fetched S (h @ es) t k v"
  by (auto simp: fetched_def)

lemma doPost_cases:
  assumes "doPost S t (Some (Some k, Some d)) c = (r, c')"
  obtains (error) e where "r = ScriptError e" "c' = c"
  | (cached) v till where "r = ScriptData v" "c' = c" "c k = Some (v, till)" "t < till"
  | (fresh) bs content where "r = ScriptData (base64Encode S content)" "base64Decode S d = Some bs"
      "urlFetch S t (workerUrl S) bs = Some (200, content)" "c' = c(k \<mapsto> (base64Encode S content, t + 300))"
proof (cases "truthy (Some k) \<and> truthy (Some d) \<and> truthy (cache_get t c k)")
  case True
  then show ?thesis using assms that(2) by (auto simp: doPost_def cache_get_def truthy_def split: option.splits if_splits)
next
  case False
  then show ?thesis using assms that(1,3)
    by (auto simp: doPost_def script_fetch_def Let_def CACHE_TTL_SECONDS_def split: option.splits if_splits prod.splits)
qed

lemma script_history_ok: "script_history S c t h \<Longrightarrow> script_ok S c h"
proof (induction rule: script_history.induct)
  case (post c t h t' k d r c')
  from post(3) show ?case
  proof (cases rule: doPost_cases)
    case error
    with post(4) show ?thesis by (auto simp: script_ok_def intro: fetched_more) (blast intro: fetched_more)+
  next
    case (cached v till)
    with post(4) show ?thesis by (auto simp: script_ok_def) (blast intro: fetched_more)+
  next
    case (fresh bs content)
    then have new: "fetched S (h @ [(t', k, d, r)]) t' k (base64Encode S content)" by (auto simp: fetched_def)
    with fresh post(4) show ?thesis by (auto simp: script_ok_def) (blast intro: fetched_more less_add_same_cancel1 | force)+
  qed
qed (auto simp: script_ok_def)

section \<open>Properties\<close>

text \<open>C6: Looking a host up through a relay gives the addresses that the three resolvers of the worker gave in three
  rounds, each once and in the order they came, as the client itself would have read them from the replies;
  it is an error when there are none. This is the client and the worker together, whose code is in two
  languages: the sealed packets, the question, the parsing of the replies and the rewritten answer. It is so when every
  reply that the resolvers gave is complete to the end of its answers, is less than 64 KiB long, and all have less
  than 65536 addresses. One reply that is cut can break it: the worker may not end, or reads other addresses than the
  client would.\<close>

theorem lookup_through_worker:
  assumes "aead_contract (cipher E)" "worker_cipher W = cipher E" "worker_has W key" "length nonce = 12"
    and "host_name d" "length d < 65536" "readable (received W 3 (build_lookup_query txid d))"
  shows "resolve_domain_via_relay (with_worker E W) http url key nonce txid d =
    Some (let ips = all_addresses (received W 3 (build_lookup_query txid d)) in if ips = [] then Inl Config else Inr ips)"
  by (rule lookup_through [OF assms])

text \<open>A worker whose first resolver has an address for every question, whose second does not answer, and whose
  third says that the name does not exist.\<close>

definition demo_found :: bytes where
  "demo_found = [0, 7, 0x81, 0x80, 0, 1, 0, 1, 0, 0, 0, 0] @ drop 12 demo_query @ redirect_record [0, 1] [0, 1] (10, 0, 0, 1)"

definition demo_missing :: bytes where
  "demo_missing = [0, 7, 0x81, 0x83, 0, 1, 0, 0, 0, 0, 0, 0] @ drop 12 demo_query"

definition demo_worker :: "u8 worker" where
  "demo_worker = \<lparr>worker_cipher = xor_aead, raw_key = Some [], importKey = (\<lambda>_. Some 7),
     queryDoh = (\<lambda>_ url _. if url = DOH_ENDPOINTS ! 0 then Some demo_found
       else if url = DOH_ENDPOINTS ! 2 then Some demo_missing else None), worker_nonce = replicate 12 3\<rparr>"

definition demo_client :: "u8 relay_env" where
  "demo_client = demo_env\<lparr>b64_encode := (\<lambda>b. b), b64_decode := Some\<rparr>"

lemma demo_worker_has: "worker_has demo_worker 7" "worker_cipher demo_worker = cipher demo_client"
    "aead_contract (cipher demo_client)" "length (replicate 12 (9 :: u8)) = 12"
  by (simp_all add: worker_has_def demo_worker_def demo_client_def demo_env_def xor.aead_contract_axioms)

lemma demo_received: "received demo_worker 3 q = [demo_found, demo_missing, demo_found, demo_missing, demo_found, demo_missing]"
proof -
  have "doh_responses demo_worker 3 q = [Some demo_found, None, Some demo_missing, Some demo_found, None, Some demo_missing,
      Some demo_found, None, Some demo_missing]"
    by (simp add: doh_responses_def demo_worker_def DOH_ENDPOINTS_def numeral_3_eq_3 lit_def)
  then show ?thesis by (simp add: received_def)
qed

lemma demo_whole: "whole_reply demo_found 21 37" "whole_reply demo_missing 21 21"
  by code_simp+

lemma demo_short: "length demo_found < 65536" "length demo_missing < 65536"
  by (simp_all add: demo_found_def demo_missing_def demo_length)

lemma demo_reply_addresses: "reply_addresses demo_found = [(10, 0, 0, 1)]" "reply_addresses demo_missing = []"
proof -
  have "demo_missing = rewritten demo_missing 21 21 []" by code_simp
  then have "parse_a_records demo_missing = Some []" using rewritten_reads_back [OF demo_whole(2), of "[]"] by simp
  then show "reply_addresses demo_missing = []" by (simp add: reply_addresses_def)
  have "demo_found = rewritten demo_found 21 37 [(10, 0, 0, 1)]" by code_simp
  then have "parse_a_records demo_found = Some [(10, 0, 0, 1)]" using rewritten_reads_back [OF demo_whole(1), of "[(10, 0, 0, 1)]"] by simp
  then show "reply_addresses demo_found = [(10, 0, 0, 1)]" by (simp add: reply_addresses_def)
qed

lemma demo_addresses: "all_addresses (received demo_worker 3 q) = [(10, 0, 0, 1)]"
  by (simp add: demo_received all_addresses_def demo_reply_addresses)

lemma demo_readable: "readable (received demo_worker 3 q)"
  using demo_whole demo_short demo_addresses [of q] unfolding readable_def demo_received by auto

theorem lookup_through_worker_witness:
  "resolve_domain_via_relay (with_worker demo_client demo_worker) \<lparr>pinned = None\<rparr> (lit ''u'') 7 (replicate 12 9) 7 (lit ''a.b'') =
     Some (Inr [(10, 0, 0, 1)])"
proof -
  have "host_name (lit ''a.b'')" by code_simp
  moreover have "length (lit ''a.b'') < 65536" by (simp add: lit_def)
  ultimately show ?thesis
    using lookup_through_worker [OF demo_worker_has(3,2,1,4) _ _ demo_readable, of "lit ''a.b''" "\<lparr>pinned = None\<rparr>" "lit ''u''" 7] by (simp add: demo_addresses)
qed

text \<open>C26: A query of any type goes through the worker, when every reply that its resolvers gave (of three rounds
  for a question for addresses, of one for the others) is complete and less than 64 KiB. Without a reply
  the client gets an error. A question of another type gets the last reply as it is. The answer to a question for
  addresses has the addresses of all replies under the header of the last one, with only the number of
  answers changed: when that resolver answered with an error code, the code stands above the addresses of the others.\<close>

theorem query_through_worker:
  assumes "aead_contract (cipher E)" "worker_cipher W = cipher E" "worker_has W key" "length nonce = 12"
    and "length payload < 65536" "getQuestionType payload = Some ty"
    and "rs = received W (if ty = 1 then 3 else 1) payload" "readable rs"
  shows "if rs = [] then resolve_via_relay (with_worker E W) http url key nonce payload = Some (Inl Config)
    else \<exists>out. resolve_via_relay (with_worker E W) http url key nonce payload = Some (Inr out) \<and>
      (if ty = 1 then parse_a_records out = Some (all_addresses rs) \<and>
         take 12 out = take 6 (last rs) @ to_be16 (of_nat (length (all_addresses rs))) @ take 4 (drop 8 (last rs))
       else out = last rs)"
  by (rule query_through [OF assms])

lemma demo_A: "getQuestionType demo_query = Some 1" "length demo_query < 65536"
proof -
  have "host_name (lit ''a.b'')" by code_simp
  then show "getQuestionType demo_query = Some 1" unfolding demo_query_def by (rule A_question)
qed (simp add: demo_length)

lemma demo_AAAA: "getQuestionType (demo_query[18 := 28]) = Some 28"
proof -
  have "skip_name (demo_query[18 := 28]) 12 = Some (Some 17)" by code_simp
  then have "js_skip_name (demo_query[18 := 28]) 12 = Some 17" by (simp add: js_skip_name_iff)
  moreover have "push_bit 8 (js_bits (demo_query[18 := 28]) 17) OR js_bits (demo_query[18 := 28]) (17 + 1) = 28" by code_simp
  ultimately show ?thesis by (simp add: getQuestionType_def)
qed

lemma demo_received_once: "received demo_worker 1 q = [demo_found, demo_missing]"
  by (simp add: received_def doh_responses_def demo_worker_def DOH_ENDPOINTS_def lit_def)

lemma demo_readable_once: "readable (received demo_worker 1 q)"
proof -
  have "length (all_addresses [demo_found, demo_missing]) < 65536" by (simp add: all_addresses_def demo_reply_addresses)
  then show ?thesis using demo_whole demo_short unfolding readable_def demo_received_once by auto
qed

text \<open>Both kinds of question: the one for addresses gets the code of the reply that has none.\<close>

theorem query_through_worker_witness:
  "(\<exists>out. resolve_via_relay (with_worker demo_client demo_worker) \<lparr>pinned = None\<rparr> (lit ''u'') 7 (replicate 12 9) demo_query = Some (Inr out) \<and>
     parse_a_records out = Some [(10, 0, 0, 1)] \<and> out ! 3 = 0x83) \<and>
   resolve_via_relay (with_worker demo_client demo_worker) \<lparr>pinned = None\<rparr> (lit ''u'') 7 (replicate 12 9) (demo_query[18 := 28]) = Some (Inr demo_missing)"
proof -
  let ?http = "\<lparr>pinned = None\<rparr> :: http_client"
  from query_through_worker [OF demo_worker_has(3,2,1,4) demo_A(2,1) _ demo_readable [of demo_query], of ?http "lit ''u''"]
  obtain out where out: "resolve_via_relay (with_worker demo_client demo_worker) ?http (lit ''u'') 7 (replicate 12 9) demo_query = Some (Inr out)"
    "parse_a_records out = Some [(10, 0, 0, 1)]" "take 12 out = take 6 demo_missing @ to_be16 1 @ take 4 (drop 8 demo_missing)"
    unfolding demo_addresses by (auto simp: demo_received)
  have "out ! 3 = take 12 out ! 3" by simp
  also have "\<dots> = 0x83" unfolding out(3) by (simp add: demo_missing_def)
  finally have A: "out ! 3 = 0x83" .
  have "length (demo_query[18 := 28]) < 65536" by (simp add: demo_length)
  from query_through_worker [OF demo_worker_has(3,2,1,4) this demo_AAAA _ demo_readable_once [of "demo_query[18 := 28]"], of ?http "lit ''u''"]
  have "resolve_via_relay (with_worker demo_client demo_worker) ?http (lit ''u'') 7 (replicate 12 9) (demo_query[18 := 28]) = Some (Inr demo_missing)"
    by (simp add: demo_received_once demo_received_once [unfolded One_nat_def])
  with out A show ?thesis by blast
qed


definition demo_script :: script where
  "demo_script = \<lparr>workerUrl = lit ''w'', base64Decode = Some, base64Encode = (\<lambda>b. b),
     urlFetch = (\<lambda>_ _. worker_fetch demo_worker True), cache_takes = (\<lambda>_ _. True), thrown = []\<rparr>"

lemma demo_script_over: "script_over demo_script demo_client demo_worker"
  by (simp add: script_over_def demo_script_def demo_client_def lit_def)

lemma demo_tag: "cache_key_for_domain demo_client 7 (lit ''a.b'') = lit ''612e62''" "lit ''612e62'' \<noteq> []"
  "\<And>r. cache_takes demo_script (cache_key_for_domain demo_client 7 name) r"
proof -
  show "cache_key_for_domain demo_client 7 (lit ''a.b'') = lit ''612e62''"
    unfolding cache_key_for_domain_def demo_client_def demo_env_def by code_simp
qed (simp_all add: lit_def demo_script_def)


text \<open>C7: The cache of the script does not know the question: when a query for a name has been answered, every
  query for the same name that arrives within five minutes, of any type and under any transaction ID, gets
  that answer, as long as the script still has it. An AAAA query after an A query gets A records.\<close>

theorem script_ignores_question_type:
  assumes "aead_contract (cipher E)" "length nonce = 12" "length nonce' = 12" "script_over S E W"
    and "cache_get now c (cache_key_for_domain E key name) = None" "cache_key_for_domain E key name \<noteq> []"
    and "encode_for_relay (cipher E) key nonce q = Some p" "length q' < 65536"
    and "resolve_via_relay_apps_script (with_script E S now c) http url key nonce name q = Some (Inr answer)"
    and "map ascii_lower name' = map ascii_lower name" "now' < now + 300"
    and "c' = snd (doPost S now (Some (Some (cache_key_for_domain E key name), Some (b64_encode E p))) c)"
  shows "resolve_via_relay_apps_script (with_script E S now' c') http url key nonce' name' q' = Some (Inr answer)"
proof -
  let ?k = "cache_key_for_domain E key name"
  have S: "base64Decode S (b64_encode E p) = Some p" "\<And>b. b64_decode E (base64Encode S b) = Some b"
    "\<And>b. b \<noteq> [] \<Longrightarrow> base64Encode S b \<noteq> []"
    using assms(4) by (auto simp: script_over_def)
  have post: "doPost S now (Some (Some ?k, Some (b64_encode E p))) c = script_fetch S now ?k (b64_encode E p) c"
    using doPost_cold [OF assms(4,5,6) encoded_nonempty [OF assms(4,7,2)]] .
  obtain b where b: "c' = c(?k \<mapsto> (base64Encode S b, now + 300))" "decode_from_relay (cipher E) key b = Some answer"
    using assms(7,9,12) post S
    by (auto simp: resolve_via_relay_apps_script_def script_fetch_def script_json_def Let_def CACHE_TTL_SECONDS_def
        split: option.splits if_splits prod.splits)
  then have "b \<noteq> []" by (auto simp: decode_from_relay_def)
  obtain p' where p': "encode_for_relay (cipher E) key nonce' q' = Some p'"
    using direct_opened [OF assms(1,3), of q' key] assms(8) by auto
  have tag: "cache_key_for_domain E key name' = ?k" using assms(10) by (simp add: cache_key_for_domain_def)
  have "doPost S now' (Some (Some ?k, Some (b64_encode E p'))) c' = (ScriptData (base64Encode S b), c')"
    using b(1) S(3) [OF \<open>b \<noteq> []\<close>] assms(6,11) encoded_nonempty [OF assms(4) p' assms(3)]
    by (simp add: doPost_def truthy_def cache_get_def)
  then show ?thesis
    using p' tag S(2) b(2) by (simp add: resolve_via_relay_apps_script_def script_json_def)
qed

text \<open>The question for an IPv6 address, four seconds after the one for an IPv4 address.\<close>

theorem script_ignores_question_type_witness:
  "\<exists>c answer. resolve_via_relay_apps_script (with_script demo_client demo_script 9 c) \<lparr>pinned = None\<rparr> (lit ''s'') 7 (replicate 12 1)
      (lit ''A.b'') (demo_query[18 := 28]) = Some (Inr answer) \<and> parse_a_records answer = Some [(10, 0, 0, 1)] \<and>
      getQuestionType (demo_query[18 := 28]) = Some 28"
proof -
  obtain p where p: "encode_for_relay (cipher demo_client) 7 (replicate 12 9) demo_query = Some p"
    using direct_opened [OF demo_worker_has(3,4), of demo_query 7] by (auto simp: demo_length)
  from query_through [OF demo_worker_has(3,2,1,4) demo_A(2,1) _ demo_readable [of demo_query], of "\<lparr>pinned = None\<rparr>" "lit ''u''"]
  obtain answer where answer: "resolve_via_relay (with_worker demo_client demo_worker) \<lparr>pinned = None\<rparr> (lit ''u'') 7 (replicate 12 9) demo_query = Some (Inr answer)"
    "parse_a_records answer = Some [(10, 0, 0, 1)]"
    unfolding demo_addresses by (auto simp: demo_received)
  have cold: "cache_get 5 Map.empty (cache_key_for_domain demo_client 7 (lit ''a.b'')) = None"
    "cache_key_for_domain demo_client 7 (lit ''a.b'') \<noteq> []"
    using demo_tag by (simp_all add: cache_get_def)
  have one: "resolve_via_relay_apps_script (with_script demo_client demo_script 5 Map.empty) \<lparr>pinned = None\<rparr> (lit ''s'') 7 (replicate 12 9) (lit ''a.b'') demo_query = Some (Inr answer)"
    using script_cold [OF demo_worker_has(3,2,4) demo_script_over cold demo_tag(3), of "\<lparr>pinned = None\<rparr>" "lit ''s''" demo_query] answer(1) by simp
  have len: "length (replicate 12 (1 :: u8)) = 12" "length (demo_query[18 := 28]) < 65536" by (simp_all add: demo_length)
  have names: "map ascii_lower (lit ''A.b'') = map ascii_lower (lit ''a.b'')" "9 < 5 + (300 :: nat)" by code_simp+
  show ?thesis
    using script_ignores_question_type [OF demo_worker_has(3,4) len(1) demo_script_over cold p len(2) one names refl] answer(2) demo_AAAA by blast
qed

text \<open>C31: Whatever the script serves under a tag, the worker gave it less than five minutes before to a request
  with the same tag, however requests and evictions follow one another: no reply is served for another name,
  or for longer.\<close>

theorem script_serves_by_tag:
  assumes "script_history S c t h" "(t', k, d, ScriptData v) \<in> set h"
  shows "\<exists>t0 d0 bs content. t' < t0 + 300 \<and> (t0, k, d0, ScriptData v) \<in> set h \<and> base64Decode S d0 = Some bs \<and>
    urlFetch S t0 (workerUrl S) bs = Some (200, content) \<and> v = base64Encode S content"
  using script_history_ok [OF assms(1)] assms(2) unfolding script_ok_def fetched_def by blast

text \<open>The second request is answered from the cache.\<close>

theorem script_serves_by_tag_witness:
  "\<exists>S c h t0 d0 bs. script_history S c 300 h \<and> (300, [1], [3], ScriptData [7]) \<in> set h \<and> 300 < t0 + 300 \<and>
     (t0, [1], d0, ScriptData [7]) \<in> set h \<and> urlFetch S t0 (workerUrl S) bs = Some (200, [7])"
proof -
  let ?S = "demo_script\<lparr>urlFetch := \<lambda>_ _ _. Some (200, [7])\<rparr>" and ?c = "[[1] \<mapsto> ([7], 305)] :: script_cache"
  let ?h = "[] @ [(5, [1], [2], ScriptData [7])] @ [(300, [1], [3], ScriptData [7])] :: (nat \<times> rstr \<times> rstr \<times> script_reply) list"
  have "doPost ?S 5 (Some (Some [1], Some [2])) Map.empty = (ScriptData [7], ?c)"
    "doPost ?S 300 (Some (Some [1], Some [3])) ?c = (ScriptData [7], ?c)"
    by (simp_all add: doPost_def truthy_def cache_get_def script_fetch_def demo_script_def CACHE_TTL_SECONDS_def lit_def)
  then have h: "script_history ?S ?c 300 ?h"
    using script_history.post [OF script_history.post [OF script_history.start]] by fastforce
  have "(300, [1], [3], ScriptData [7]) \<in> set ?h" by simp
  from script_serves_by_tag [OF h this] obtain t0 d0 bs where "300 < t0 + 300" "(t0, [1], d0, ScriptData [7]) \<in> set ?h"
    by blast
  with h show ?thesis by (intro exI [of _ ?S] exI [of _ ?c] exI [of _ ?h]) (auto intro: exI [of _ bs])
qed

end
