(* ===== verification/Report_Snapshot.thy ===== *)
theory Report_Snapshot
  imports Interleaving Metric_Report
begin

text \<open>
  A report while the relay works: \<open>prepare_report\<close> (\<open>shared/src/metric_wrapper.rs\<close>) loads the counters one after
  the other, and the handlers of \<open>dns_relay/src/handler.rs\<close> count in between. What the outcomes of such a
  report add up to is bounded by the replies that had been counted (sent, or still to be sent by their handler)
  at its first and at its last load.
\<close>

section \<open>Counters that grow\<close>

text \<open>The outcome counters in the order in which a report loads them.\<close>

definition counters :: "metrics \<Rightarrow> u64 list" where
  "counters m = [resolved_count m, failed_count m, timeout_count m, redirect_count m, drop_count m, cached_count m]"

text \<open>Between two moments the counters have together been incremented \<open>k\<close> times.\<close>

definition grows :: "metrics \<Rightarrow> nat \<Rightarrow> metrics \<Rightarrow> bool" where
  "grows m k m' \<longleftrightarrow> (\<exists>ds. length ds = 6 \<and> sum_list ds = k \<and> counters m' = map2 (\<lambda>x d. x + of_nat d) (counters m) ds)"

lemma growsI:
  assumes "resolved_count m' = resolved_count m + of_nat a" "failed_count m' = failed_count m + of_nat b"
    "timeout_count m' = timeout_count m + of_nat c" "redirect_count m' = redirect_count m + of_nat d"
    "drop_count m' = drop_count m + of_nat e" "cached_count m' = cached_count m + of_nat f"
    and "k = a + b + c + d + e + f"
  shows "grows m k m'"
  unfolding grows_def by (rule exI [of _ "[a, b, c, d, e, f]"]) (simp add: counters_def assms)

lemma grows_refl: "grows m 0 m"
  by (rule growsI [of _ _ 0 0 0 0 0 0]) simp_all

lemma grows_one:
  "grows m 1 (m\<lparr>resolved_count := resolved_count m + 1\<rparr>)" "grows m 1 (m\<lparr>failed_count := failed_count m + 1\<rparr>)"
  "grows m 1 (m\<lparr>timeout_count := timeout_count m + 1\<rparr>)" "grows m 1 (m\<lparr>redirect_count := redirect_count m + 1\<rparr>)"
  "grows m 1 (m\<lparr>drop_count := drop_count m + 1\<rparr>)" "grows m 1 (m\<lparr>cached_count := cached_count m + 1\<rparr>)"
  by (rule growsI [of _ _ 1 0 0 0 0 0] growsI [of _ _ 0 1 0 0 0 0] growsI [of _ _ 0 0 1 0 0 0]
      growsI [of _ _ 0 0 0 1 0 0] growsI [of _ _ 0 0 0 0 1 0] growsI [of _ _ 0 0 0 0 0 1], simp_all)+

lemma sum_map2_plus:
  "length xs = length ds \<Longrightarrow> sum_list (map2 (\<lambda>x d. x + of_nat d) xs ds) = sum_list xs + (of_nat (sum_list ds) :: u64)"
  by (induction xs ds rule: list_induct2) (simp_all add: algebra_simps)

lemma grows_trans: "grows m k m' \<Longrightarrow> grows m' k' m'' \<Longrightarrow> grows m (k + k') m''"
proof -
  assume "grows m k m'" "grows m' k' m''"
  then obtain ds ds' where d: "length ds = 6" "sum_list ds = k" "counters m' = map2 (\<lambda>x d. x + of_nat d) (counters m) ds"
    "length ds' = 6" "sum_list ds' = k'" "counters m'' = map2 (\<lambda>x d. x + of_nat d) (counters m') ds'"
    by (auto simp: grows_def)
  have "map2 (\<lambda>x d. x + of_nat d) (map2 (\<lambda>x d. x + of_nat d) xs ds) ds' = map2 (\<lambda>x d. x + of_nat d) xs (map2 (+) ds ds')"
    if "length xs = length ds" "length ds = length ds'" for xs :: "u64 list"
    using that by (induction xs ds ds' rule: list_induct3) (simp_all add: algebra_simps)
  moreover have "sum_list (map2 (+) ds ds') = k + k'"
    using d(1,2,4,5) sum_list_addf [of fst snd "zip ds ds'"] by (simp add: case_prod_unfold)
  ultimately show ?thesis
    unfolding grows_def using d by (intro exI [of _ "map2 (+) ds ds'"]) (simp add: counters_def)
qed

text \<open>The counters from the \<open>i\<close>-th on grow by at most as much as all.\<close>

lemma grows_rest:
  assumes "grows m k m'"
  shows "\<exists>j \<le> k. sum_list (drop i (counters m')) = sum_list (drop i (counters m)) + of_nat j"
proof -
  obtain ds where d: "length ds = 6" "sum_list ds = k" "counters m' = map2 (\<lambda>x d. x + of_nat d) (counters m) ds"
    using assms by (auto simp: grows_def)
  have "sum_list (drop i (counters m')) = sum_list (drop i (counters m)) + of_nat (sum_list (drop i ds))"
    unfolding d(3) using sum_map2_plus [of "drop i (counters m)" "drop i ds"] d(1)
    by (simp add: drop_map drop_zip counters_def)
  moreover have "sum_list (drop i ds) \<le> k"
    using d(2) sum_list.append [of "take i ds" "drop i ds"] by simp
  ultimately show ?thesis by blast
qed

section \<open>Steps of the handlers\<close>

text \<open>A moment at which metrics are on.\<close>

definition counted :: "('c, 'conn, 'k) world \<Rightarrow> metrics \<Rightarrow> bool" where
  "counted w m \<longleftrightarrow> metric_wrapper (shared w) = Some m"

lemma front_grows:
  "query_front E tr now p s = Some (Done (Some r), s') \<Longrightarrow> metric_wrapper s = Some m \<Longrightarrow>
     \<exists>m'. metric_wrapper s' = Some m' \<and> grows m 1 m'"
  by (erule query_front_Done) (auto simp: incr_def grows_one [simplified])

lemma settle_grows:
  assumes "query_settle E now d k p r s = Some ((e, x), s')" "12 \<le> length p" "metric_wrapper s = Some m"
  shows "(\<exists>m'. metric_wrapper s' = Some m' \<and> grows m 1 m') \<and> x \<noteq> None"
  using assms by (elim query_settle_cases) (auto simp: incr_def grows_one [simplified])

lemma world_step_grows:
  assumes "world_step E ld w w'" "world_ok E recents w" "counted w m"
  shows "counted_replies w \<le> counted_replies w' \<and>
    (\<exists>m'. counted w' m' \<and> grows m (counted_replies w' - counted_replies w) m')"
  using assms(1)
proof cases
  case (front_silent ts t ts' now s')
  then show ?thesis using assms(3) query_front_Done_None [OF front_silent(4)]
    by (auto simp: counted_def counted_replies_def grows_refl)
next
  case (front_reply ts t ts' now b s')
  from front_grows [OF front_reply(4)] assms(3) obtain m' where "metric_wrapper s' = Some m'" "grows m 1 m'"
    by (auto simp: counted_def)
  with front_reply show ?thesis by (auto simp: counted_def counted_replies_def)
next
  case (front_ask ts t ts' now d k s')
  then have "metric_wrapper s' = metric_wrapper (shared w)"
    using query_front_Ask by (metis relay_state.simps(2) relay_state.surjective relay_state.update_convs(1))
  with front_ask assms(3) show ?thesis by (auto simp: counted_def counted_replies_def grows_refl)
next
  case (ask ts t ts' d k timing nonce vpn src r s')
  then have "metric_wrapper s' = metric_wrapper (shared w)" using query_ask_metrics by blast
  with ask assms(3) show ?thesis by (auto simp: counted_def counted_replies_def grows_refl)
next
  case (settle ts t ts' d k result now e r s')
  have "12 \<le> length (payload t)" using settle assms(2) by (simp add: world_ok_def task_ok_def question_of_def)
  from settle_grows [OF settle(4) this] assms(3) obtain m' where "metric_wrapper s' = Some m'" "grows m 1 m'" "r \<noteq> None"
    by (auto simp: counted_def)
  with settled_unsent [of r t e] settle show ?thesis by (auto simp: counted_def counted_replies_def)
next
  case (record_try ts t ts' e b ok h)
  with assms(3) show ?thesis by (auto simp: counted_def counted_replies_def grows_refl)
qed (use assms(3) in \<open>auto simp: counted_def counted_replies_def grows_refl\<close>)

lemma world_steps_grow:
  assumes "world_steps E ld w w'" "cache_backend (lru_ops E) recents cap" "world_ok E recents w" "counted w m"
  shows "world_ok E recents w' \<and> counted_replies w \<le> counted_replies w' \<and>
    (\<exists>m'. counted w' m' \<and> grows m (counted_replies w' - counted_replies w) m')"
  using assms(1)
proof (induction rule: rtranclp_induct)
  case base
  with assms(3,4) show ?case using grows_refl by auto
next
  case (step v v')
  then obtain m' where m': "world_ok E recents v" "counted_replies w \<le> counted_replies v" "counted v m'"
    "grows m (counted_replies v - counted_replies w) m'" by blast
  from world_step_grows [OF step.hyps(2) m'(1,3)] obtain m'' where m'': "counted_replies v \<le> counted_replies v'"
    "counted v' m''" "grows m' (counted_replies v' - counted_replies v) m''" by blast
  have "counted_replies v - counted_replies w + (counted_replies v' - counted_replies v) = counted_replies v' - counted_replies w"
    using m'(2) m''(1) by simp
  with grows_trans [OF m'(4) m''(3)] world_step_ok [OF step.hyps(2) assms(2) m'(1)] m'(2) m''(1,2) show ?case by force
qed

section \<open>A report\<close>

text \<open>What the outcomes of a report add up to.\<close>

definition reported :: "metric_report \<Rightarrow> u64" where
  "reported r = r_resolved_count r + r_failed_count r + r_timeout_count r + r_redirect_count r + r_drop_count r + r_cached_count r"

text \<open>The counters before the \<open>i\<close>-th as they were loaded, the others as they are.\<close>

definition half_read :: "(nat \<Rightarrow> metrics) \<Rightarrow> nat \<Rightarrow> u64" where
  "half_read ms i = (\<Sum>c<i. counters (ms (Suc c)) ! c) + sum_list (drop i (counters (ms i)))"

lemma half_read_step:
  assumes "grows (ms i) k (ms (Suc i))" "i < 6"
  shows "\<exists>j \<le> k. half_read ms (Suc i) = half_read ms i + of_nat j"
proof -
  have "drop i (counters (ms (Suc i))) = counters (ms (Suc i)) ! i # drop (Suc i) (counters (ms (Suc i)))"
    using assms(2) by (intro Cons_nth_drop_Suc [symmetric]) (simp add: counters_def)
  then have "half_read ms (Suc i) = (\<Sum>c<i. counters (ms (Suc c)) ! c) + sum_list (drop i (counters (ms (Suc i))))"
    by (simp add: half_read_def)
  with grows_rest [OF assms(1), of i] show ?thesis by (auto simp: half_read_def)
qed

lemma half_read_ends: "half_read ms 0 = answered (ms 0)" "half_read ms 6 = reported (prepare_report ms)"
  by (simp_all add: half_read_def counters_def answered_def reported_def prepare_report_def eval_nat_numeral add.assoc)

lemma half_read_bounds:
  assumes "\<And>i. i < 6 \<Longrightarrow> R i \<le> R (Suc i) \<and> grows (ms i) (R (Suc i) - R i) (ms (Suc i))" "answered (ms 0) = a + of_nat (R 0)" "i \<le> 6"
  shows "\<exists>n. R 0 \<le> n \<and> n \<le> R i \<and> half_read ms i = a + of_nat n"
  using assms(3)
proof (induction i)
  case 0
  then show ?case using assms(2) half_read_ends(1) by auto
next
  case (Suc i)
  then obtain n where n: "R 0 \<le> n" "n \<le> R i" "half_read ms i = a + of_nat n" by auto
  have s: "R i \<le> R (Suc i)" "grows (ms i) (R (Suc i) - R i) (ms (Suc i))" using assms(1) Suc.prems by simp_all
  obtain j where "j \<le> R (Suc i) - R i" "half_read ms (Suc i) = half_read ms i + of_nat j"
    using half_read_step [OF s(2)] Suc.prems by auto
  with n s(1) show ?case by (intro exI [of _ "n + j"]) simp
qed

text \<open>C32: A report is prepared while handlers count and send: its six outcomes add up to a number of replies
  between those that had been counted when its loads began and when they ended (modulo \<open>2 ^ 64\<close>), whatever
  happens between two loads; a reply is counted when it is sent or when its handler still has to send it.
  The total, which is loaded first, may be less than what the outcomes add up to.\<close>

theorem report_within_moments:
  assumes "cache_backend (lru_ops E) recents cap" "recents (cache s) = []" "metric_wrapper s = Some m"
    and "world_steps E ld (world_start s tr reads) (ws 0)" "\<And>i. i < 7 \<Longrightarrow> world_steps E ld (ws i) (ws (Suc i))"
  shows "\<exists>n. length (replies (ws 0)) + length (filter unsent (tasks (ws 0))) \<le> n \<and>
    n \<le> length (replies (ws 7)) + length (filter unsent (tasks (ws 7))) \<and>
    reported (prepare_report (\<lambda>i. the (metric_wrapper (shared (ws i))))) = answered m + of_nat n"
proof -
  let ?R = "\<lambda>i. counted_replies (ws i)" and ?ms = "\<lambda>i. the (metric_wrapper (shared (ws i)))"
  note start = world_start_ok [where recents = recents, OF assms(2)]
  have "counted (world_start s tr reads) m" using assms(3) by (simp add: counted_def world_start_def)
  from world_steps_grow [OF assms(4,1) start this] have "world_ok E recents (ws 0)" "counted (ws 0) (?ms 0)"
    by (auto simp: counted_def)
  then have ok: "i \<le> 7 \<Longrightarrow> world_ok E recents (ws i) \<and> counted (ws i) (?ms i)" for i
  proof (induction i)
    case (Suc i)
    with world_steps_grow [OF assms(5) assms(1), of i "?ms i"] show ?case by (auto simp: counted_def)
  qed simp
  have steps: "?R i \<le> ?R (Suc i) \<and> grows (?ms i) (?R (Suc i) - ?R i) (?ms (Suc i))" if "i < 7" for i
    using world_steps_grow [OF assms(5) [OF that] assms(1)] ok [of i] that by (fastforce simp: counted_def)
  have zero: "answered (?ms 0) = answered m + of_nat (?R 0)"
    using world_steps_ok [OF assms(4,1) start] assms(3) ok [of 0] by (auto simp: outcomes_def counted_replies_def world_start_def counted_def)
  have "\<exists>n. ?R 0 \<le> n \<and> n \<le> ?R 6 \<and> half_read ?ms 6 = answered m + of_nat n"
    by (rule half_read_bounds [of ?R ?ms, OF _ zero]) (use steps in simp_all)
  moreover have "?R 6 \<le> ?R 7" using steps [of 6] by simp
  ultimately show ?thesis unfolding half_read_ends(2) counted_replies_def by (meson le_trans)
qed

text \<open>A reply is counted between the first load and the second, and never sent.\<close>

theorem report_within_moments_witness:
  "\<exists>ws n. n \<le> (1 :: nat) \<and> replies (ws 7) = [] \<and>
     reported (prepare_report (\<lambda>i. the (metric_wrapper (shared (ws i :: ((cache_key, cache_entry) recency, nat, u8) world))))) = of_nat n \<and>
     world_steps (demo_server demo_reply) (\<lambda>_. None) (ws 0) (ws 1)"
proof -
  let ?w0 = "world_start demo_state empty_trie []" and ?E = "demo_server demo_reply"
  let ?ws = "\<lambda>i :: nat. if i = 0 then ?w0 else demo_counted_world"
  have cache: "cache_backend (lru_ops ?E) snd (\<lambda>c. Suc (fst c))" "snd (cache demo_state) = []"
    using list_cache.cache_backend_axioms by (simp_all add: demo_state_def)
  obtain m where m: "metric_wrapper demo_state = Some m" "answered m = 0"
    by (cases "metric_wrapper demo_state") (auto simp: demo_state_def answered_def)
  have "world_steps ?E (\<lambda>_. None) ?w0 (?ws 0)" "world_steps ?E (\<lambda>_. None) (?ws i) (?ws (Suc i))" for i
    using demo_counted_reached by simp_all
  from report_within_moments [where ws = ?ws, OF cache m(1) this]
  obtain n where n: "n \<le> length (replies (?ws 7)) + length (filter unsent (tasks (?ws 7)))"
    "reported (prepare_report (\<lambda>i. the (metric_wrapper (shared (?ws i))))) = of_nat n"
    unfolding m(2) by auto
  from n(1) have "n \<le> 1" by (simp add: demo_counted_world_def world_start_def unsent_def)
  moreover have "replies (?ws 7) = []" by (simp add: demo_counted_world_def world_start_def)
  moreover have "world_steps ?E (\<lambda>_. None) (?ws 0) (?ws 1)" using demo_counted_reached by simp
  ultimately show ?thesis using n(2) by (intro exI [of _ ?ws] exI [of _ n] conjI)
qed

end
