(* ===== verification/Spec2Isabelle.thy ===== *)
theory Spec2Isabelle
  imports Listener_Turn Deployment Commands Error_Text Conf_Watch Doq_Endpoint Task_Pool History Relay_Chain Report_Snapshot
begin

text \<open>
  A verification development of a DNS relay (\<open>dns_relay\<close>), its companion proxy (\<open>resolver_proxy\<close>) and the
  library they share (\<open>shared\<close>). The relay answers the DNS queries of its host: it drops and redirects
  names by configured rules, answers from a cache, and sends the other queries to an upstream resolver
  (UDP, DNS over HTTPS, DNS over QUIC) or, sealed, to an HTTP relay. The proxy does the same with a list
  of targets, which may be relays that it reaches over obfuscated UDP.

  \<^bold>\<open>Theories and code.\<close> Bottom up; the paths are under \<open>src/\<close>.

  \<^item> \<open>Dns_Prelude\<close>: machine integers as words, \<open>'a run\<close> (\<open>None\<close> where the Rust code panics or recurses
    without end), checked reads and writes of slices, big-endian integers. \<open>Rust_Str\<close>: the operations on
    \<open>str\<close> that the code uses, with UTF-8 and Unicode white space.
  \<^item> \<open>Dns_Name\<close>, \<open>Dns_Msg\<close>, \<open>Dns_Edns\<close>: \<open>shared/src/dns.rs\<close>. Names and patterns; crafted replies, readers
    of addresses and TTLs; the EDNS client subnet.
  \<^item> \<open>Domain_Trie\<close>: \<open>shared/src/domain_trie.rs\<close> and the redirect list of \<open>shared/src/lib.rs\<close>. A \<open>HashMap\<close> of
    children is a function to options. The locale \<open>rule_table\<close> is the contract of a table of rules.
  \<^item> \<open>Response_Cache\<close>: \<open>shared/src/cache.rs\<close>. The crate \<open>lru\<close> is a record of operations; its laws are the
    locale \<open>lru_contract\<close>, instantiated with an executable list. \<open>response_cache\<close> is the contract that the
    handlers rely on, given by a \<open>sublocale\<close> from \<open>cache_backend\<close>.
  \<^item> \<open>Sealing\<close>: \<open>shared/src/obfs.rs\<close> and the packets of \<open>dns_relay/src/relay.rs\<close>. AES-GCM is a record of
    operations with the laws \<open>aead_contract\<close>; obfuscation and relay packets are two \<open>codec\<close>s over it.
  \<^item> \<open>Upstream_Error\<close>: the variants of \<open>shared/src/errors.rs\<close> and the question mark operator.
    \<open>Error_Text\<close>: the errors with what they carry, their texts, sources and conversions.
  \<^item> \<open>Resolver_Lists\<close>, \<open>Task_Pool\<close>, \<open>Upstream\<close>: \<open>dns_relay/src/resolver.rs\<close>. Lists of resolvers, health checks
    and the search for new resolvers as step relations; the tasks they run on, with the UDP socket that all probes share; one exchange with a
    resolver and the pool of QUIC connections. \<open>Doq_Endpoint\<close>: the QUIC endpoint, the race for its
    \<open>OnceLock\<close>, and how a connection is made over it. \<open>Rotation\<close>: the locale of round-robin counters, with
    interpretations for the relays and for the targets of the proxy.
  \<^item> \<open>Relay\<close>: the rest of \<open>dns_relay/src/relay.rs\<close>. \<open>Relay_Worker\<close>: the Cloudflare worker at its other end,
    \<open>assets/relay_worker.js\<close>; \<open>Relay_Chain\<close>: the Apps Script hop with its cache,
    \<open>assets/relay_google_script.js\<close>, and the client composed with both. \<open>History\<close>: \<open>HistoryBuffer\<close> of \<open>dns_relay/src/handler.rs\<close>, with
    a functional specification of its file and a step relation for its queue and flush task.
  \<^item> \<open>Query_Handler\<close>: \<open>resolve_query\<close> and \<open>handle_query\<close> of \<open>dns_relay/src/handler.rs\<close>, the composition of the
    theories above: \<open>query_front\<close> (rules and cache), \<open>query_ask\<close> (the wait), \<open>query_back\<close>, that is \<open>query_settle\<close>
    (store, count) and \<open>push_history\<close> with the loop \<open>push_many\<close>, which spins while the queue is full. \<open>Metric_Report\<close>: the reports of \<open>shared/src/metric_wrapper.rs\<close>;
    \<open>Report_Snapshot\<close>: a report that is prepared while the handlers of \<open>Interleaving\<close> count.
  \<^item> \<open>Proxy_Handler\<close>: \<open>resolver_proxy/src/handler.rs\<close>; \<open>Proxy_Interleaving\<close>: its handlers, cut where they wait
    and before they send, under every interleaving.
  \<^item> \<open>Server_Loop\<close>: admission, backlog and backlog task of both \<open>main.rs\<close> as one step relation;
    \<open>Obfs_Path\<close>: the obfuscated listener of the relay, and a query on its way from the proxy to the relay
    and back. \<open>Listener_Turn\<close>: a turn of each listener without a break. \<open>Interleaving\<close>: the handlers of the
    relay, cut where they wait and where they meet the others (each attempt of \<open>push_many\<close>, and the sending of a reply, which
    comes after it was counted), the flush task of the history, and reloads with the contents they have read.
  \<^item> \<open>Served\<close>: the loops composed with handlers of any kind, the locale \<open>handler_pool\<close>; \<open>Whole_Relay\<close> and
    \<open>Whole_Proxy\<close> are its interpretations, and \<open>Deployment\<close> has both programs, one the target of the other.
  \<^item> \<open>Conf_File\<close>: the structures of both \<open>conf.rs\<close> and how they are read from a TOML document, with a type of
    documents as their specification. \<open>Config_Reload\<close>: a tick of the watch tasks of both \<open>conf.rs\<close>;
    \<open>Conf_Watch\<close>: these tasks beside a file that changes, over the locale \<open>reloading\<close>. \<open>Start_Up\<close>: \<open>run_server\<close> of both programs
    up to its loop. \<open>Commands\<close>: the dispatch of both \<open>main\<close> and the commands that print. \<open>Log_Output\<close>: the set-up of the
    log by \<open>shared/src/logger.rs\<close>, with which both \<open>main\<close> begin. \<open>Net_Guard\<close>:
    \<open>shared/src/netguard.rs\<close> for Linux and macOS, over the commands it runs.
  \<^item> This theory: what a started relay answers under the configurations it has read.

  \<^bold>\<open>How the state corresponds.\<close> Shared structures behind \<open>Arc\<close>, \<open>Mutex\<close> and \<open>RwLock\<close> are fields of a state record
  that is passed on; a critical section is one step. Atomic counters are \<open>64 word\<close> and wrap. Times are
  natural numbers, of nanoseconds for the cache and the backlog and of any unit for the
  latencies. Random values, instants and the expiry of time limits are arguments. Of the log output only its set-up is kept.

  \<^bold>\<open>What is shown.\<close>

  \<^item> Wire formats: a name is read exactly when its walk over labels and pointers ends, and the two walkers
    agree on where; questions, redirect replies, client subnets, obfuscated datagrams and relay packets
    are read back as they were written; the rewriting of a message keeps every byte it is not about, and
    none of these functions panics on any input, the endless recursion of \<open>parse_domain\<close> apart.
  \<^item> Rules and cache: the trie decides as the abstract specification \<open>decide\<close> over the list of rules; the
    cache serves the last packet stored for a question, within its lifetime and its capacity.
  \<^item> One query: it is answered or dropped, never a panic, and it returns exactly when it has nothing to record or the
    history has room for it at some attempt, under the hypotheses that \<open>resolve_query_returns\<close> names; who answers, which counter moves, what later queries get. For the proxy:
    every target is tried, in a fair order.
  \<^item> Concurrency: permits and queues stay within their bounds, no query is lost or served twice, the
    backlog is served in order, the server drains; under every interleaving each reply is justified by
    the rules and the answers given, and the counters are the replies sent and those that are about to be. Both programs account for every query as
    a whole, and a turn of a listener is a trace of the steps. Calls that race get one QUIC endpoint, and none panics.
  \<^item> The whole way of a query through a relay, when the replies that the worker gets are complete: a name that is
    looked up has exactly the addresses that the worker's resolvers gave, without repetitions, and a query of
    another type gets the last reply as it is; the two transports give the same
    results while the script has nothing cached; what the script serves under a tag the worker answered
    to that tag less than five minutes before, whatever the type of the question was.
  \<^item> Both programs together: a name that the relay drops is answered with an NXDOMAIN to the clients of the
    proxy, whenever the relay is the first target that answers (\<open>deployment_blocks\<close>).
  \<^item> Configuration: a file is accepted exactly when its document has the type of the structures, and what is
    loaded has numbers in range; when a file that changes is taken up, and when it is missed: a
    change before the task first looks, and one that keeps the modification time.
  \<^item> Background tasks: the pool of resolvers never gets empty, the concurrent health check passes as many
    plain resolvers as datagrams were taken from their socket, and never has more than 100 probes at work, the history file is what its specification says, a reload takes effect, the network
    guard remembers what it changed and changes nothing else, the metrics endpoint can be read back, the outcomes of a report lie between the replies at
    its first and at its last load.
  \<^item> Start-up and commands: what a configuration turns on, what the absence of its sections means, when
    start-up panics, and that a started relay is in a state where the theorems about queries apply; a key
    that is printed is a key that is accepted.
  \<^item> Divergences: theorems whose text states a behaviour that the code or its documents did not intend, for
    instance \<open>hostile_reply_aborts\<close>, \<open>redirect_reply_after_edns_loses_last\<close> and \<open>relay_without_transport_refused\<close>.

  \<^bold>\<open>Recursion and bounds.\<close> \<open>parse_name\<close> is a \<open>partial_function\<close>, because the code's recursion may have no end;
  \<open>name_walk\<close> gives the number of steps, at most one per byte of the message. \<open>push_many\<close> is another, since the code
  spins until the queue has room; \<open>push_many_returns_iff\<close> says when it does. \<open>skip_name\<close>,
  \<open>parse_options_from\<close> and the splitting of strings end by a measure; the other loops are structural. The
  constants (512 permits, 1024 waiting queries, batches of 256 and 64, buffers of 1024 and 4096 bytes, 4096
  cached replies, 100 history entries) are those of the code. \<open>usize\<close> values that index memory are \<open>nat\<close>:
  they are bounded by the length of a slice.

  \<^bold>\<open>Parameters.\<close> Code that is not in the repository is an argument: AES-GCM, HMAC, base64, \<open>lru\<close>, the URL parser,
  sockets, HTTP and QUIC exchanges, \<open>to_socket_addrs\<close>, the parser of IPv6 addresses, the Unicode case tables
  beyond ASCII, \<open>tracing\<close> and \<open>tracing_appender\<close>, \<open>serde_json\<close>, the syntax of TOML (a function to the datatype \<open>toml\<close>), \<open>clap\<close>, the random
  source, \<open>quinn\<close>, WebCrypto, \<open>fetch\<close> and the services of Apps Script, the texts of the errors of other crates, the file system, the commands \<open>ip\<close>, \<open>resolvectl\<close>, \<open>scutil\<close>,
  \<open>networksetup\<close> and \<open>ifconfig\<close>. Laws are assumed of AES-GCM and \<open>lru\<close>, in the locales \<open>aead_contract\<close> and \<open>lru_contract\<close>,
  and in \<open>script_over\<close> of base64, which is read back as it was written; each has an executable instance,
  which the witnesses use. A panic ends the process, as the release profile
  says (\<open>panic = abort\<close>).

  \<^bold>\<open>Not modelled.\<close> The texts of the lines that are logged, which nothing reads back, and what becomes of them; the parsing of command
  lines and of TOML syntax; the network guard for other systems, which does not compile; tests, with the
  constructors that exist only for them; the waits between the rounds of the worker and what the two
  scripts write to their consoles; shell scripts and service files.
\<close>

section \<open>From the configuration to the replies\<close>

text \<open>C1: Every reply of a relay, from its start on and however its handlers interleave with each other, with
  flushes and with reloads, is the one that a configuration it has read demands for the name that is asked: an
  NXDOMAIN for a dropped name, the crafted reply for a redirected one, and for every other name a
  SERVFAIL or an answer that an upstream gave to the same question, fresh or from the cache, under the
  transaction ID of the query. The configurations it has read are what the file held at the start, which is
  the first, and at each reload that found a file that loads; the list files are those of the same moment.\<close>

theorem started_relay_obeys:
  assumes "relay_run_server S (load_conf T cnt) = Some (Inr R)" "lower E = st_lower S"
    and "cache_backend (lru_ops E) recents cap" "recents empty_cache = []"
    and "relay_trace E (new_conf T) (system_start (start_state R empty_cache saved) (run_rules R) [(cnt, st_files S)]) es Sys"
    and "(p, tr, r) \<in> set (replies (handlers Sys))"
  shows "12 \<le> length p \<and> hd (conf_reads (handlers Sys)) = (cnt, st_files S) \<and>
    (\<exists>cnt' fs conf d qe. (cnt', fs) \<in> set (conf_reads (handlers Sys)) \<and> new_conf T cnt' = Some conf \<and>
    tr = conf_rules (lower E) fs conf \<and> parse_domain (lower E) p 12 = Some (Some (d, qe)) \<and>
    (case decide (config_rules (lower E) fs (drop_list conf) (redirect_list conf))
       (rsplit_on dot (to_lowercase (lower E) (trim_end_dots d))) of
       PDrop \<Rightarrow> r = p[2 := 0x81, 3 := 0x83]
     | PRedirect ips \<Rightarrow> craft_redirect_response p qe ips = Some (Some r)
     | PNone \<Rightarrow> r = p[2 := 0x81, 3 := 0x82] \<or>
         (\<exists>b. (question_key p d qe, b) \<in> set (answers (handlers Sys)) \<and> r = with_txid b (p ! 0) (p ! 1))))"
proof -
  let ?w = "world_start (start_state R empty_cache saved) (run_rules R) [(cnt, st_files S)]"
  have steps: "world_steps E (new_conf T) ?w (handlers Sys)"
    using relay_trace_world [OF assms(5)] by (simp add: system_start_def served_start_def)
  obtain c where c: "load_conf T cnt = Inr c" "relay_run_server S (Inr c) = Some (Inr R)"
    using assms(1) by (cases "load_conf T cnt") (auto simp: relay_run_server_def lift_run_def)
  then have "rules_loaded E (new_conf T) ?w"
    using started_rules [OF c(2)] assms(2) by (simp add: rules_loaded_def rules_read_def world_start_def new_conf_def)
  from world_steps_rules [OF steps this] assms(6) obtain cnt' fs conf where
    conf: "(cnt', fs) \<in> set (conf_reads (handlers Sys))" "new_conf T cnt' = Some conf" "tr = conf_rules (lower E) fs conf"
    by (force simp: rules_loaded_def rules_read_def list_all_iff)
  have first: "hd (conf_reads (handlers Sys)) = (cnt, st_files S)"
    using world_steps_reads [OF steps] by (auto simp: world_start_def prefix_def)
  have "recents (cache (start_state R empty_cache saved)) = []" using assms(4) by (simp add: start_state_def)
  from replies_justified [OF assms(3) this steps assms(6)] obtain d qe where d: "12 \<le> length p"
    "parse_domain (lower E) p 12 = Some (Some (d, qe))"
    and r: "case check_rules (lower E) d tr of
       RuleDrop \<Rightarrow> r = p[2 := 0x81, 3 := 0x83]
     | RuleRedirect ips \<Rightarrow> craft_redirect_response p qe ips = Some (Some r)
     | RuleNone \<Rightarrow> r = p[2 := 0x81, 3 := 0x82] \<or>
         (\<exists>b. (question_key p d qe, b) \<in> set (answers (handlers Sys)) \<and> r = with_txid b (p ! 0) (p ! 1))"
    by blast
  show ?thesis
    using d r conf first by (intro conjI exI [of _ cnt'] exI [of _ fs] exI [of _ conf] exI [of _ d] exI [of _ qe])
      (simp_all add: check_rules_conf split: trie_policy.splits)
qed

text \<open>A relay starts from a file that drops a name, and is asked for it.\<close>

lemma demo_bare_started: "\<exists>R. relay_run_server demo_start (Inr demo_bare) = Some (Inr R)"
proof -
  have bind: "\<exists>a. bind_udp_socket (st_parse_v6 demo_start) (st_udp demo_start) (dns_target demo_bare) = Inr a"
    by (simp add: bind_udp_socket_def demo_start_def parse_socket_addr_def demo_bare_def split: option.split prod.split)
  have off: "start_metrics (metric_settings demo_bare) = Some None" "start_finder demo_start demo_bare = Some False"
    "start_obfs demo_start (obfs demo_bare) = Inr None" "start_relays demo_start (relays demo_bare) h = Inr None" for h
    by (simp_all add: demo_bare_def searching_default_def metric_default_def start_metrics_def start_finder_def
      searching_enabled_def start_obfs_def obfs_default_def start_relays_def relays_default_def)
  have "poll_interval_ms (hotreload demo_bare) \<noteq> 0" by (simp add: demo_bare_def relay_hotreload_default_def)
  with bind off show ?thesis by (auto simp: relay_run_server_def lift_run_def start_timer_def Let_def)
qed

theorem started_relay_obeys_witness:
  "\<exists>(R :: (u8, u8) started_relay) es Sys conf. relay_run_server demo_start (load_conf demo_toml (Some (lit ''a.b''))) = Some (Inr R) \<and>
     relay_trace (demo_server demo_reply) (new_conf demo_toml)
       (system_start (start_state R (0, []) None) (run_rules R) [(Some (lit ''a.b''), \<lambda>_. None)]) es Sys \<and>
     replies (handlers Sys) = [(demo_query, run_rules R, demo_query[2 := 0x81, 3 := 0x83])] \<and>
     new_conf demo_toml (Some (lit ''a.b'')) = Some conf \<and> run_rules R = conf_rules (\<lambda>s. s) (\<lambda>_. None) conf"
proof -
  let ?E = "demo_server demo_reply" and ?no = "demo_query[2 := 0x81, 3 := 0x83]" and ?ld = "new_conf demo_toml"
  obtain R where started: "relay_run_server demo_start (Inr demo_bare) = Some (Inr R)" using demo_bare_started by blast
  then have R: "relay_run_server demo_start (load_conf demo_toml (Some (lit ''a.b''))) = Some (Inr R)" by (simp add: demo_loads)
  let ?s = "start_state R (0, []) None" and ?q = demo_query and ?reads = "[(Some (lit ''a.b''), \<lambda>_. None)]"
  let ?S = "system_start ?s (run_rules R) ?reads" and ?t = "fresh_task ?q (run_rules R)"
  let ?a = "spawn ?q server_start" and ?w = "(world_start ?s (run_rules R) ?reads)\<lparr>tasks := [?t]\<rparr>"
  let ?v = "?w\<lparr>shared := incr_drop ?s, tasks := [?t\<lparr>phase := Replying ?no\<rparr>]\<rparr>"
  let ?x = "?v\<lparr>tasks := [], replies := [(?q, run_rules R, ?no)]\<rparr>"
  let ?T = "?S\<lparr>admissions := ?a, handlers := ?w\<rparr>"
  let ?V = "?T\<lparr>handlers := ?v\<rparr>"
  let ?U = "?T\<lparr>admissions := finish ?q ?a, handlers := ?x\<rparr>"
  have rules: "run_rules R = build (\<lambda>s. s) (\<lambda>_. None) [lit ''a.b''] [(lit ''x.y'', lit ''1.2.3.4'')]"
    using started_rules [OF started] by (simp add: conf_rules_def conf.truncate_def demo_bare_def)
  have "check_rules (\<lambda>s. s) (lit ''a.b'') (build (\<lambda>s. s) (\<lambda>_. None) [lit ''a.b''] [(lit ''x.y'', lit ''1.2.3.4'')]) = RuleDrop"
    by code_simp
  then have front: "query_front ?E (run_rules R) 0 ?q ?s = Some (Done (Some ?no), incr_drop ?s)"
    by (simp add: query_front_def rules demo_parse demo_length craft_nxdomain_eq)
  have "server_step (admissions ?S) (ObfsAdmitted ?q) ?a"
    by (rule server_step.obfs_listen) (simp add: obfs_admit_def system_start_def served_start_def server_start_def RESOLVE_SEMAPHORE_def)
  from served_step.spawning [where p = ?q and H = "relay_handlers ?E ?ld" and listens = "\<lambda>_. True", OF this]
  have one: "relay_step ?E ?ld ?S [ObfsAdmitted ?q] ?T" by (simp add: system_start_def served_start_def world_start_def)
  have "world_step ?E ?ld ?w ?v"
    using world_step.front_reply [of ?w "[]" ?t "[]" ?E 0 ?no "incr_drop ?s" ?ld] front by (simp add: world_start_def)
  then have two: "relay_step ?E ?ld ?T [] ?V"
    using served_step.working [of "relay_handlers ?E ?ld" ?T ?v "\<lambda>_. True"] by (simp add: system_start_def served_start_def)
  have "world_step ?E ?ld ?v ?x"
    using world_step.reply_sent [of ?v "[]" "?t\<lparr>phase := Replying ?no\<rparr>" "[]" ?no ?E ?ld] by (simp add: world_start_def)
  moreover have "server_step (admissions ?V) (Finished ?q) (finish ?q ?a)"
    using server_step.finished [of ?q ?a] by (simp add: spawn_def)
  ultimately have "relay_step ?E ?ld ?V [Finished ?q] ?U"
    using served_step.ending [of "relay_handlers ?E ?ld" ?V ?x "[]" "?t\<lparr>phase := Replying ?no\<rparr>" "[]" "finish ?q ?a" "\<lambda>_. True"]
    by (simp add: system_start_def served_start_def world_start_def)
  from served_trace.step [OF served_trace.step [OF served_trace.step [OF served_trace.start one] two] this]
  have t: "relay_trace ?E ?ld ?S ([] @ [ObfsAdmitted ?q] @ [] @ [Finished ?q]) ?U" by simp
  have "\<exists>cnt' fs conf. (cnt', fs) \<in> set ?reads \<and> ?ld cnt' = Some conf \<and> run_rules R = conf_rules (\<lambda>s. s) fs conf"
    using started_relay_obeys [where recents = snd and empty_cache = "(0, [])" and Sys = ?U and E = ?E and p = ?q
        and tr = "run_rules R" and r = ?no and saved = None, OF R] list_cache.cache_backend_axioms t
    by (auto simp: world_start_def)
  then obtain conf where conf: "?ld (Some (lit ''a.b'')) = Some conf" "run_rules R = conf_rules (\<lambda>s. s) (\<lambda>_. None) conf" by auto
  show ?thesis
  proof (intro exI conjI)
    show "relay_trace ?E ?ld ?S ([] @ [ObfsAdmitted ?q] @ [] @ [Finished ?q]) ?U" by (rule t)
    show "replies (handlers ?U) = [(?q, run_rules R, ?no)]" by simp
  qed (fact R conf)+
qed

end
